(* ===== verification/Prelude.thy ===== *)
theory Prelude
  imports Main "HOL-Library.AList"
begin

text \<open>
  Shared vocabulary of the development: Go's built-in map as an association list with
  distinct keys (so that \<^verbatim>\<open>len\<close> and \<^verbatim>\<open>range\<close> are executable), an interface locale for it, an
  explicit object store addressed by index, and the generic list facts that several components
  use. Iteration order of a Go map is unspecified; every property of an iteration is stated
  up to the order.
\<close>

section \<open>Collections of facts\<close>

named_theorems go_arith \<open>wrap-around, saturation and clock arithmetic\<close>
named_theorems map_simps \<open>look-up after update and delete\<close>
named_theorems inv_rules \<open>preservation of component invariants\<close>

section \<open>Go maps\<close>

type_synonym ('k, 'v) gomap = "('k \<times> 'v) list"

abbreviation gm_get :: "('k, 'v) gomap \<Rightarrow> 'k \<Rightarrow> 'v option" where
  "gm_get m k \<equiv> map_of m k"

abbreviation gm_put :: "'k \<Rightarrow> 'v \<Rightarrow> ('k, 'v) gomap \<Rightarrow> ('k, 'v) gomap" where
  "gm_put k v m \<equiv> AList.update k v m"

abbreviation gm_del :: "'k \<Rightarrow> ('k, 'v) gomap \<Rightarrow> ('k, 'v) gomap" where
  "gm_del k m \<equiv> AList.delete k m"

abbreviation gm_len :: "('k, 'v) gomap \<Rightarrow> int" where
  "gm_len m \<equiv> int (length m)"

definition gm_wf :: "('k, 'v) gomap \<Rightarrow> bool" where
  "gm_wf m \<longleftrightarrow> distinct (map fst m)"

abbreviation gm_keys :: "('k, 'v) gomap \<Rightarrow> 'k set" where
  "gm_keys m \<equiv> fst ` set m"

abbreviation gm_vals :: "('k, 'v) gomap \<Rightarrow> 'v list" where
  "gm_vals m \<equiv> map snd m"

lemma find_append: "find P (xs @ ys) = (case find P xs of None \<Rightarrow> find P ys | Some x \<Rightarrow> Some x)"
  by (induction xs) auto

section \<open>The interface of a finite map\<close>

text \<open>
  What the components rely on: look-up after every operation, the invariant, and that
  the length is the number of keys. Facts proved from these laws alone hold for any
  implementation of the built-in map.
\<close>

locale go_map =
  fixes get :: "'m \<Rightarrow> 'k \<Rightarrow> 'v option"
    and put :: "'k \<Rightarrow> 'v \<Rightarrow> 'm \<Rightarrow> 'm"
    and del :: "'k \<Rightarrow> 'm \<Rightarrow> 'm"
    and len :: "'m \<Rightarrow> int"
    and wf :: "'m \<Rightarrow> bool"
  assumes get_put: "get (put k v m) k' = (if k' = k then Some v else get m k')"
    and get_del: "get (del k m) k' = (if k' = k then None else get m k')"
    and wf_put: "wf m \<Longrightarrow> wf (put k v m)"
    and wf_del: "wf m \<Longrightarrow> wf (del k m)"
    and fin_dom: "finite (dom (get m))"
    and len_card: "wf m \<Longrightarrow> len m = int (card (dom (get m)))"
begin

lemma get_put_all:
  "get (fold (\<lambda>x. put (f x) (g x)) xs m) k =
     (case find (\<lambda>x. f x = k) (rev xs) of None \<Rightarrow> get m k | Some x \<Rightarrow> Some (g x))"
  by (induction xs arbitrary: m) (auto simp: get_put find_append split: option.splits)

lemma wf_put_all: "wf m \<Longrightarrow> wf (fold (\<lambda>x. put (f x) (g x)) xs m)"
  by (induction xs arbitrary: m) (auto simp: wf_put)

lemma len_zero: "wf m \<Longrightarrow> (len m = 0) = (\<forall>k. get m k = None)"
  using fin_dom [of m] by (auto simp: len_card)

lemma len_put_old: "wf m \<Longrightarrow> get m k \<noteq> None \<Longrightarrow> len (put k v m) = len m"
proof -
  assume m: "wf m" "get m k \<noteq> None"
  then have "dom (get (put k v m)) = dom (get m)" by (auto simp: dom_def get_put)
  with m show ?thesis by (simp add: len_card wf_put)
qed

lemma len_put_new: "wf m \<Longrightarrow> get m k = None \<Longrightarrow> len (put k v m) = len m + 1"
proof -
  assume m: "wf m" "get m k = None"
  then have "dom (get (put k v m)) = insert k (dom (get m))" by (auto simp: dom_def get_put)
  with m fin_dom [of m] show ?thesis by (simp add: len_card wf_put domIff)
qed

lemma len_del: "wf m \<Longrightarrow> get m k \<noteq> None \<Longrightarrow> len (del k m) = len m - 1"
proof -
  assume m: "wf m" "get m k \<noteq> None"
  then have "dom (get (del k m)) = dom (get m) - {k}" by (auto simp: dom_def get_del)
  moreover have "card (dom (get m)) > 0" using m fin_dom [of m] by (auto simp: card_gt_0_iff)
  ultimately show ?thesis using m fin_dom [of m]
    by (simp add: len_card wf_del domIff of_nat_diff)
qed

end

lemma gm_get_put [simp, map_simps]:
  "map_of (AList.update k v m) k' = (if k' = k then Some v else map_of m k')"
  by (simp add: update_conv')

lemma gm_get_del [simp, map_simps]:
  "map_of (AList.delete k m) k' = (if k' = k then None else map_of m k')"
  by (simp add: delete_conv')

lemma gm_wf_put [simp, intro, inv_rules]: "gm_wf m \<Longrightarrow> gm_wf (AList.update k v m)"
  by (simp add: gm_wf_def distinct_update)

lemma gm_wf_del [simp, intro, inv_rules]: "gm_wf m \<Longrightarrow> gm_wf (AList.delete k m)"
  by (simp add: gm_wf_def distinct_delete)

lemma gm_wf_Nil [simp]: "gm_wf []"
  by (simp add: gm_wf_def)

lemma gm_len_card: "gm_wf m \<Longrightarrow> length m = card (dom (map_of m))"
  using distinct_card [of "map fst m"] by (simp add: gm_wf_def dom_map_of_conv_image_fst)

interpretation gm: go_map gm_get gm_put gm_del gm_len gm_wf
  by unfold_locales (auto simp: gm_len_card finite_dom_map_of)

lemma gm_in_set: "gm_wf m \<Longrightarrow> (k, v) \<in> set m \<longleftrightarrow> map_of m k = Some v"
  by (auto simp: gm_wf_def)

lemma gm_keys_dom: "gm_keys m = dom (map_of m)"
  by (simp add: dom_map_of_conv_image_fst)

section \<open>Object stores\<close>

text \<open>
  Objects that are reached from several places (a map and a handle, say) live in a list
  and are addressed by their index: allocation appends, a write is \<open>xs[i := v]\<close>.
\<close>

abbreviation alloc :: "'a list \<Rightarrow> 'a \<Rightarrow> 'a list \<times> nat" where
  "alloc heap x \<equiv> (heap @ [x], length heap)"

definition modify :: "nat \<Rightarrow> ('a \<Rightarrow> 'a) \<Rightarrow> 'a list \<Rightarrow> 'a list" where
  "modify i f xs = (if i < length xs then xs[i := f (xs ! i)] else xs)"

lemma length_modify [simp]: "length (modify i f xs) = length xs"
  by (simp add: modify_def)

lemma nth_modify: "j < length xs \<Longrightarrow> modify i f xs ! j = (if j = i then f (xs ! j) else xs ! j)"
  by (auto simp: modify_def)

lemma nth_modify_same [simp]: "i < length xs \<Longrightarrow> modify i f xs ! i = f (xs ! i)"
  by (simp add: modify_def)

lemma nth_modify_other [simp]: "i \<noteq> j \<Longrightarrow> modify i f xs ! j = xs ! j"
  by (simp add: modify_def)

lemma modify_last [simp]: "modify (length xs) f (xs @ [x]) = xs @ [f x]"
  by (simp add: modify_def)

section \<open>Lists\<close>

lemma sum_list_nonneg': "(\<And>x. x \<in> set xs \<Longrightarrow> (0::int) \<le> f x) \<Longrightarrow> 0 \<le> sum_list (map f xs)"
  by (induction xs) auto

lemma sum_list_filter_le:
  "(\<And>x. x \<in> set xs \<Longrightarrow> (0::int) \<le> f x) \<Longrightarrow> (\<And>x. P x \<Longrightarrow> Q x)
    \<Longrightarrow> sum_list (map f (filter P xs)) \<le> sum_list (map f (filter Q xs))"
proof (induction xs)
  case Nil
  then show ?case by simp
next
  case (Cons a xs)
  then have "sum_list (map f (filter P xs)) \<le> sum_list (map f (filter Q xs))" by auto
  with Cons.prems show ?case by (auto simp: add_increasing)
qed

end
