(* ===== verification/Lru.thy ===== *)
theory Lru
  imports Prelude
begin

text \<open>
  \<^verbatim>\<open>core/lru.go\<close>: keys in order of use. The tracker pairs a doubly linked list
  (\<^verbatim>\<open>container/list\<close>) with a map from a key to its list element. An element is identified by a
  number, so the model keeps the sharing between the two structures, and the main facts say
  that together they refine a plain recency list.
\<close>

section \<open>State\<close>

type_synonym element = "nat \<times> string"

record LRUKeys =
  lru_max :: int
  lru_items :: "(string, nat) gomap"
  lru_list :: "element list"
  lru_next :: nat

definition NewLRUKeys :: "int \<Rightarrow> LRUKeys" where
  "NewLRUKeys m =
     \<lparr>lru_max = (if m < 0 then 0 else m), lru_items = [], lru_list = [], lru_next = 0\<rparr>"

section \<open>container/list\<close>

definition list_MoveToFront :: "nat \<Rightarrow> element list \<Rightarrow> element list" where
  "list_MoveToFront e l =
     (case find (\<lambda>x. fst x = e) l of None \<Rightarrow> l | Some x \<Rightarrow> x # filter (\<lambda>y. fst y \<noteq> e) l)"

definition list_Remove :: "nat \<Rightarrow> element list \<Rightarrow> element list" where
  "list_Remove e l = filter (\<lambda>y. fst y \<noteq> e) l"

definition list_Back :: "element list \<Rightarrow> element option" where
  "list_Back l = (if l = [] then None else Some (last l))"

section \<open>Operations\<close>

fun LRU_Add :: "LRUKeys option \<Rightarrow> string \<Rightarrow> LRUKeys option" where
  "LRU_Add None key = None"
| "LRU_Add (Some lru) key =
     (case gm_get (lru_items lru) key of
        Some element \<Rightarrow> Some (lru\<lparr>lru_list := list_MoveToFront element (lru_list lru)\<rparr>)
      | None \<Rightarrow>
          let element = lru_next lru in
          Some (lru\<lparr>lru_list := (element, key) # lru_list lru,
                    lru_items := gm_put key element (lru_items lru),
                    lru_next := Suc element\<rparr>))"

fun LRU_Touch :: "LRUKeys option \<Rightarrow> string \<Rightarrow> LRUKeys option" where
  "LRU_Touch None key = None"
| "LRU_Touch (Some lru) key =
     (case gm_get (lru_items lru) key of
        Some element \<Rightarrow> Some (lru\<lparr>lru_list := list_MoveToFront element (lru_list lru)\<rparr>)
      | None \<Rightarrow> LRU_Add (Some lru) key)"

fun LRU_Remove :: "LRUKeys option \<Rightarrow> string \<Rightarrow> LRUKeys option" where
  "LRU_Remove None key = None"
| "LRU_Remove (Some lru) key =
     (case gm_get (lru_items lru) key of
        None \<Rightarrow> Some lru
      | Some element \<Rightarrow>
          Some (lru\<lparr>lru_list := list_Remove element (lru_list lru),
                    lru_items := gm_del key (lru_items lru)\<rparr>))"

text \<open>The loop of \<^verbatim>\<open>EvictIfNeeded\<close>: \<^verbatim>\<open>count\<close> rounds, stopping early on an empty list.\<close>

fun evict_loop :: "nat \<Rightarrow> LRUKeys \<Rightarrow> string list \<Rightarrow> string list \<times> LRUKeys" where
  "evict_loop 0 lru evicted = (evicted, lru)"
| "evict_loop (Suc count) lru evicted =
     (case list_Back (lru_list lru) of
        None \<Rightarrow> (evicted, lru)
      | Some (element, key) \<Rightarrow>
          evict_loop count
            (lru\<lparr>lru_list := list_Remove element (lru_list lru),
                 lru_items := gm_del key (lru_items lru)\<rparr>)
            (evicted @ [key]))"

fun LRU_EvictIfNeeded :: "LRUKeys option \<Rightarrow> string list \<times> LRUKeys option" where
  "LRU_EvictIfNeeded None = ([], None)"
| "LRU_EvictIfNeeded (Some lru) =
     (if gm_len (lru_items lru) \<le> lru_max lru then ([], Some lru)
      else let (evicted, lru') = evict_loop (nat (gm_len (lru_items lru) - lru_max lru)) lru []
           in (evicted, Some lru'))"

section \<open>Invariant and abstraction\<close>

definition lru_inv :: "LRUKeys \<Rightarrow> bool" where
  "lru_inv lru \<longleftrightarrow>
     0 \<le> lru_max lru \<and> gm_wf (lru_items lru)
     \<and> distinct (map fst (lru_list lru)) \<and> distinct (map snd (lru_list lru))
     \<and> (\<forall>e k. map_of (lru_items lru) k = Some e \<longleftrightarrow> (e, k) \<in> set (lru_list lru))
     \<and> (\<forall>x \<in> set (lru_list lru). fst x < lru_next lru)"

definition lru_ok :: "LRUKeys option \<Rightarrow> bool" where
  "lru_ok p \<longleftrightarrow> (\<exists>lru. p = Some lru \<and> lru_inv lru)"

text \<open>The recency list, most recent first, and its capacity.\<close>

definition lru_keys :: "LRUKeys option \<Rightarrow> string list" where
  "lru_keys p = (case p of None \<Rightarrow> [] | Some lru \<Rightarrow> map snd (lru_list lru))"

definition lru_cap :: "LRUKeys option \<Rightarrow> nat" where
  "lru_cap p = (case p of None \<Rightarrow> 0 | Some lru \<Rightarrow> nat (lru_max lru))"

section \<open>The contract of a recency tracker\<close>

locale recency =
  fixes touch add remove :: "'l \<Rightarrow> string \<Rightarrow> 'l"
    and evict :: "'l \<Rightarrow> string list \<times> 'l"
    and keys :: "'l \<Rightarrow> string list"
    and cap :: "'l \<Rightarrow> nat"
    and ok :: "'l \<Rightarrow> bool"
  assumes touch: "ok l \<Longrightarrow> ok (touch l k) \<and> keys (touch l k) = k # filter (\<lambda>x. x \<noteq> k) (keys l) \<and> cap (touch l k) = cap l"
    and add: "ok l \<Longrightarrow> ok (add l k) \<and> keys (add l k) = k # filter (\<lambda>x. x \<noteq> k) (keys l) \<and> cap (add l k) = cap l"
    and remove: "ok l \<Longrightarrow> ok (remove l k) \<and> keys (remove l k) = filter (\<lambda>x. x \<noteq> k) (keys l) \<and> cap (remove l k) = cap l"
    and evict: "ok l \<Longrightarrow> evict l = (ev, l') \<Longrightarrow>
      ok l' \<and> keys l' = take (cap l) (keys l) \<and> ev = rev (drop (cap l) (keys l)) \<and> cap l' = cap l"
    and keys_distinct: "ok l \<Longrightarrow> distinct (keys l)"
begin

lemma evict_split:
  assumes "ok l" "evict l = (ev, l')"
  shows "set (keys l) = set (keys l') \<union> set ev" and "set (keys l') \<inter> set ev = {}"
    and "length (keys l') \<le> cap l" and "distinct ev"
proof -
  from evict [OF assms] have e: "keys l' = take (cap l) (keys l)" "ev = rev (drop (cap l) (keys l))"
    by auto
  have d: "distinct (take (cap l) (keys l) @ drop (cap l) (keys l))"
    using keys_distinct [OF assms(1)] by simp
  show "set (keys l) = set (keys l') \<union> set ev"
    unfolding e by (metis append_take_drop_id set_append set_rev)
  show "set (keys l') \<inter> set ev = {}" and "distinct ev"
    using d unfolding e distinct_append by auto
  show "length (keys l') \<le> cap l" unfolding e by simp
qed

text \<open>The key just added is the last one to be evicted.\<close>

lemma added_survives:
  assumes "ok l" "0 < cap l" "evict (add l k) = (ev, l')"
  shows "k \<in> set (keys l')" and "k \<notin> set ev" and "hd (keys l') = k"
proof -
  from add [OF assms(1)] have a: "ok (add l k)" "keys (add l k) = k # filter (\<lambda>x. x \<noteq> k) (keys l)"
    "cap (add l k) = cap l" by auto
  from evict [OF a(1) assms(3)] a assms(2)
  have "keys l' = k # take (cap l - 1) (filter (\<lambda>x. x \<noteq> k) (keys l))"
    by (cases "cap l") auto
  then show "k \<in> set (keys l')" and "hd (keys l') = k" by simp_all
  with evict_split(2) [OF a(1) assms(3)] show "k \<notin> set ev" by blast
qed

end

section \<open>The tracker meets the contract\<close>

lemma lru_inv_New: "lru_inv (NewLRUKeys m)"
  by (simp add: lru_inv_def NewLRUKeys_def)

lemma find_by_id:
  "distinct (map fst l) \<Longrightarrow> (e, k) \<in> set l \<Longrightarrow> find (\<lambda>x. fst x = e) l = Some (e, k)"
  by (induction l) (auto simp: image_iff)

lemma filter_by_id:
  assumes "distinct (map fst l)" "distinct (map snd l)" "(e, k) \<in> set l"
  shows "map snd (filter (\<lambda>y. fst y \<noteq> e) l) = filter (\<lambda>x. x \<noteq> k) (map snd l)"
proof -
  have "fst y \<noteq> e \<longleftrightarrow> snd y \<noteq> k" if "y \<in> set l" for y
    using assms that by (metis (no_types, lifting) eq_fst_iff eq_key_imp_eq_value
        eq_snd_iff inj_on_def distinct_map)
  then have "filter (\<lambda>y. fst y \<noteq> e) l = filter (\<lambda>y. snd y \<noteq> k) l"
    by (intro filter_cong) auto
  then show ?thesis by (simp add: filter_map o_def)
qed

lemma lru_move:
  assumes "lru_inv lru" "map_of (lru_items lru) k = Some e"
  shows "lru_inv (lru\<lparr>lru_list := list_MoveToFront e (lru_list lru)\<rparr>)"
    and "map snd (list_MoveToFront e (lru_list lru)) = k # filter (\<lambda>x. x \<noteq> k) (map snd (lru_list lru))"
proof -
  let ?l = "lru_list lru"
  from assms have i: "distinct (map fst ?l)" "distinct (map snd ?l)" "(e, k) \<in> set ?l"
    by (auto simp: lru_inv_def)
  then have m: "list_MoveToFront e ?l = (e, k) # filter (\<lambda>y. fst y \<noteq> e) ?l"
    by (simp add: list_MoveToFront_def find_by_id)
  show s: "map snd (list_MoveToFront e ?l) = k # filter (\<lambda>x. x \<noteq> k) (map snd ?l)"
    by (simp add: m filter_by_id [OF i])
  have "set (list_MoveToFront e ?l) = set ?l"
    using i unfolding m by (auto dest: eq_key_imp_eq_value)
  moreover have "distinct (map fst (list_MoveToFront e ?l))"
    using i(1) unfolding m by (auto simp: distinct_map_filter)
  moreover have "distinct (map snd (list_MoveToFront e ?l))"
    using i(2) unfolding s by simp
  ultimately show "lru_inv (lru\<lparr>lru_list := list_MoveToFront e ?l\<rparr>)"
    using assms(1) by (simp add: lru_inv_def)
qed

lemma lru_drop:
  assumes "lru_inv lru" "map_of (lru_items lru) k = Some e"
  shows "lru_inv (lru\<lparr>lru_list := list_Remove e (lru_list lru), lru_items := gm_del k (lru_items lru)\<rparr>)"
    and "map snd (list_Remove e (lru_list lru)) = filter (\<lambda>x. x \<noteq> k) (map snd (lru_list lru))"
proof -
  let ?l = "lru_list lru"
  from assms have i: "distinct (map fst ?l)" "distinct (map snd ?l)" "(e, k) \<in> set ?l"
    by (auto simp: lru_inv_def)
  show s: "map snd (list_Remove e ?l) = filter (\<lambda>x. x \<noteq> k) (map snd ?l)"
    by (simp add: list_Remove_def filter_by_id [OF i])
  have "(e', k') \<in> set (list_Remove e ?l) \<longleftrightarrow> (e', k') \<in> set ?l \<and> k' \<noteq> k" for e' k'
    using i by (auto simp: list_Remove_def dest: eq_key_imp_eq_value)
      (metis distinct_map inj_onD snd_conv prod.inject)
  moreover have "distinct (map fst (list_Remove e ?l))"
    using i(1) by (simp add: list_Remove_def distinct_map_filter)
  moreover have "distinct (map snd (list_Remove e ?l))" using i(2) unfolding s by simp
  ultimately show "lru_inv (lru\<lparr>lru_list := list_Remove e ?l, lru_items := gm_del k (lru_items lru)\<rparr>)"
    using assms(1) by (auto simp: lru_inv_def list_Remove_def)
qed

lemma lru_new:
  assumes "lru_inv lru" "map_of (lru_items lru) k = None"
  shows "lru_inv (lru\<lparr>lru_list := (lru_next lru, k) # lru_list lru,
                      lru_items := gm_put k (lru_next lru) (lru_items lru),
                      lru_next := Suc (lru_next lru)\<rparr>)"
    and "k \<notin> snd ` set (lru_list lru)"
proof -
  from assms show n: "k \<notin> snd ` set (lru_list lru)"
    by (auto simp: lru_inv_def) (metis option.distinct(1))
  have f: "\<And>x. x \<in> set (lru_list lru) \<Longrightarrow> fst x < lru_next lru"
    using assms(1) by (auto simp: lru_inv_def)
  then have "lru_next lru \<notin> fst ` set (lru_list lru)" by fastforce
  then show "lru_inv (lru\<lparr>lru_list := (lru_next lru, k) # lru_list lru,
                      lru_items := gm_put k (lru_next lru) (lru_items lru),
                      lru_next := Suc (lru_next lru)\<rparr>)"
    using assms n f by (fastforce simp: lru_inv_def image_iff less_Suc_eq)
qed

lemma lru_len:
  assumes "lru_inv lru"
  shows "length (lru_items lru) = length (lru_list lru)"
proof -
  have "dom (map_of (lru_items lru)) = snd ` set (lru_list lru)"
    using assms by (force simp: lru_inv_def dom_def)
  then show ?thesis using assms gm_len_card [of "lru_items lru"] distinct_card [of "map snd (lru_list lru)"]
    by (simp add: lru_inv_def)
qed

lemma filter_neq_absent: "k \<notin> set xs \<Longrightarrow> filter (\<lambda>x. x \<noteq> k) xs = xs"
  by (induction xs) auto

lemma lru_Add_spec:
  assumes "lru_ok p"
  shows "lru_ok (LRU_Add p k)" and "lru_keys (LRU_Add p k) = k # filter (\<lambda>x. x \<noteq> k) (lru_keys p)"
    and "lru_cap (LRU_Add p k) = lru_cap p"
proof -
  from assms obtain lru where p: "p = Some lru" "lru_inv lru" by (auto simp: lru_ok_def)
  have "lru_ok (LRU_Add p k) \<and> lru_keys (LRU_Add p k) = k # filter (\<lambda>x. x \<noteq> k) (lru_keys p)
     \<and> lru_cap (LRU_Add p k) = lru_cap p"
  proof (cases "map_of (lru_items lru) k")
    case None
    with p lru_new [OF p(2) None] show ?thesis
      by (simp add: lru_ok_def lru_keys_def lru_cap_def Let_def filter_neq_absent)
  next
    case (Some e)
    with p lru_move [OF p(2) Some] show ?thesis
      by (simp add: lru_ok_def lru_keys_def lru_cap_def)
  qed
  then show "lru_ok (LRU_Add p k)" and "lru_keys (LRU_Add p k) = k # filter (\<lambda>x. x \<noteq> k) (lru_keys p)"
    and "lru_cap (LRU_Add p k) = lru_cap p" by auto
qed

lemma lru_Touch_eq_Add: "LRU_Touch p k = LRU_Add p k"
  by (cases p) (auto split: option.split)

lemma lru_Remove_spec:
  assumes "lru_ok p"
  shows "lru_ok (LRU_Remove p k)" and "lru_keys (LRU_Remove p k) = filter (\<lambda>x. x \<noteq> k) (lru_keys p)"
    and "lru_cap (LRU_Remove p k) = lru_cap p"
proof -
  from assms obtain lru where p: "p = Some lru" "lru_inv lru" by (auto simp: lru_ok_def)
  have "lru_ok (LRU_Remove p k) \<and> lru_keys (LRU_Remove p k) = filter (\<lambda>x. x \<noteq> k) (lru_keys p)
     \<and> lru_cap (LRU_Remove p k) = lru_cap p"
  proof (cases "map_of (lru_items lru) k")
    case None
    with p lru_new(2) [OF p(2) None] show ?thesis
      by (simp add: lru_ok_def lru_keys_def lru_cap_def filter_neq_absent)
  next
    case (Some e)
    with p lru_drop [OF p(2) Some] show ?thesis
      by (simp add: lru_ok_def lru_keys_def lru_cap_def)
  qed
  then show "lru_ok (LRU_Remove p k)" and "lru_keys (LRU_Remove p k) = filter (\<lambda>x. x \<noteq> k) (lru_keys p)"
    and "lru_cap (LRU_Remove p k) = lru_cap p" by auto
qed

text \<open>One round removes the last key; \<^verbatim>\<open>n\<close> rounds remove the last \<^verbatim>\<open>n\<close>, oldest first.\<close>

lemma filter_butlast:
  "distinct xs \<Longrightarrow> xs \<noteq> [] \<Longrightarrow> filter (\<lambda>x. x \<noteq> last xs) xs = butlast xs"
  by (induction xs rule: rev_induct) (auto simp: filter_neq_absent)

lemma evict_loop_spec:
  assumes "lru_inv lru" "n \<le> length (lru_list lru)" "evict_loop n lru acc = (ev, lru')"
  shows "lru_inv lru' \<and> map snd (lru_list lru') = take (length (lru_list lru) - n) (map snd (lru_list lru))
     \<and> ev = acc @ rev (drop (length (lru_list lru) - n) (map snd (lru_list lru)))
     \<and> lru_max lru' = lru_max lru"
  using assms
proof (induction n arbitrary: lru acc)
  case 0
  then show ?case by simp
next
  case (Suc n)
  let ?l = "lru_list lru" and ?ks = "map snd (lru_list lru)"
  have ne: "?l \<noteq> []" using Suc.prems(2) by auto
  obtain e k where ek: "last ?l = (e, k)" by fastforce
  have "(e, k) \<in> set ?l" using ne ek last_in_set by metis
  then have m: "map_of (lru_items lru) k = Some e" using Suc.prems(1) by (auto simp: lru_inv_def)
  define lru1 where "lru1 = lru\<lparr>lru_list := list_Remove e ?l, lru_items := gm_del k (lru_items lru)\<rparr>"
  have i1: "lru_inv lru1" using lru_drop(1) [OF Suc.prems(1) m] by (simp add: lru1_def)
  have "last ?ks = k" using ek ne by (simp add: last_map)
  then have k1: "map snd (lru_list lru1) = butlast ?ks"
    using lru_drop(2) [OF Suc.prems(1) m] filter_butlast [of ?ks] Suc.prems(1) ne
    by (simp add: lru1_def lru_inv_def)
  then have len1: "length (lru_list lru1) = length ?l - 1" by (metis length_butlast length_map)
  have ev: "evict_loop n lru1 (acc @ [k]) = (ev, lru')"
    using Suc.prems(3) ne ek by (simp add: list_Back_def lru1_def)
  have ks: "?ks = butlast ?ks @ [k]" using ne \<open>last ?ks = k\<close> by (metis append_butlast_last_id map_is_Nil_conv)
  from Suc.IH [OF i1 _ ev] Suc.prems(2) len1 have IH: "lru_inv lru'"
    "map snd (lru_list lru') = take (length ?l - 1 - n) (butlast ?ks)"
    "ev = (acc @ [k]) @ rev (drop (length ?l - 1 - n) (butlast ?ks))" "lru_max lru' = lru_max lru1"
    by (auto simp: k1)
  have le: "length ?l - Suc n \<le> length (butlast ?ks)" by simp
  have d: "drop (length ?l - Suc n) ?ks = drop (length ?l - Suc n) (butlast ?ks) @ [k]"
    by (subst ks, subst drop_append) (use le in simp)
  have t: "take (length ?l - Suc n) ?ks = take (length ?l - Suc n) (butlast ?ks)"
    by (subst ks, subst take_append) (use le in simp)
  show ?case using IH d t by (simp add: lru1_def)
qed

lemma lru_Evict_spec:
  assumes "lru_ok p" "LRU_EvictIfNeeded p = (ev, p')"
  shows "lru_ok p' \<and> lru_keys p' = take (lru_cap p) (lru_keys p)
     \<and> ev = rev (drop (lru_cap p) (lru_keys p)) \<and> lru_cap p' = lru_cap p"
proof -
  from assms obtain lru where p: "p = Some lru" "lru_inv lru" by (auto simp: lru_ok_def)
  have len: "gm_len (lru_items lru) = int (length (lru_list lru))" by (simp add: lru_len [OF p(2)])
  have mx: "0 \<le> lru_max lru" using p(2) by (simp add: lru_inv_def)
  show ?thesis
  proof (cases "int (length (lru_list lru)) \<le> lru_max lru")
    case True
    with assms(2) p len show ?thesis by (auto simp: lru_ok_def lru_keys_def lru_cap_def)
  next
    case False
    obtain lru' where l: "evict_loop (nat (int (length (lru_list lru)) - lru_max lru)) lru [] = (ev, lru')"
      and p': "p' = Some lru'"
      using assms(2) p len False by (auto simp: Let_def split: prod.splits)
    have n: "length (lru_list lru) - nat (int (length (lru_list lru)) - lru_max lru) = nat (lru_max lru)"
      using False mx by linarith
    have b: "nat (int (length (lru_list lru)) - lru_max lru) \<le> length (lru_list lru)"
      using mx by linarith
    from evict_loop_spec [OF p(2) b l] p p' show ?thesis
      by (auto simp: lru_ok_def lru_keys_def lru_cap_def n)
  qed
qed

lemma lru_keys_distinct: "lru_ok p \<Longrightarrow> distinct (lru_keys p)"
  by (auto simp: lru_ok_def lru_keys_def lru_inv_def)

interpretation lru: recency LRU_Touch LRU_Add LRU_Remove LRU_EvictIfNeeded lru_keys lru_cap lru_ok
  by unfold_locales (simp_all add: lru_Add_spec lru_Touch_eq_Add lru_Remove_spec lru_Evict_spec lru_keys_distinct)

end
