(* ===== verification/Go_Base.thy ===== *)
theory Go_Base
  imports Prelude "HOL-Library.Word"
begin

text \<open>
  The parts of Go and its standard library that the service computes with: 64-bit signed
  integers with wrap-around (\<^verbatim>\<open>int64\<close>, and \<^verbatim>\<open>int\<close>, which is 64 bits wide on the supported
  platforms), \<^verbatim>\<open>time.Duration\<close> and \<^verbatim>\<open>time.Time\<close>, byte strings with the functions of
  \<^verbatim>\<open>strings\<close> and \<^verbatim>\<open>strconv\<close> that are called, and error values.
\<close>

section \<open>Integers\<close>

type_synonym int64 = int

definition max_int64 :: int64 where "max_int64 = 2 ^ 63 - 1"
definition min_int64 :: int64 where "min_int64 = - (2 ^ 63)"

definition in_int64 :: "int \<Rightarrow> bool" where
  "in_int64 x \<longleftrightarrow> min_int64 \<le> x \<and> x \<le> max_int64"

text \<open>The result of an overflowing \<^verbatim>\<open>+\<close>, \<^verbatim>\<open>-\<close> or \<^verbatim>\<open>*\<close> on \<^verbatim>\<open>int64\<close>: two's complement.\<close>

definition wrap64 :: "int \<Rightarrow> int64" where
  "wrap64 x = (x + 2 ^ 63) mod 2 ^ 64 - 2 ^ 63"

text \<open>\<^verbatim>\<open>/\<close> and \<^verbatim>\<open>%\<close> truncate towards zero.\<close>

definition quot64 :: "int64 \<Rightarrow> int64 \<Rightarrow> int64" where
  "quot64 a b = wrap64 (sgn a * sgn b * (\<bar>a\<bar> div \<bar>b\<bar>))"

definition rem64 :: "int64 \<Rightarrow> int64 \<Rightarrow> int64" where
  "rem64 a b = sgn a * (\<bar>a\<bar> mod \<bar>b\<bar>)"

section \<open>Durations and times\<close>

text \<open>
  A \<^verbatim>\<open>time.Duration\<close> is a count of nanoseconds. A \<^verbatim>\<open>time.Time\<close> is the number of nanoseconds
  since January 1 of year 1, UTC, the origin that \<^verbatim>\<open>Time.Truncate\<close> rounds to; its seconds are
  64 bits wide, so the nanosecond count is an unbounded integer here. One clock is modelled:
  the wall reading and the monotonic reading of a time advance together.
\<close>

type_synonym duration = int
type_synonym time = int

definition Nanosecond :: duration where "Nanosecond = 1"
definition Millisecond :: duration where "Millisecond = 1000000"
definition Second :: duration where "Second = 1000000000"

definition unix_epoch :: time where "unix_epoch = 62135596800 * 1000000000"

definition UnixNano :: "time \<Rightarrow> int64" where
  "UnixNano t = wrap64 (t - unix_epoch)"

definition time_Unix0 :: "int64 \<Rightarrow> time" where
  "time_Unix0 n = unix_epoch + n"

definition time_Add :: "time \<Rightarrow> duration \<Rightarrow> time" where
  "time_Add t d = t + d"

text \<open>\<^verbatim>\<open>Time.Sub\<close> saturates at the largest and smallest duration.\<close>

definition time_Sub :: "time \<Rightarrow> time \<Rightarrow> duration" where
  "time_Sub t u = max min_int64 (min max_int64 (t - u))"

definition time_Truncate :: "time \<Rightarrow> duration \<Rightarrow> time" where
  "time_Truncate t d = (if d \<le> 0 then t else t - t mod d)"

definition Milliseconds :: "duration \<Rightarrow> int64" where
  "Milliseconds d = quot64 d Millisecond"

section \<open>Strings\<close>

text \<open>A Go string is a sequence of bytes; \<^typ>\<open>string\<close> is one too.\<close>

definition sep :: char where "sep = CHR 0x1F"

definition is_ascii_upper :: "char \<Rightarrow> bool" where
  "is_ascii_upper c \<longleftrightarrow> 65 \<le> (of_char c :: nat) \<and> (of_char c :: nat) \<le> 90"

text \<open>
  \<^verbatim>\<open>strings.ToLower\<close> as far as a comparison with an ASCII word can tell: ASCII letters, and
  the two characters outside ASCII whose lower case is ASCII (U+0130, bytes C4 B0, to
  \<^verbatim>\<open>i\<close> and U+212A, bytes E2 84 AA, to \<^verbatim>\<open>k\<close>). Every other character outside ASCII keeps a
  byte above 7F, whatever its lower case is, and is left as it stands.
\<close>

definition lower_byte :: "char \<Rightarrow> char" where
  "lower_byte c = (if is_ascii_upper c then char_of ((of_char c :: nat) + 32) else c)"

function ToLower :: "string \<Rightarrow> string" where
  "ToLower s =
     (if s = [] then []
      else if take 2 s = [CHR 0xC4, CHR 0xB0] then CHR ''i'' # ToLower (drop 2 s)
      else if take 3 s = [CHR 0xE2, CHR 0x84, CHR 0xAA] then CHR ''k'' # ToLower (drop 3 s)
      else lower_byte (hd s) # ToLower (tl s))"
  by pat_completeness auto
termination
  by (relation "measure length") auto

declare ToLower.simps [simp del]

text \<open>The characters \<^verbatim>\<open>unicode.IsSpace\<close> holds of, in UTF-8.\<close>

definition space_encodings :: "string list" where
  "space_encodings =
     [[CHR 0x09], [CHR 0x0A], [CHR 0x0B], [CHR 0x0C], [CHR 0x0D], [CHR '' ''],
      [CHR 0xC2, CHR 0x85], [CHR 0xC2, CHR 0xA0], [CHR 0xE1, CHR 0x9A, CHR 0x80]]
     @ map (\<lambda>n. [CHR 0xE2, CHR 0x80, char_of n]) ([0x80..<0x8B] @ [0xA8, 0xA9, 0xAF])
     @ [[CHR 0xE2, CHR 0x81, CHR 0x9F], [CHR 0xE3, CHR 0x80, CHR 0x80]]"

definition strip_one :: "string list \<Rightarrow> string \<Rightarrow> string option" where
  "strip_one ws s =
     (case find (\<lambda>w. w \<noteq> [] \<and> take (length w) s = w) ws of
        None \<Rightarrow> None | Some w \<Rightarrow> Some (drop (length w) s))"

lemma strip_one_shorter:
  assumes "strip_one ws s = Some s'"
  shows "length s' < length s"
proof -
  from assms obtain w where w: "w \<noteq> []" "take (length w) s = w" "s' = drop (length w) s"
    by (auto simp: strip_one_def find_Some_iff split: option.splits)
  then have "length w \<le> length s" by (metis length_take min.cobounded1)
  moreover have "0 < length w" using w(1) by simp
  ultimately have "length s - length w < length s" by linarith
  with w(3) show ?thesis by simp
qed

function trim_left :: "string list \<Rightarrow> string \<Rightarrow> string" where
  "trim_left ws s = (case strip_one ws s of None \<Rightarrow> s | Some s' \<Rightarrow> trim_left ws s')"
  by pat_completeness auto
termination
  by (relation "measure (\<lambda>(ws, s). length s)") (auto simp: strip_one_shorter)

declare trim_left.simps [simp del]

definition TrimSpace :: "string \<Rightarrow> string" where
  "TrimSpace s = rev (trim_left (map rev space_encodings) (rev (trim_left space_encodings s)))"

text \<open>\<^verbatim>\<open>strings.ReplaceAll\<close> of one byte by another.\<close>

definition ReplaceAll_char :: "char \<Rightarrow> char \<Rightarrow> string \<Rightarrow> string" where
  "ReplaceAll_char a b s = map (\<lambda>c. if c = a then b else c) s"

text \<open>\<^verbatim>\<open>strconv.FormatInt(n, 10)\<close> and the verb \<^verbatim>\<open>%d\<close>.\<close>

fun digits :: "nat \<Rightarrow> string" where
  "digits n = (if n < 10 then [char_of (48 + n)] else digits (n div 10) @ [char_of (48 + n mod 10)])"

declare digits.simps [simp del]

definition FormatInt :: "int64 \<Rightarrow> string" where
  "FormatInt n = (if n < 0 then CHR ''-'' # digits (nat (- n)) else digits (nat n))"

section \<open>Errors\<close>

text \<open>
  \<^verbatim>\<open>core.ErrorCode\<close> is the string type of codes. An error value is \<^verbatim>\<open>errors.New\<close> of a message,
  an \<^verbatim>\<open>AppError\<close> with a code and an optional wrapped error, the marker \<^verbatim>\<open>errUsedFallback\<close>, or
  the error of a finished context.
\<close>

datatype ErrorCode =
    CodeInvalidInput | CodeInvalidCost | CodeRuleNotFound | CodeLimiterUnavailable
  | CodeLimiterError | CodeConflict | CodeNotFound | CodeUnauthorized | CodeForbidden

datatype go_error =
    ErrorString string
  | AppError ErrorCode string "go_error option"
  | ErrUsedFallback string
  | CtxErr string

fun ErrorCode_string :: "ErrorCode \<Rightarrow> string" where
  "ErrorCode_string CodeInvalidInput = ''INVALID_INPUT''"
| "ErrorCode_string CodeInvalidCost = ''INVALID_COST''"
| "ErrorCode_string CodeRuleNotFound = ''RULE_NOT_FOUND''"
| "ErrorCode_string CodeLimiterUnavailable = ''LIMITER_UNAVAILABLE''"
| "ErrorCode_string CodeLimiterError = ''LIMITER_ERROR''"
| "ErrorCode_string CodeConflict = ''CONFLICT''"
| "ErrorCode_string CodeNotFound = ''NOT_FOUND''"
| "ErrorCode_string CodeUnauthorized = ''UNAUTHORIZED''"
| "ErrorCode_string CodeForbidden = ''FORBIDDEN''"

text \<open>\<^verbatim>\<open>Error()\<close>: the message of an error.\<close>

fun Error_message :: "go_error \<Rightarrow> string" where
  "Error_message (ErrorString m) = m"
| "Error_message (AppError c m e) = m"
| "Error_message (ErrUsedFallback r) = (if r = '''' then ''fallback'' else r)"
| "Error_message (CtxErr m) = m"

fun Unwrap :: "go_error \<Rightarrow> go_error option" where
  "Unwrap (AppError c m e) = e"
| "Unwrap _ = None"

definition Wrap :: "ErrorCode \<Rightarrow> string \<Rightarrow> go_error option \<Rightarrow> go_error" where
  "Wrap code msg err = AppError code msg err"

text \<open>
  \<^verbatim>\<open>CodeOf\<close> walks the chain of wrapped errors to the first \<^verbatim>\<open>AppError\<close>; the empty code is
  \<^term>\<open>None\<close>. An \<^verbatim>\<open>AppError\<close> is its own first match.
\<close>

fun CodeOf :: "go_error option \<Rightarrow> ErrorCode option" where
  "CodeOf None = None"
| "CodeOf (Some (AppError c m e)) = Some c"
| "CodeOf (Some _) = None"

text \<open>\<^verbatim>\<open>errors.As(err, &fallback)\<close> for the marker \<^verbatim>\<open>errUsedFallback\<close>.\<close>

fun As_fallback :: "go_error \<Rightarrow> bool" where
  "As_fallback (ErrUsedFallback r) = True"
| "As_fallback (AppError c m (Some e)) = As_fallback e"
| "As_fallback _ = False"

definition ErrInvalidInput :: go_error where
  "ErrInvalidInput = AppError CodeInvalidInput ''invalid input'' None"
definition ErrConflict :: go_error where
  "ErrConflict = AppError CodeConflict ''conflict'' None"
definition ErrNotFound :: go_error where
  "ErrNotFound = AppError CodeNotFound ''not found'' None"

section \<open>Facts about integers and time\<close>

lemmas int64_bounds = in_int64_def max_int64_def min_int64_def

lemma wrap64_id [simp, go_arith]: "in_int64 x \<Longrightarrow> wrap64 x = x"
  by (simp add: wrap64_def int64_bounds)

lemma wrap64_in [simp, intro]: "in_int64 (wrap64 x)"
proof -
  have "0 \<le> (x + 2 ^ 63) mod 2 ^ 64" and "(x + 2 ^ 63) mod 2 ^ 64 < 2 ^ 64" by simp_all
  then show ?thesis by (auto simp: wrap64_def int64_bounds)
qed

text \<open>The arithmetic is that of 64-bit words read as signed numbers.\<close>

lemma wrap64_word: "wrap64 x = sint (word_of_int x :: 64 word)"
  by (simp add: wrap64_def int_word_sint)

lemma wrap64_add_wrap [go_arith]: "wrap64 (wrap64 a + b) = wrap64 (a + b)"
proof -
  have "wrap64 a + b + 2 ^ 63 = (a + 2 ^ 63) mod 2 ^ 64 + b" by (simp add: wrap64_def)
  then have "(wrap64 a + b + 2 ^ 63) mod 2 ^ 64 = (a + 2 ^ 63 + b) mod 2 ^ 64"
    by (simp only: mod_add_left_eq)
  moreover have "a + 2 ^ 63 + b = a + b + 2 ^ 63" by simp
  ultimately have "(wrap64 a + b + 2 ^ 63) mod 2 ^ 64 = (a + b + 2 ^ 63) mod 2 ^ 64" by (simp only:)
  then show ?thesis unfolding wrap64_def [of "wrap64 a + b"] wrap64_def [of "a + b"] by (simp only:)
qed

lemma wrap64_add_wrap2 [go_arith]: "wrap64 (a + wrap64 b) = wrap64 (a + b)"
  using wrap64_add_wrap [of b a] by (simp add: add.commute)

lemma wrap64_Suc_neq: "wrap64 (v + 1) \<noteq> v"
proof
  assume "wrap64 (v + 1) = v"
  then have *: "(v + 1 + 2 ^ 63) mod 2 ^ 64 = v + 2 ^ 63" by (simp add: wrap64_def)
  then have "(v + 1 + 2 ^ 63) mod 2 ^ 64 = (v + 2 ^ 63) mod 2 ^ 64" by (metis mod_mod_trivial)
  then have "(2 ^ 64 :: int) dvd (v + 1 + 2 ^ 63) - (v + 2 ^ 63)" by (simp only: mod_eq_dvd_iff)
  then show False by simp
qed

lemma wrap64_range: "min_int64 \<le> wrap64 x" "wrap64 x \<le> max_int64"
  using wrap64_in [of x] by (simp_all add: in_int64_def)

lemma in_int64_0 [simp]: "in_int64 0" and in_int64_1 [simp]: "in_int64 1"
  by (simp_all add: int64_bounds)

lemma in_int64_mono: "in_int64 a \<Longrightarrow> in_int64 c \<Longrightarrow> a \<le> b \<Longrightarrow> b \<le> c \<Longrightarrow> in_int64 b"
  by (simp add: in_int64_def)

lemma in_int64_nonneg: "in_int64 c \<Longrightarrow> 0 \<le> b \<Longrightarrow> b \<le> c \<Longrightarrow> in_int64 b"
  by (rule in_int64_mono [of 0 c b]) simp_all

lemma quot64_pos:
  assumes "in_int64 a" "0 < b"
  shows "quot64 a b = sgn a * (\<bar>a\<bar> div b)"
proof -
  have "0 \<le> \<bar>a\<bar> div b" "\<bar>a\<bar> div b \<le> \<bar>a\<bar>"
    using assms(2) zdiv_mono2 [of "\<bar>a\<bar>" 1 b] by (simp_all add: pos_imp_zdiv_nonneg_iff)
  then have "in_int64 (sgn a * (\<bar>a\<bar> div b))"
    using assms(1) by (cases "0 \<le> a") (auto simp: int64_bounds sgn_if abs_if split: if_splits)
  then show ?thesis using assms(2) by (simp add: quot64_def sgn_if)
qed

lemma quot64_nonneg: "in_int64 a \<Longrightarrow> 0 \<le> a \<Longrightarrow> 0 < b \<Longrightarrow> quot64 a b = a div b"
  by (cases "a = 0") (simp_all add: quot64_pos sgn_if)

lemma quot64_nonpos: "in_int64 a \<Longrightarrow> a \<le> 0 \<Longrightarrow> 0 < b \<Longrightarrow> quot64 a b \<le> 0"
  by (simp add: quot64_pos sgn_if pos_imp_zdiv_nonneg_iff)

lemma time_Sub_id: "in_int64 (t - u) \<Longrightarrow> time_Sub t u = t - u"
  by (simp add: time_Sub_def in_int64_def)

lemma time_Truncate_le: "time_Truncate t d \<le> t"
  by (simp add: time_Truncate_def)

lemma time_Truncate_window:
  "0 < d \<Longrightarrow> time_Truncate t d \<le> t \<and> t < time_Truncate t d + d"
  using pos_mod_bound [of d t] by (auto simp: time_Truncate_def)

lemma time_Truncate_eq_iff:
  assumes "0 < d"
  shows "time_Truncate t d = time_Truncate u d \<longleftrightarrow> t div d = u div d"
proof -
  have *: "time_Truncate x d = d * (x div d)" for x
    using assms by (simp add: time_Truncate_def minus_mod_eq_mult_div)
  show ?thesis using assms by (simp add: *)
qed

lemma time_Truncate_mono: "0 < d \<Longrightarrow> t \<le> u \<Longrightarrow> time_Truncate t d \<le> time_Truncate u d"
  by (simp add: time_Truncate_def minus_mod_eq_mult_div zdiv_mono1)

section \<open>Facts about strings\<close>

lemma digits_nonempty: "digits n \<noteq> []"
  by (subst digits.simps) simp

lemma digits_set: "c \<in> set (digits n) \<Longrightarrow> 48 \<le> (of_char c :: nat) \<and> (of_char c :: nat) \<le> 57"
proof (induction n rule: digits.induct)
  case (1 n)
  show ?case
  proof (cases "n < 10")
    case True
    with "1.prems" show ?thesis by (auto simp: digits.simps [of n])
  next
    case False
    with "1.prems" consider "c \<in> set (digits (n div 10))" | "c = char_of (48 + n mod 10)"
      by (auto simp: digits.simps [of n])
    then show ?thesis
    proof cases
      case 1
      with "1.IH" False show ?thesis by simp
    next
      case 2
      have "n mod 10 < 10" by simp
      with 2 show ?thesis by simp
    qed
  qed
qed

text \<open>The decimal notation can be read back.\<close>

definition undigits :: "string \<Rightarrow> nat" where
  "undigits s = foldl (\<lambda>n c. 10 * n + ((of_char c :: nat) - 48)) 0 s"

lemma undigits_digits: "undigits (digits n) = n"
proof (induction n rule: digits.induct)
  case (1 n)
  show ?case
  proof (cases "n < 10")
    case True
    then show ?thesis by (simp add: digits.simps [of n] undigits_def)
  next
    case False
    with "1.IH" show ?thesis by (simp add: digits.simps [of n] undigits_def)
  qed
qed

lemma digits_inj: "digits m = digits n \<longleftrightarrow> m = n"
  by (metis undigits_digits)

lemma digits_no_minus: "CHR ''-'' \<notin> set (digits n)"
  using digits_set [of "CHR ''-''" n] by auto

lemma FormatInt_inj: "FormatInt m = FormatInt n \<longleftrightarrow> m = n"
proof -
  have "hd (digits k) \<noteq> CHR ''-''" for k
    using digits_no_minus [of k] digits_nonempty [of k] hd_in_set by metis
  then have "digits k \<noteq> CHR ''-'' # s" for k s by (metis list.sel(1))
  then show ?thesis by (auto simp: FormatInt_def digits_inj) metis+
qed

lemma FormatInt_no_sep: "sep \<notin> set (FormatInt n)"
  using digits_set [of sep "nat n"] digits_set [of sep "nat (- n)"]
  by (auto simp: FormatInt_def sep_def)

text \<open>A separated pair determines its parts when the separator is not in the first, or not in the last.\<close>

lemma sep_left_unique:
  "c \<notin> set a \<Longrightarrow> c \<notin> set b \<Longrightarrow> a @ c # s = b @ c # t \<longleftrightarrow> a = b \<and> s = t"
proof (induction a arbitrary: b)
  case Nil
  then show ?case by (cases b) auto
next
  case (Cons x a)
  then show ?case by (cases b) auto
qed

lemma sep_right_unique:
  assumes "c \<notin> set s" "c \<notin> set t"
  shows "a @ c # s = b @ c # t \<longleftrightarrow> a = b \<and> s = t"
proof -
  have "a @ c # s = b @ c # t \<longleftrightarrow> rev s @ c # rev a = rev t @ c # rev b"
    by (metis append.assoc append_Cons append_Nil rev.simps(2) rev_append rev_rev_ident)
  also have "\<dots> \<longleftrightarrow> rev s = rev t \<and> rev a = rev b"
    using assms by (intro sep_left_unique) auto
  finally show ?thesis by auto
qed

end
