(* ===== verification/Core_Models.thy ===== *)
theory Core_Models
  imports Go_Base
begin

text \<open>
  The data model of package \<^verbatim>\<open>core\<close> (\<^verbatim>\<open>models.go\<close>, \<^verbatim>\<open>serialization.go\<close>), the keys built from it
  (\<^verbatim>\<open>util.go\<close>, \<^verbatim>\<open>keybuilder.go\<close>), and the pools of buffers and responses (\<^verbatim>\<open>bytepool.go\<close>,
  \<^verbatim>\<open>responsepool.go\<close>).
\<close>

section \<open>Requests, responses, rules, decisions\<close>

record CheckLimitRequest =
  cr_TraceID :: string
  cr_TenantID :: string
  cr_UserID :: string
  cr_Resource :: string
  cr_Cost :: int64

record CheckLimitResponse =
  rs_Allowed :: bool
  rs_Remaining :: int64
  rs_Limit :: int64
  rs_ResetAfter :: duration
  rs_RetryAfter :: duration
  rs_ErrorCode :: string

record Rule =
  ru_TenantID :: string
  ru_Resource :: string
  ru_Algorithm :: string
  ru_Limit :: int64
  ru_Window :: duration
  ru_BurstSize :: int64
  ru_Version :: int64
  ru_UpdatedAt :: time

record CreateRuleRequest =
  cq_TenantID :: string
  cq_Resource :: string
  cq_Algorithm :: string
  cq_Limit :: int64
  cq_Window :: duration
  cq_BurstSize :: int64
  cq_IdempotencyKey :: string

record UpdateRuleRequest =
  uq_TenantID :: string
  uq_Resource :: string
  uq_Algorithm :: string
  uq_Limit :: int64
  uq_Window :: duration
  uq_BurstSize :: int64
  uq_ExpectedVersion :: int64

record Decision =
  de_Allowed :: bool
  de_Remaining :: int64
  de_Limit :: int64
  de_ResetAfter :: duration
  de_RetryAfter :: duration

record RuleParams =
  rp_Limit :: int64
  rp_Window :: duration
  rp_Burst :: int64
  rp_Version :: int64

record InvalidationEvent =
  ie_TenantID :: string
  ie_Resource :: string
  ie_Action :: string
  ie_Version :: int64
  ie_Timestamp :: time

text \<open>A composite literal that sets only \<^verbatim>\<open>Allowed\<close> and \<^verbatim>\<open>Limit\<close> leaves the rest zero.\<close>

definition deny_decision :: "int64 \<Rightarrow> Decision" where
  "deny_decision lim = \<lparr>de_Allowed = False, de_Remaining = 0, de_Limit = lim, de_ResetAfter = 0, de_RetryAfter = 0\<rparr>"

section \<open>Keys\<close>

definition limiterPoolKey :: "string \<Rightarrow> string \<Rightarrow> string" where
  "limiterPoolKey tenantID resource = tenantID @ [sep] @ resource"

text \<open>
  A byte slice is its contents and its capacity. \<^verbatim>\<open>append\<close> keeps the capacity while the
  contents fit and otherwise takes what the runtime's growth policy \<open>grow\<close> gives.
\<close>

record ByteSlice =
  bs_data :: string
  bs_cap :: int

definition append_bytes :: "(int \<Rightarrow> int \<Rightarrow> int) \<Rightarrow> ByteSlice \<Rightarrow> string \<Rightarrow> ByteSlice" where
  "append_bytes grow b s =
     (let d = bs_data b @ s in
      \<lparr>bs_data = d,
       bs_cap = (if int (length d) \<le> bs_cap b then bs_cap b else grow (bs_cap b) (int (length d)))\<rparr>)"

record ByteBufferPool =
  bp_pool :: "ByteSlice list"
  bp_maxCap :: int

definition NewByteBufferPool :: "int \<Rightarrow> ByteBufferPool" where
  "NewByteBufferPool maxCap = \<lparr>bp_pool = [], bp_maxCap = (if maxCap \<le> 0 then 4096 else maxCap)\<rparr>"

text \<open>
  \<^verbatim>\<open>sync.Pool.Get\<close> returns some pooled value or none; which one is the scheduler's choice
  \<open>pick\<close>. The value leaves the pool.
\<close>

definition take_nth :: "nat option \<Rightarrow> 'a list \<Rightarrow> 'a option \<times> 'a list" where
  "take_nth pick xs =
     (case pick of None \<Rightarrow> (None, xs)
      | Some i \<Rightarrow> if i < length xs then (Some (xs ! i), take i xs @ drop (Suc i) xs) else (None, xs))"

fun ByteBufferPool_Get :: "ByteBufferPool option \<Rightarrow> nat option \<Rightarrow> ByteSlice \<times> ByteBufferPool option" where
  "ByteBufferPool_Get None pick = (\<lparr>bs_data = '''', bs_cap = 0\<rparr>, None)"
| "ByteBufferPool_Get (Some p) pick =
     (case take_nth pick (bp_pool p) of
        (Some buf, rest) \<Rightarrow>
          ((if bs_cap buf > bp_maxCap p then \<lparr>bs_data = '''', bs_cap = bp_maxCap p\<rparr>
            else buf\<lparr>bs_data := ''''\<rparr>), Some (p\<lparr>bp_pool := rest\<rparr>))
      | (None, rest) \<Rightarrow> (\<lparr>bs_data = '''', bs_cap = bp_maxCap p\<rparr>, Some (p\<lparr>bp_pool := rest\<rparr>)))"

fun ByteBufferPool_Put :: "ByteBufferPool option \<Rightarrow> ByteSlice option \<Rightarrow> ByteBufferPool option" where
  "ByteBufferPool_Put (Some p) (Some b) =
     (if bs_cap b > bp_maxCap p then Some p
      else Some (p\<lparr>bp_pool := b\<lparr>bs_data := ''''\<rparr> # bp_pool p\<rparr>))"
| "ByteBufferPool_Put p b = p"

record KeyBuilder = kb_bufPool :: "ByteBufferPool option"

definition NewKeyBuilder :: "ByteBufferPool option \<Rightarrow> KeyBuilder" where
  "NewKeyBuilder bufPool = \<lparr>kb_bufPool = bufPool\<rparr>"

definition plain_key :: "string \<Rightarrow> string \<Rightarrow> string \<Rightarrow> string" where
  "plain_key tenantID userID resource = tenantID @ [sep] @ userID @ [sep] @ resource"

definition BuildKey ::
    "KeyBuilder option \<Rightarrow> (int \<Rightarrow> int \<Rightarrow> int) \<Rightarrow> nat option \<Rightarrow> string \<Rightarrow> string \<Rightarrow> string
      \<Rightarrow> ByteSlice \<times> KeyBuilder option" where
  "BuildKey kb grow pick tenantID userID resource =
     (case kb of
        Some k \<Rightarrow>
          (case kb_bufPool k of
             Some p \<Rightarrow>
               (let (buf, p') = ByteBufferPool_Get (Some p) pick;
                    buf = append_bytes grow buf tenantID;
                    buf = append_bytes grow buf [sep];
                    buf = append_bytes grow buf userID;
                    buf = append_bytes grow buf [sep];
                    buf = append_bytes grow buf resource
                in (buf, Some (k\<lparr>kb_bufPool := p'\<rparr>)))
           | None \<Rightarrow>
               (\<lparr>bs_data = plain_key tenantID userID resource,
                 bs_cap = int (length (plain_key tenantID userID resource))\<rparr>, kb))
      | None \<Rightarrow>
          (\<lparr>bs_data = plain_key tenantID userID resource,
            bs_cap = int (length (plain_key tenantID userID resource))\<rparr>, kb))"

definition ReleaseKey :: "KeyBuilder option \<Rightarrow> ByteSlice \<Rightarrow> KeyBuilder option" where
  "ReleaseKey kb b =
     (case kb of None \<Rightarrow> None
      | Some k \<Rightarrow>
          (case kb_bufPool k of None \<Rightarrow> Some k
           | Some p \<Rightarrow> Some (k\<lparr>kb_bufPool := ByteBufferPool_Put (Some p) (Some b)\<rparr>)))"

definition KeyToString :: "ByteSlice \<Rightarrow> string" where
  "KeyToString b = bs_data b"

section \<open>The response pool\<close>

definition zero_response :: CheckLimitResponse where
  "zero_response = \<lparr>rs_Allowed = False, rs_Remaining = 0, rs_Limit = 0, rs_ResetAfter = 0,
     rs_RetryAfter = 0, rs_ErrorCode = ''''\<rparr>"

definition resetCheckLimitResponse :: "CheckLimitResponse \<Rightarrow> CheckLimitResponse" where
  "resetCheckLimitResponse resp = resp\<lparr>rs_Allowed := False, rs_Remaining := 0, rs_Limit := 0,
     rs_ResetAfter := 0, rs_RetryAfter := 0, rs_ErrorCode := ''''\<rparr>"

record ResponsePool = po_pool :: "CheckLimitResponse list"

definition NewResponsePool :: ResponsePool where
  "NewResponsePool = \<lparr>po_pool = []\<rparr>"

text \<open>The pool's \<^verbatim>\<open>New\<close> function supplies a fresh response when nothing is pooled.\<close>

fun ResponsePool_Get :: "ResponsePool option \<Rightarrow> nat option \<Rightarrow> CheckLimitResponse \<times> ResponsePool option" where
  "ResponsePool_Get None pick = (zero_response, None)"
| "ResponsePool_Get (Some rp) pick =
     (case take_nth pick (po_pool rp) of
        (Some resp, rest) \<Rightarrow> (resetCheckLimitResponse resp, Some (rp\<lparr>po_pool := rest\<rparr>))
      | (None, rest) \<Rightarrow> (resetCheckLimitResponse zero_response, Some (rp\<lparr>po_pool := rest\<rparr>)))"

fun ResponsePool_Put :: "ResponsePool option \<Rightarrow> CheckLimitResponse option \<Rightarrow> ResponsePool option" where
  "ResponsePool_Put (Some rp) (Some resp) =
     Some (rp\<lparr>po_pool := resetCheckLimitResponse resp # po_pool rp\<rparr>)"
| "ResponsePool_Put rp resp = rp"

section \<open>Facts\<close>

lemma resetCheckLimitResponse_zero [simp]: "resetCheckLimitResponse r = zero_response"
  by (simp add: resetCheckLimitResponse_def zero_response_def)

lemma ResponsePool_Get_zero [simp]: "fst (ResponsePool_Get rp pick) = zero_response"
  by (cases rp) (auto split: prod.splits option.splits)

lemma append_bytes_data [simp]: "bs_data (append_bytes grow b s) = bs_data b @ s"
  by (simp add: append_bytes_def Let_def)

lemma ByteBufferPool_Get_empty [simp]: "bs_data (fst (ByteBufferPool_Get p pick)) = ''''"
  by (cases p) (auto split: prod.splits option.splits)

text \<open>Whatever the pool held, the key is the three parts with separators.\<close>

lemma BuildKey_data [simp]: "bs_data (fst (BuildKey kb grow pick t u r)) = plain_key t u r"
proof (cases "kb = None \<or> kb_bufPool (the kb) = None")
  case True
  then show ?thesis by (auto simp: BuildKey_def split: option.split)
next
  case False
  then obtain k p where "kb = Some k" "kb_bufPool k = Some p" by auto
  then show ?thesis
    using ByteBufferPool_Get_empty [of "Some p" pick]
    by (simp add: BuildKey_def plain_key_def Let_def case_prod_beta del: ByteBufferPool_Get.simps)
qed

lemma limiterPoolKey_inj:
  assumes "sep \<notin> set t" "sep \<notin> set t'"
  shows "limiterPoolKey t r = limiterPoolKey t' r' \<longleftrightarrow> t = t' \<and> r = r'"
  using sep_left_unique [OF assms, of r r'] by (simp add: limiterPoolKey_def)

lemma plain_key_inj:
  assumes "sep \<notin> set t" "sep \<notin> set t'" "sep \<notin> set u" "sep \<notin> set u'"
  shows "plain_key t u r = plain_key t' u' r' \<longleftrightarrow> t = t' \<and> u = u' \<and> r = r'"
  using sep_left_unique [OF assms(1,2)] sep_left_unique [OF assms(3,4), of r r']
  by (simp add: plain_key_def)

lemma plain_key_inj':
  assumes "sep \<notin> set u" "sep \<notin> set u'" "sep \<notin> set r" "sep \<notin> set r'"
  shows "plain_key t u r = plain_key t' u' r' \<longleftrightarrow> t = t' \<and> u = u' \<and> r = r'"
proof -
  have "plain_key t u r = (t @ sep # u) @ sep # r" for t u r by (simp add: plain_key_def)
  then show ?thesis
    using sep_right_unique [OF assms(3,4), of "t @ sep # u" "t' @ sep # u'"]
      sep_right_unique [OF assms(1,2), of t t'] by auto
qed

end
