(* ===== verification/Rule_Cache.thy ===== *)
theory Rule_Cache
  imports Core_Models "HOL-Library.Multiset"
begin

text \<open>
  \<^verbatim>\<open>core/rulecache.go\<close>: rules in a two-level snapshot (tenant, then resource) that writers
  replace as a whole under a mutex and readers load atomically. A write is therefore a
  function from the old snapshot to the new one. Every pointer stored in the maps is the
  address of a fresh value, so the values of the maps are the structs themselves; the
  pointers that can be nil (a rule passed in, a snapshot never stored) are options.
\<close>

section \<open>State\<close>

record TenantRulesSnapshot = byResource :: "(string, Rule) gomap"

record GlobalRulesSnapshot = byTenant :: "(string, TenantRulesSnapshot) gomap"

record RuleCache = rc_snap :: "GlobalRulesSnapshot option"

definition NewRuleCache :: RuleCache where
  "NewRuleCache = \<lparr>rc_snap = Some \<lparr>byTenant = []\<rparr>\<rparr>"

definition snapshot :: "RuleCache \<Rightarrow> GlobalRulesSnapshot" where
  "snapshot rc = (case rc_snap rc of Some s \<Rightarrow> s | None \<Rightarrow> \<lparr>byTenant = []\<rparr>)"

definition cloneRule :: "Rule option \<Rightarrow> Rule option" where
  "cloneRule rule = (case rule of None \<Rightarrow> None | Some r \<Rightarrow> Some r)"

text \<open>The copies iterate over the old map and insert into a new one.\<close>

definition copyTenantMap :: "(string, TenantRulesSnapshot) gomap \<Rightarrow> (string, TenantRulesSnapshot) gomap" where
  "copyTenantMap old = fold (\<lambda>kv. gm_put (fst kv) (snd kv)) old []"

definition copyResourceMap :: "(string, Rule) gomap \<Rightarrow> (string, Rule) gomap" where
  "copyResourceMap old = fold (\<lambda>kv. gm_put (fst kv) (snd kv)) old []"

section \<open>Operations\<close>

definition RuleCache_Get :: "RuleCache \<Rightarrow> string \<Rightarrow> string \<Rightarrow> Rule option" where
  "RuleCache_Get rc tenantID resource =
     (case gm_get (byTenant (snapshot rc)) tenantID of
        None \<Rightarrow> None
      | Some tenantRules \<Rightarrow> gm_get (byResource tenantRules) resource)"

definition RuleCache_List :: "RuleCache \<Rightarrow> string \<Rightarrow> Rule list option" where
  "RuleCache_List rc tenantID =
     (case gm_get (byTenant (snapshot rc)) tenantID of
        None \<Rightarrow> None
      | Some tenantRules \<Rightarrow>
          if gm_len (byResource tenantRules) = 0 then Some []
          else Some (gm_vals (byResource tenantRules)))"

text \<open>\<^verbatim>\<open>ReplaceAll\<close> counts the rules of each tenant, makes an empty snapshot per tenant, then
  files every rule; nil rules are skipped.\<close>

definition count_tenants :: "Rule option list \<Rightarrow> (string, int) gomap" where
  "count_tenants rules =
     fold (\<lambda>rule m. case rule of None \<Rightarrow> m
            | Some r \<Rightarrow> gm_put (ru_TenantID r)
                (1 + (case gm_get m (ru_TenantID r) of None \<Rightarrow> 0 | Some n \<Rightarrow> n)) m) rules []"

definition file_rule :: "Rule option \<Rightarrow> (string, TenantRulesSnapshot) gomap \<Rightarrow> (string, TenantRulesSnapshot) gomap" where
  "file_rule rule m =
     (case cloneRule rule of None \<Rightarrow> m
      | Some clone \<Rightarrow>
          (case gm_get m (ru_TenantID clone) of None \<Rightarrow> m
           | Some tenantRules \<Rightarrow>
               gm_put (ru_TenantID clone)
                 (tenantRules\<lparr>byResource := gm_put (ru_Resource clone) clone (byResource tenantRules)\<rparr>) m))"

definition RuleCache_ReplaceAll :: "RuleCache \<Rightarrow> Rule option list \<Rightarrow> RuleCache" where
  "RuleCache_ReplaceAll rc rules =
     (let tenantCounts = count_tenants rules;
          byTenant0 = map (\<lambda>(tenantID, cnt). (tenantID, \<lparr>byResource = []\<rparr>)) tenantCounts;
          byTenant1 = fold file_rule rules byTenant0
      in rc\<lparr>rc_snap := Some \<lparr>byTenant = byTenant1\<rparr>\<rparr>)"

definition RuleCache_UpsertIfNewer :: "RuleCache \<Rightarrow> Rule option \<Rightarrow> RuleCache" where
  "RuleCache_UpsertIfNewer rc rule_ptr =
     (case rule_ptr of
        None \<Rightarrow> rc
      | Some rule \<Rightarrow>
          let sn = snapshot rc;
              existing = (case gm_get (byTenant sn) (ru_TenantID rule) of
                            None \<Rightarrow> None
                          | Some tenantRules \<Rightarrow> gm_get (byResource tenantRules) (ru_Resource rule))
          in if (case existing of None \<Rightarrow> False | Some e \<Rightarrow> ru_Version rule \<le> ru_Version e) then rc
             else
               let byTenant1 = copyTenantMap (byTenant sn);
                   byResource1 = (case gm_get (byTenant sn) (ru_TenantID rule) of
                                    None \<Rightarrow> []
                                  | Some oldTenant \<Rightarrow> copyResourceMap (byResource oldTenant));
                   byResource2 = gm_put (ru_Resource rule) rule byResource1;
                   byTenant2 = gm_put (ru_TenantID rule) \<lparr>byResource = byResource2\<rparr> byTenant1
               in rc\<lparr>rc_snap := Some \<lparr>byTenant = byTenant2\<rparr>\<rparr>)"

definition RuleCache_DeleteIfOlderOrEqual :: "RuleCache \<Rightarrow> string \<Rightarrow> string \<Rightarrow> int64 \<Rightarrow> RuleCache" where
  "RuleCache_DeleteIfOlderOrEqual rc tenantID resource version =
     (let sn = snapshot rc in
      case gm_get (byTenant sn) tenantID of
        None \<Rightarrow> rc
      | Some oldTenant \<Rightarrow>
          (case gm_get (byResource oldTenant) resource of
             None \<Rightarrow> rc
           | Some existing \<Rightarrow>
               if ru_Version existing > version then rc
               else
                 let byTenant1 = copyTenantMap (byTenant sn);
                     byResource1 = gm_del resource (copyResourceMap (byResource oldTenant));
                     byTenant2 = (if gm_len byResource1 = 0 then gm_del tenantID byTenant1
                                  else gm_put tenantID \<lparr>byResource = byResource1\<rparr> byTenant1)
                 in rc\<lparr>rc_snap := Some \<lparr>byTenant = byTenant2\<rparr>\<rparr>))"

section \<open>Abstract specification\<close>

text \<open>A cache stands for a map from tenant and resource to a rule.\<close>

type_synonym rule_map = "string \<times> string \<rightharpoonup> Rule"

definition rule_key :: "Rule \<Rightarrow> string \<times> string" where
  "rule_key r = (ru_TenantID r, ru_Resource r)"

definition rc_abs :: "RuleCache \<Rightarrow> rule_map" where
  "rc_abs rc = (\<lambda>(t, r). RuleCache_Get rc t r)"

definition newer_than :: "rule_map \<Rightarrow> Rule \<Rightarrow> bool" where
  "newer_than m rule \<longleftrightarrow> (case m (rule_key rule) of None \<Rightarrow> True | Some e \<Rightarrow> ru_Version e < ru_Version rule)"

definition spec_upsert :: "Rule \<Rightarrow> rule_map \<Rightarrow> rule_map" where
  "spec_upsert rule m = (if newer_than m rule then m(rule_key rule \<mapsto> rule) else m)"

definition spec_delete :: "string \<times> string \<Rightarrow> int64 \<Rightarrow> rule_map \<Rightarrow> rule_map" where
  "spec_delete k version m =
     (case m k of None \<Rightarrow> m | Some e \<Rightarrow> if ru_Version e \<le> version then m(k := None) else m)"

definition spec_replace :: "Rule option list \<Rightarrow> rule_map" where
  "spec_replace rules = fold (\<lambda>rule m. case rule of None \<Rightarrow> m | Some r \<Rightarrow> m(rule_key r \<mapsto> r)) rules Map.empty"

text \<open>Well-formed caches: proper maps, no empty tenant, each rule under its own key.\<close>

definition snap_inv :: "(string, TenantRulesSnapshot) gomap \<Rightarrow> bool" where
  "snap_inv m \<longleftrightarrow> gm_wf m \<and>
     (\<forall>t s. map_of m t = Some s \<longrightarrow>
        gm_wf (byResource s) \<and> byResource s \<noteq> [] \<and>
        (\<forall>r rule. map_of (byResource s) r = Some rule \<longrightarrow> rule_key rule = (t, r)))"

definition rc_inv :: "RuleCache \<Rightarrow> bool" where
  "rc_inv rc \<longleftrightarrow> snap_inv (byTenant (snapshot rc))"

section \<open>Copying\<close>

lemma copy_map_of: "gm_wf m \<Longrightarrow> map_of (fold (\<lambda>kv. gm_put (fst kv) (snd kv)) m []) k = map_of m k"
proof (induction m rule: rev_induct)
  case Nil
  then show ?case by simp
next
  case (snoc x m)
  from snoc.prems have "gm_wf m" and "fst x \<notin> fst ` set m" by (auto simp: gm_wf_def)
  then have "map_of m (fst x) = None" by (simp add: map_of_eq_None_iff)
  with snoc.IH \<open>gm_wf m\<close> show ?case
    by (cases x) (auto simp: map_add_def split: option.split)
qed

lemma copyTenantMap_get [simp]: "gm_wf m \<Longrightarrow> map_of (copyTenantMap m) k = map_of m k"
  by (simp add: copyTenantMap_def copy_map_of)

lemma copyResourceMap_get [simp]: "gm_wf m \<Longrightarrow> map_of (copyResourceMap m) k = map_of m k"
  by (simp add: copyResourceMap_def copy_map_of)

lemma copyTenantMap_wf [simp, inv_rules]: "gm_wf (copyTenantMap m)"
  by (simp add: copyTenantMap_def gm.wf_put_all)

lemma copyResourceMap_wf [simp, inv_rules]: "gm_wf (copyResourceMap m)"
  by (simp add: copyResourceMap_def gm.wf_put_all)

lemma snapshot_set [simp]: "snapshot (rc\<lparr>rc_snap := Some s\<rparr>) = s"
  by (simp add: snapshot_def)

lemma update_nonempty [simp]: "AList.update k v m \<noteq> []"
  by (cases m) auto

section \<open>Insertion and deletion refine the specification\<close>

lemma rc_inv_New: "rc_inv NewRuleCache"
  by (simp add: rc_inv_def NewRuleCache_def snapshot_def snap_inv_def)

lemma rc_abs_New: "rc_abs NewRuleCache = Map.empty"
  by (auto simp: rc_abs_def RuleCache_Get_def NewRuleCache_def snapshot_def)

lemma upsert_refines:
  assumes "rc_inv rc"
  shows "rc_inv (RuleCache_UpsertIfNewer rc (Some rule))"
    and "rc_abs (RuleCache_UpsertIfNewer rc (Some rule)) = spec_upsert rule (rc_abs rc)"
proof -
  let ?m = "byTenant (snapshot rc)"
  have wf: "gm_wf ?m" and
    sub: "\<And>t s. map_of ?m t = Some s \<Longrightarrow> gm_wf (byResource s)" "\<And>t s. map_of ?m t = Some s \<Longrightarrow> byResource s \<noteq> []"
    and own: "\<And>t s r x. map_of ?m t = Some s \<Longrightarrow> map_of (byResource s) r = Some x \<Longrightarrow> rule_key x = (t, r)"
    using assms by (auto simp: rc_inv_def snap_inv_def)
  show "rc_inv (RuleCache_UpsertIfNewer rc (Some rule))"
    using assms wf sub own
    by (auto simp: rc_inv_def snap_inv_def RuleCache_UpsertIfNewer_def Let_def rule_key_def
        split: option.splits if_splits)
  show "rc_abs (RuleCache_UpsertIfNewer rc (Some rule)) = spec_upsert rule (rc_abs rc)"
    using wf sub
    by (intro ext) (auto simp: rc_abs_def RuleCache_Get_def RuleCache_UpsertIfNewer_def spec_upsert_def
        newer_than_def rule_key_def Let_def split: option.splits if_splits)
qed

lemma len_zero_iff: "gm_wf m \<Longrightarrow> m = [] \<longleftrightarrow> (\<forall>k. map_of m k = None)"
  using gm.len_zero [of m] by simp

lemma last_resource:
  assumes "gm_wf m" "gm_del r (copyResourceMap m) = []" "b \<noteq> r"
  shows "map_of m b = None"
proof -
  have "map_of (gm_del r (copyResourceMap m)) b = None" by (simp add: assms(2))
  with assms(1,3) show ?thesis by simp
qed

lemma snap_inv_put:
  assumes "snap_inv m" "gm_wf b" "b \<noteq> []" "\<And>r x. map_of b r = Some x \<Longrightarrow> rule_key x = (t, r)"
  shows "snap_inv (gm_put t \<lparr>byResource = b\<rparr> (copyTenantMap m))"
  using assms by (simp add: snap_inv_def)

lemma snap_inv_del: "snap_inv m \<Longrightarrow> snap_inv (gm_del t (copyTenantMap m))"
  by (simp add: snap_inv_def)

lemma delete_refines:
  assumes "rc_inv rc"
  shows "rc_inv (RuleCache_DeleteIfOlderOrEqual rc t r v)"
    and "rc_abs (RuleCache_DeleteIfOlderOrEqual rc t r v) = spec_delete (t, r) v (rc_abs rc)"
proof -
  let ?m = "byTenant (snapshot rc)"
  have wf: "gm_wf ?m" and
    sub: "\<And>t s. map_of ?m t = Some s \<Longrightarrow> gm_wf (byResource s)" "\<And>t s. map_of ?m t = Some s \<Longrightarrow> byResource s \<noteq> []"
    and own: "\<And>t s r x. map_of ?m t = Some s \<Longrightarrow> map_of (byResource s) r = Some x \<Longrightarrow> rule_key x = (t, r)"
    using assms by (auto simp: rc_inv_def snap_inv_def)
  show "rc_inv (RuleCache_DeleteIfOlderOrEqual rc t r v)"
  proof (cases "map_of ?m t")
    case None
    with assms show ?thesis by (simp add: RuleCache_DeleteIfOlderOrEqual_def)
  next
    case (Some s)
    have "snap_inv (gm_put t \<lparr>byResource = gm_del r (copyResourceMap (byResource s))\<rparr> (copyTenantMap ?m))"
      if "gm_del r (copyResourceMap (byResource s)) \<noteq> []"
      using that assms sub(1) [OF Some] own [OF Some]
      by (intro snap_inv_put) (auto simp: rc_inv_def split: if_splits)
    with Some assms snap_inv_del [of ?m t] show ?thesis
      by (simp add: rc_inv_def RuleCache_DeleteIfOlderOrEqual_def Let_def split: option.split)
  qed
  show "rc_abs (RuleCache_DeleteIfOlderOrEqual rc t r v) = spec_delete (t, r) v (rc_abs rc)"
  proof (cases "map_of ?m t")
    case None
    then show ?thesis
      by (simp add: rc_abs_def RuleCache_Get_def RuleCache_DeleteIfOlderOrEqual_def spec_delete_def)
  next
    case (Some s)
    note lr = last_resource [OF sub(1) [OF Some]]
    show ?thesis
    proof (cases "gm_del r (copyResourceMap (byResource s)) = []")
      case True
      with Some lr [OF True] wf sub(1) [OF Some] show ?thesis
        by (intro ext) (simp add: rc_abs_def RuleCache_Get_def RuleCache_DeleteIfOlderOrEqual_def
            spec_delete_def Let_def case_prod_beta prod_eq_iff split: option.split)
    next
      case False
      with Some wf sub(1) [OF Some] show ?thesis
        by (intro ext) (simp add: rc_abs_def RuleCache_Get_def RuleCache_DeleteIfOlderOrEqual_def
            spec_delete_def Let_def case_prod_beta prod_eq_iff split: option.split)
    qed
  qed
qed

section \<open>Replacement\<close>

lemma count_tenants_append:
  "count_tenants (rules @ [x]) =
     (case x of None \<Rightarrow> count_tenants rules
      | Some r \<Rightarrow> gm_put (ru_TenantID r)
          (1 + (case gm_get (count_tenants rules) (ru_TenantID r) of None \<Rightarrow> 0 | Some n \<Rightarrow> n))
          (count_tenants rules))"
  by (cases x) (simp_all add: count_tenants_def)

lemma count_tenants_wf [simp]: "gm_wf (count_tenants rules)"
  by (induction rules rule: rev_induct)
    (auto simp: count_tenants_append count_tenants_def [of "[]"] split: option.split)

lemma count_tenants_dom:
  "map_of (count_tenants rules) t \<noteq> None \<longleftrightarrow> (\<exists>r. Some r \<in> set rules \<and> ru_TenantID r = t)"
  by (induction rules rule: rev_induct)
    (auto simp: count_tenants_append count_tenants_def [of "[]"] split: option.splits if_splits)

text \<open>The count is the number of rules of the tenant.\<close>

lemma count_tenants_count:
  "(case map_of (count_tenants rules) t of None \<Rightarrow> 0 | Some n \<Rightarrow> n) =
     int (length (filter (\<lambda>x. case x of None \<Rightarrow> False | Some r \<Rightarrow> ru_TenantID r = t) rules))"
  by (induction rules rule: rev_induct)
    (auto simp: count_tenants_append count_tenants_def [of "[]"] split: option.splits)

text \<open>What a two-level map says of a tenant and a resource.\<close>

definition lookup2 :: "(string, TenantRulesSnapshot) gomap \<Rightarrow> rule_map" where
  "lookup2 m = (\<lambda>(t, r). case map_of m t of None \<Rightarrow> None | Some s \<Rightarrow> map_of (byResource s) r)"

lemma rc_abs_lookup2: "rc_abs rc = lookup2 (byTenant (snapshot rc))"
  by (simp add: rc_abs_def lookup2_def RuleCache_Get_def)

definition pre_inv :: "(string, TenantRulesSnapshot) gomap \<Rightarrow> bool" where
  "pre_inv m \<longleftrightarrow> gm_wf m \<and> (\<forall>t s. map_of m t = Some s \<longrightarrow>
     gm_wf (byResource s) \<and> (\<forall>r rule. map_of (byResource s) r = Some rule \<longrightarrow> rule_key rule = (t, r)))"

lemma file_rule_step:
  assumes "pre_inv m" "\<And>r. x = Some r \<Longrightarrow> map_of m (ru_TenantID r) \<noteq> None"
  shows "pre_inv (file_rule x m)" and "dom (map_of (file_rule x m)) = dom (map_of m)"
    and "lookup2 (file_rule x m) = (case x of None \<Rightarrow> lookup2 m | Some r \<Rightarrow> (lookup2 m)(rule_key r \<mapsto> r))"
proof -
  have "pre_inv (file_rule x m) \<and> dom (map_of (file_rule x m)) = dom (map_of m)
    \<and> lookup2 (file_rule x m) = (case x of None \<Rightarrow> lookup2 m | Some r \<Rightarrow> (lookup2 m)(rule_key r \<mapsto> r))"
  proof (cases x)
    case None
    with assms(1) show ?thesis by (simp add: file_rule_def cloneRule_def)
  next
    case (Some r)
    then obtain s where s: "map_of m (ru_TenantID r) = Some s" using assms(2) by auto
    have "lookup2 (file_rule x m) = (lookup2 m)(rule_key r \<mapsto> r)"
      using Some s by (intro ext) (simp add: file_rule_def cloneRule_def lookup2_def case_prod_beta
          rule_key_def prod_eq_iff)
    moreover have "pre_inv (file_rule x m)"
      using assms(1) Some s by (auto simp: file_rule_def cloneRule_def pre_inv_def rule_key_def split: if_splits)
    moreover have "dom (map_of (file_rule x m)) = dom (map_of m)"
      using Some s by (auto simp: file_rule_def cloneRule_def dom_def)
    ultimately show ?thesis using Some by simp
  qed
  then show "pre_inv (file_rule x m)" and "dom (map_of (file_rule x m)) = dom (map_of m)"
    and "lookup2 (file_rule x m) = (case x of None \<Rightarrow> lookup2 m | Some r \<Rightarrow> (lookup2 m)(rule_key r \<mapsto> r))"
    by auto
qed

lemma file_rules:
  assumes "pre_inv m" "\<And>r. Some r \<in> set rules \<Longrightarrow> map_of m (ru_TenantID r) \<noteq> None"
  shows "pre_inv (fold file_rule rules m) \<and> dom (map_of (fold file_rule rules m)) = dom (map_of m)
    \<and> lookup2 (fold file_rule rules m) =
        fold (\<lambda>rule m. case rule of None \<Rightarrow> m | Some r \<Rightarrow> m(rule_key r \<mapsto> r)) rules (lookup2 m)"
  using assms
proof (induction rules arbitrary: m)
  case Nil
  then show ?case by simp
next
  case (Cons x rules)
  have x: "\<And>r. x = Some r \<Longrightarrow> map_of m (ru_TenantID r) \<noteq> None" using Cons.prems(2) by simp
  note st = file_rule_step [OF Cons.prems(1) x]
  have "\<And>r. Some r \<in> set rules \<Longrightarrow> map_of (file_rule x m) (ru_TenantID r) \<noteq> None"
    using Cons.prems(2) st(2) by (metis domIff list.set_intros(2))
  from Cons.IH [OF st(1) this] st(2,3) show ?case by (cases x) (simp_all add: fun_upd_def)
qed

lemma spec_replace_dom: "Some r \<in> set rules \<Longrightarrow> spec_replace rules (rule_key r) \<noteq> None"
  by (induction rules rule: rev_induct) (auto simp: spec_replace_def split: option.split)

lemma empty_tenants:
  fixes rules
  defines "m0 \<equiv> map (\<lambda>(tenantID, cnt). (tenantID, \<lparr>byResource = []\<rparr>)) (count_tenants rules)"
  shows "pre_inv m0" and "lookup2 m0 = Map.empty" and "dom (map_of m0) = dom (map_of (count_tenants rules))"
proof -
  have m: "map_of m0 t = map_option (\<lambda>_. \<lparr>byResource = []\<rparr>) (map_of (count_tenants rules) t)" for t
    unfolding m0_def by (simp add: map_of_map)
  then show "lookup2 m0 = Map.empty" by (intro ext) (simp add: lookup2_def case_prod_beta split: option.split)
  have "gm_wf m0" using count_tenants_wf [of rules]
    by (simp add: gm_wf_def m0_def o_def case_prod_beta)
  with m show "pre_inv m0" by (auto simp: pre_inv_def)
  from m show "dom (map_of m0) = dom (map_of (count_tenants rules))" by (auto simp: dom_def)
qed

lemma replace_refines:
  shows "rc_inv (RuleCache_ReplaceAll rc rules)"
    and "rc_abs (RuleCache_ReplaceAll rc rules) = spec_replace rules"
proof -
  let ?e = "map (\<lambda>(tenantID, cnt). (tenantID, \<lparr>byResource = []\<rparr>)) (count_tenants rules)"
  let ?m = "fold file_rule rules ?e"
  have "map_of ?e (ru_TenantID r) \<noteq> None" if "Some r \<in> set rules" for r
    using that empty_tenants(3) [of rules] count_tenants_dom [of rules "ru_TenantID r"] by (auto simp: dom_def)
  from file_rules [OF empty_tenants(1) this]
  have f: "pre_inv ?m" "dom (map_of ?m) = dom (map_of (count_tenants rules))" "lookup2 ?m = spec_replace rules"
    by (simp_all add: spec_replace_def empty_tenants)
  have b: "byTenant (snapshot (RuleCache_ReplaceAll rc rules)) = ?m"
    by (simp add: RuleCache_ReplaceAll_def Let_def)
  show "rc_abs (RuleCache_ReplaceAll rc rules) = spec_replace rules"
    by (simp add: rc_abs_lookup2 b f)
  have "byResource s \<noteq> []" if s: "map_of ?m t = Some s" for t s
  proof -
    from s have "map_of (count_tenants rules) t \<noteq> None" using f(2) by (metis domIff option.distinct(1))
    then obtain r where "Some r \<in> set rules" "ru_TenantID r = t" using count_tenants_dom by blast
    then have "lookup2 ?m (t, ru_Resource r) \<noteq> None" using spec_replace_dom [of r rules]
      by (simp add: f(3) rule_key_def)
    with s show ?thesis by (auto simp: lookup2_def)
  qed
  with f(1) show "rc_inv (RuleCache_ReplaceAll rc rules)"
    by (simp add: rc_inv_def b snap_inv_def pre_inv_def)
qed

section \<open>The contract of a versioned store\<close>

text \<open>
  What the invalidation path relies on: an upsert replaces the entry of its key exactly when
  its version is higher. From this alone, any delivery of the same updates (in any order,
  with any repetition) ends in the same contents.
\<close>

locale versioned_store =
  fixes get :: "'s \<Rightarrow> 'k \<Rightarrow> 'r option"
    and upsert :: "'r \<Rightarrow> 's \<Rightarrow> 's"
    and key :: "'r \<Rightarrow> 'k"
    and ver :: "'r \<Rightarrow> int"
    and inv :: "'s \<Rightarrow> bool"
  assumes inv_upsert: "inv s \<Longrightarrow> inv (upsert x s)"
    and get_upsert: "inv s \<Longrightarrow> get (upsert x s) k =
      (if k = key x \<and> (case get s k of None \<Rightarrow> True | Some e \<Rightarrow> ver e < ver x) then Some x else get s k)"
begin

definition offered :: "'s \<Rightarrow> 'r list \<Rightarrow> 'k \<Rightarrow> 'r set" where
  "offered s xs k = set_option (get s k) \<union> {x \<in> set xs. key x = k}"

lemma inv_run: "inv s \<Longrightarrow> inv (fold upsert xs s)"
  by (induction xs arbitrary: s) (auto simp: inv_upsert)

lemma run_latest:
  assumes "inv s"
  shows "(get (fold upsert xs s) k = None \<longleftrightarrow> offered s xs k = {}) \<and>
    (\<forall>e. get (fold upsert xs s) k = Some e \<longrightarrow> e \<in> offered s xs k \<and> (\<forall>c \<in> offered s xs k. ver c \<le> ver e))"
  using assms
proof (induction xs rule: rev_induct)
  case Nil
  then show ?case by (cases "get s k") (auto simp: offered_def)
next
  case (snoc x xs)
  have o: "offered s (xs @ [x]) k = (if key x = k then insert x (offered s xs k) else offered s xs k)"
    by (auto simp: offered_def)
  have "get (fold upsert (xs @ [x]) s) k =
    (if k = key x \<and> (case get (fold upsert xs s) k of None \<Rightarrow> True | Some e \<Rightarrow> ver e < ver x)
     then Some x else get (fold upsert xs s) k)"
    using get_upsert [OF inv_run [OF snoc.prems], of x xs k] by simp
  with snoc.IH [OF snoc.prems] show ?case unfolding o by (auto split: option.splits if_splits)
qed

lemma run_present: "inv s \<Longrightarrow> x \<in> offered s xs k \<Longrightarrow> \<exists>e. get (fold upsert xs s) k = Some e"
  using run_latest [of s xs k] by (cases "get (fold upsert xs s) k") auto

lemma converge:
  assumes s: "inv s" and st: "set xs = set ys"
    and cons: "\<And>a b. a \<in> offered s xs (key a) \<Longrightarrow> b \<in> offered s xs (key a) \<Longrightarrow> ver a = ver b \<Longrightarrow> a = b"
    and own: "\<And>k e. get s k = Some e \<Longrightarrow> key e = k"
  shows "get (fold upsert xs s) k = get (fold upsert ys s) k"
proof -
  have o: "offered s xs k = offered s ys k" using st by (simp add: offered_def)
  show ?thesis
  proof (cases "offered s xs k = {}")
    case True
    then show ?thesis using run_latest [OF s, of xs k] run_latest [OF s, of ys k] o by simp
  next
    case False
    then obtain a b where ab: "get (fold upsert xs s) k = Some a" "get (fold upsert ys s) k = Some b"
      using run_present [OF s] o by blast
    then have "a \<in> offered s xs k" "b \<in> offered s xs k" "ver a = ver b"
      using run_latest [OF s, of xs k] run_latest [OF s, of ys k] o by (auto intro: order_antisym)
    moreover from this(1) have "key a = k" using own by (auto simp: offered_def)
    ultimately show ?thesis using cons [of a b] ab by simp
  qed
qed

text \<open>The version a key carries never decreases.\<close>

lemma ver_mono:
  assumes "inv s" "get s k = Some e"
  shows "\<exists>e'. get (fold upsert xs s) k = Some e' \<and> ver e \<le> ver e'"
proof -
  have "e \<in> offered s xs k" using assms(2) by (simp add: offered_def)
  with run_present [OF assms(1) this] run_latest [OF assms(1), of xs k] show ?thesis by auto
qed

end

lemma upsert_get:
  assumes "rc_inv rc"
  shows "rc_abs (RuleCache_UpsertIfNewer rc (Some x)) k =
    (if k = rule_key x \<and> (case rc_abs rc k of None \<Rightarrow> True | Some e \<Rightarrow> ru_Version e < ru_Version x)
     then Some x else rc_abs rc k)"
  using upsert_refines(2) [OF assms, of x] by (auto simp: spec_upsert_def newer_than_def)

interpretation rcv: versioned_store rc_abs "\<lambda>x rc. RuleCache_UpsertIfNewer rc (Some x)" rule_key ru_Version rc_inv
  by unfold_locales (auto simp: upsert_refines(1) upsert_get)

lemma rc_abs_own: "rc_inv rc \<Longrightarrow> rc_abs rc k = Some e \<Longrightarrow> rule_key e = k"
  by (cases k) (auto simp: rc_inv_def snap_inv_def rc_abs_lookup2 lookup2_def split: option.splits)

section \<open>Properties\<close>

text \<open>The operations of a run of the cache, and what they mean on the abstract map.\<close>

datatype rc_op =
    OpReplaceAll "Rule option list"
  | OpUpsert "Rule option"
  | OpDelete string string int64

fun rc_step :: "RuleCache \<Rightarrow> rc_op \<Rightarrow> RuleCache" where
  "rc_step rc (OpReplaceAll rules) = RuleCache_ReplaceAll rc rules"
| "rc_step rc (OpUpsert rule) = RuleCache_UpsertIfNewer rc rule"
| "rc_step rc (OpDelete t r v) = RuleCache_DeleteIfOlderOrEqual rc t r v"

fun spec_step :: "rule_map \<Rightarrow> rc_op \<Rightarrow> rule_map" where
  "spec_step m (OpReplaceAll rules) = spec_replace rules"
| "spec_step m (OpUpsert None) = m"
| "spec_step m (OpUpsert (Some rule)) = spec_upsert rule m"
| "spec_step m (OpDelete t r v) = spec_delete (t, r) v m"

lemma rc_step_refines:
  "rc_inv rc \<Longrightarrow> rc_inv (rc_step rc op) \<and> rc_abs (rc_step rc op) = spec_step (rc_abs rc) op"
proof (cases op)
  case (OpUpsert rule)
  then show "rc_inv rc \<Longrightarrow> ?thesis"
    by (cases rule) (simp_all add: upsert_refines RuleCache_UpsertIfNewer_def [of _ None])
qed (simp_all add: replace_refines delete_refines)

lemma rc_run_refines:
  "rc_inv rc \<Longrightarrow> rc_inv (foldl rc_step rc ops) \<and> rc_abs (foldl rc_step rc ops) = foldl spec_step (rc_abs rc) ops"
  by (induction ops arbitrary: rc) (simp_all add: rc_step_refines)

text \<open>C16 (refinement). Every sequence of \<^verbatim>\<open>ReplaceAll\<close>, \<^verbatim>\<open>UpsertIfNewer\<close> and
  \<^verbatim>\<open>DeleteIfOlderOrEqual\<close> on a new cache keeps the snapshot well formed (proper maps, no empty
  tenant, every rule filed under its own tenant and resource) and makes \<^verbatim>\<open>Get\<close> answer exactly
  as the abstract versioned map does.\<close>

theorem rulecache_refines_spec:
  "rc_inv (foldl rc_step NewRuleCache ops) \<and>
   RuleCache_Get (foldl rc_step NewRuleCache ops) t r = foldl spec_step Map.empty ops (t, r)"
proof -
  have "rc_abs (foldl rc_step NewRuleCache ops) (t, r) = foldl spec_step Map.empty ops (t, r)"
    using rc_run_refines [OF rc_inv_New, of ops] by (simp add: rc_abs_New)
  then show ?thesis using rc_run_refines [OF rc_inv_New, of ops] by (simp add: rc_abs_def)
qed

lemma fold_upserts:
  "foldl RuleCache_UpsertIfNewer rc (map Some xs) = fold (\<lambda>x rc. RuleCache_UpsertIfNewer rc (Some x)) xs rc"
  by (induction xs arbitrary: rc) simp_all

text \<open>C17 (convergence). Two replicas with the same well-formed cache that receive the same set
  of rule updates, in different orders and with different repetitions, answer every \<^verbatim>\<open>Get\<close>
  alike, provided that one tenant, resource and version always means one rule.\<close>

theorem rulecache_converges:
  assumes "rc_inv rc" "set xs = set ys"
    and "\<forall>a \<in> set xs. \<forall>b \<in> set xs. rule_key a = rule_key b \<and> ru_Version a = ru_Version b \<longrightarrow> a = b"
    and "\<forall>a \<in> set xs. \<forall>b. rc_abs rc (rule_key a) = Some b \<and> ru_Version a = ru_Version b \<longrightarrow> a = b"
  shows "RuleCache_Get (foldl RuleCache_UpsertIfNewer rc (map Some xs)) t r =
         RuleCache_Get (foldl RuleCache_UpsertIfNewer rc (map Some ys)) t r"
proof -
  let ?up = "\<lambda>x rc. RuleCache_UpsertIfNewer rc (Some x)"
  have "rc_abs (fold ?up xs rc) (t, r) = rc_abs (fold ?up ys rc) (t, r)"
  proof (rule rcv.converge [OF assms(1,2)])
    fix a b
    assume ab: "a \<in> rcv.offered rc xs (rule_key a)" "b \<in> rcv.offered rc xs (rule_key a)"
      "ru_Version a = ru_Version b"
    then have "rule_key b = rule_key a" using rc_abs_own [OF assms(1), of "rule_key a" b]
      by (auto simp: rcv.offered_def)
    moreover have "rc_abs rc (rule_key a) = Some a \<or> a \<in> set xs" "rc_abs rc (rule_key a) = Some b \<or> b \<in> set xs"
      using ab(1,2) by (auto simp: rcv.offered_def)
    ultimately show "a = b" using assms(3,4) ab(3) by (metis option.inject)
  qed (rule rc_abs_own [OF assms(1)])
  then show ?thesis by (simp add: rc_abs_def fold_upserts)
qed

definition sample_rule :: "string \<Rightarrow> string \<Rightarrow> int64 \<Rightarrow> int64 \<Rightarrow> Rule" where
  "sample_rule t r lim v = \<lparr>ru_TenantID = t, ru_Resource = r, ru_Algorithm = ''fixed_window'', ru_Limit = lim,
     ru_Window = Second, ru_BurstSize = 0, ru_Version = v, ru_UpdatedAt = 0\<rparr>"

theorem rulecache_converges_witness:
  "RuleCache_Get (foldl RuleCache_UpsertIfNewer NewRuleCache
      (map Some [sample_rule ''t'' ''r'' 5 1, sample_rule ''t'' ''r'' 7 2])) ''t'' ''r'' =
   RuleCache_Get (foldl RuleCache_UpsertIfNewer NewRuleCache
      (map Some [sample_rule ''t'' ''r'' 7 2, sample_rule ''t'' ''r'' 5 1, sample_rule ''t'' ''r'' 7 2])) ''t'' ''r''"
  by (rule rulecache_converges [OF rc_inv_New]) (auto simp: rc_abs_New sample_rule_def)

text \<open>Updates and deletions delivered late cannot undo a newer rule: while a rule of a key has
  version \<open>v\<close>, every run of upserts and of deletions with a lower version leaves a rule of that key
  with a version of at least \<open>v\<close>.\<close>

theorem rulecache_version_monotone:
  assumes "rc_inv rc" "RuleCache_Get rc t r = Some e"
    and "\<forall>op \<in> set ops. case op of OpReplaceAll _ \<Rightarrow> False | OpUpsert _ \<Rightarrow> True
           | OpDelete t' r' v' \<Rightarrow> v' < ru_Version e"
  shows "\<exists>e'. RuleCache_Get (foldl rc_step rc ops) t r = Some e' \<and> ru_Version e \<le> ru_Version e'"
  using assms
proof (induction ops arbitrary: rc e)
  case Nil
  then show ?case by simp
next
  case (Cons op ops)
  have "\<exists>e'. RuleCache_Get (rc_step rc op) t r = Some e' \<and> ru_Version e \<le> ru_Version e'"
  proof (cases op)
    case (OpUpsert x)
    then show ?thesis using Cons.prems(2) rcv.ver_mono [OF Cons.prems(1), of "(t, r)" e "[the x]"]
      by (cases x) (auto simp: rc_abs_def RuleCache_UpsertIfNewer_def [of _ None])
  next
    case (OpDelete t' r' v')
    then have "v' < ru_Version e" using Cons.prems(3) by simp
    then have "spec_delete (t', r') v' (rc_abs rc) (t, r) = Some e"
      using Cons.prems(2) by (auto simp: rc_abs_def spec_delete_def split: option.split)
    then have "rc_abs (rc_step rc op) (t, r) = Some e"
      using delete_refines(2) [OF Cons.prems(1), of t' r' v'] OpDelete by simp
    then show ?thesis by (simp add: rc_abs_def)
  qed (use Cons.prems in simp)
  then obtain e1 where e1: "RuleCache_Get (rc_step rc op) t r = Some e1" "ru_Version e \<le> ru_Version e1" by blast
  have "\<forall>op \<in> set ops. case op of OpReplaceAll _ \<Rightarrow> False | OpUpsert _ \<Rightarrow> True
           | OpDelete t' r' v' \<Rightarrow> v' < ru_Version e1"
    using Cons.prems(3) e1(2) by (fastforce split: rc_op.splits)
  from Cons.IH [OF _ e1(1) this] rc_step_refines [OF Cons.prems(1), of op] e1(2)
  show ?case by (auto intro: order_trans)
qed

theorem rulecache_version_monotone_witness:
  "\<exists>e'. RuleCache_Get (foldl rc_step (RuleCache_UpsertIfNewer NewRuleCache (Some (sample_rule ''t'' ''r'' 5 4)))
       [OpUpsert (Some (sample_rule ''t'' ''r'' 9 2)), OpDelete ''t'' ''r'' 3]) ''t'' ''r'' = Some e'
     \<and> ru_Version (sample_rule ''t'' ''r'' 5 4) \<le> ru_Version e'"
proof (rule rulecache_version_monotone)
  show "rc_inv (RuleCache_UpsertIfNewer NewRuleCache (Some (sample_rule ''t'' ''r'' 5 4)))"
    by (rule upsert_refines [OF rc_inv_New])
  show "RuleCache_Get (RuleCache_UpsertIfNewer NewRuleCache (Some (sample_rule ''t'' ''r'' 5 4))) ''t'' ''r'' =
    Some (sample_rule ''t'' ''r'' 5 4)" by code_simp
qed (simp add: sample_rule_def)

end
