(* ===== verification/Rule_DB.thy ===== *)
theory Rule_DB
  imports Core_Models
begin

text \<open>
  \<^verbatim>\<open>store/inmemory/db_inmemory.go\<close>: the source of truth for rules. Every method runs under one
  mutex, so it is a function of the state; the reading of the injected clock \<^verbatim>\<open>db.now\<close> is an
  argument. The digest of a create request is computed by \<^verbatim>\<open>crypto/sha256\<close> and printed in
  hexadecimal; both are the argument \<open>sha256hex\<close>, a function of the hashed bytes.
\<close>

section \<open>State\<close>

record idempotencyRecord =
  ir_ruleKey :: string
  ir_payloadHash :: string

record InMemoryRuleDB =
  db_rules :: "(string, Rule) gomap"
  db_idempotency :: "(string, idempotencyRecord) gomap"

definition NewInMemoryRuleDB :: InMemoryRuleDB where
  "NewInMemoryRuleDB = \<lparr>db_rules = [], db_idempotency = []\<rparr>"

definition ruleKey :: "string \<Rightarrow> string \<Rightarrow> string" where
  "ruleKey tenantID resource = tenantID @ [sep] @ resource"

definition create_payload :: "CreateRuleRequest \<Rightarrow> string" where
  "create_payload req =
     cq_TenantID req @ [sep] @ cq_Resource req @ [sep] @ cq_Algorithm req @ [sep]
     @ FormatInt (cq_Limit req) @ [sep] @ FormatInt (cq_Window req) @ [sep] @ FormatInt (cq_BurstSize req)"

fun hashCreatePayload :: "(string \<Rightarrow> string) \<Rightarrow> CreateRuleRequest option \<Rightarrow> string" where
  "hashCreatePayload sha256hex None = ''''"
| "hashCreatePayload sha256hex (Some req) = sha256hex (create_payload req)"

section \<open>Operations\<close>

text \<open>A method returns an error or a value, and the new state.\<close>

type_synonym 'a db_result = "(go_error + 'a) \<times> InMemoryRuleDB"

definition rule_of_create :: "CreateRuleRequest \<Rightarrow> time \<Rightarrow> Rule" where
  "rule_of_create req now = \<lparr>ru_TenantID = cq_TenantID req, ru_Resource = cq_Resource req,
     ru_Algorithm = cq_Algorithm req, ru_Limit = cq_Limit req, ru_Window = cq_Window req,
     ru_BurstSize = cq_BurstSize req, ru_Version = 1, ru_UpdatedAt = now\<rparr>"

fun DB_Create ::
    "(string \<Rightarrow> string) \<Rightarrow> time \<Rightarrow> InMemoryRuleDB \<Rightarrow> CreateRuleRequest option \<Rightarrow> Rule db_result" where
  "DB_Create sha256hex now db None = (Inl ErrInvalidInput, db)"
| "DB_Create sha256hex now db (Some req) =
     (if cq_TenantID req = '''' \<or> cq_Resource req = '''' then (Inl ErrInvalidInput, db)
      else if cq_Limit req \<le> 0 then (Inl ErrInvalidInput, db)
      else
        let key = ruleKey (cq_TenantID req) (cq_Resource req);
            payloadHash = hashCreatePayload sha256hex (Some req)
        in case (if cq_IdempotencyKey req \<noteq> '''' then gm_get (db_idempotency db) (cq_IdempotencyKey req) else None) of
             Some rec \<Rightarrow>
               if ir_payloadHash rec \<noteq> payloadHash then (Inl ErrConflict, db)
               else (case gm_get (db_rules db) (ir_ruleKey rec) of
                       None \<Rightarrow> (Inl ErrConflict, db)
                     | Some rule \<Rightarrow> (Inr rule, db))
           | None \<Rightarrow>
               if gm_get (db_rules db) key \<noteq> None then (Inl ErrConflict, db)
               else
                 let rule = rule_of_create req now;
                     db1 = db\<lparr>db_rules := gm_put key rule (db_rules db)\<rparr>;
                     db2 = (if cq_IdempotencyKey req \<noteq> ''''
                            then db1\<lparr>db_idempotency := gm_put (cq_IdempotencyKey req)
                                   \<lparr>ir_ruleKey = key, ir_payloadHash = payloadHash\<rparr> (db_idempotency db1)\<rparr>
                            else db1)
                 in (Inr rule, db2))"

definition rule_of_update :: "UpdateRuleRequest \<Rightarrow> Rule \<Rightarrow> time \<Rightarrow> Rule" where
  "rule_of_update req existing now = \<lparr>ru_TenantID = uq_TenantID req, ru_Resource = uq_Resource req,
     ru_Algorithm = uq_Algorithm req, ru_Limit = uq_Limit req, ru_Window = uq_Window req,
     ru_BurstSize = uq_BurstSize req, ru_Version = wrap64 (ru_Version existing + 1), ru_UpdatedAt = now\<rparr>"

fun DB_Update :: "time \<Rightarrow> InMemoryRuleDB \<Rightarrow> UpdateRuleRequest option \<Rightarrow> Rule db_result" where
  "DB_Update now db None = (Inl ErrInvalidInput, db)"
| "DB_Update now db (Some req) =
     (if uq_TenantID req = '''' \<or> uq_Resource req = '''' then (Inl ErrInvalidInput, db)
      else if uq_Limit req \<le> 0 then (Inl ErrInvalidInput, db)
      else
        let key = ruleKey (uq_TenantID req) (uq_Resource req)
        in case gm_get (db_rules db) key of
             None \<Rightarrow> (Inl ErrNotFound, db)
           | Some existing \<Rightarrow>
               if ru_Version existing \<noteq> uq_ExpectedVersion req then (Inl ErrConflict, db)
               else
                 let rule = rule_of_update req existing now
                 in (Inr rule, db\<lparr>db_rules := gm_put key rule (db_rules db)\<rparr>))"

definition DB_Delete :: "InMemoryRuleDB \<Rightarrow> string \<Rightarrow> string \<Rightarrow> int64 \<Rightarrow> unit db_result" where
  "DB_Delete db tenantID resource expectedVersion =
     (if tenantID = '''' \<or> resource = '''' then (Inl ErrInvalidInput, db)
      else
        let key = ruleKey tenantID resource
        in case gm_get (db_rules db) key of
             None \<Rightarrow> (Inl ErrNotFound, db)
           | Some rule \<Rightarrow>
               if ru_Version rule \<noteq> expectedVersion then (Inl ErrConflict, db)
               else (Inr (), db\<lparr>db_rules := gm_del key (db_rules db)\<rparr>))"

definition DB_Get :: "InMemoryRuleDB \<Rightarrow> string \<Rightarrow> string \<Rightarrow> go_error + Rule" where
  "DB_Get db tenantID resource =
     (if tenantID = '''' \<or> resource = '''' then Inl ErrInvalidInput
      else case gm_get (db_rules db) (ruleKey tenantID resource) of
             None \<Rightarrow> Inl ErrNotFound
           | Some rule \<Rightarrow> Inr rule)"

definition DB_List :: "InMemoryRuleDB \<Rightarrow> string \<Rightarrow> go_error + Rule list" where
  "DB_List db tenantID =
     (if tenantID = '''' then Inl ErrInvalidInput
      else Inr (filter (\<lambda>rule. ru_TenantID rule = tenantID) (gm_vals (db_rules db))))"

definition DB_LoadAll :: "InMemoryRuleDB \<Rightarrow> go_error + Rule list" where
  "DB_LoadAll db = (if gm_len (db_rules db) = 0 then Inr [] else Inr (gm_vals (db_rules db)))"

section \<open>Invariant\<close>

text \<open>Rules sit under their own key with a non-empty tenant and resource and a positive limit.\<close>

definition db_inv :: "InMemoryRuleDB \<Rightarrow> bool" where
  "db_inv db \<longleftrightarrow> gm_wf (db_rules db) \<and> gm_wf (db_idempotency db)
     \<and> (\<forall>k r. gm_get (db_rules db) k = Some r \<longrightarrow>
          k = ruleKey (ru_TenantID r) (ru_Resource r) \<and> ru_TenantID r \<noteq> '''' \<and> ru_Resource r \<noteq> '''' \<and> 0 < ru_Limit r)"

lemma db_inv_New: "db_inv NewInMemoryRuleDB"
  by (simp add: db_inv_def NewInMemoryRuleDB_def)

text \<open>The outcomes of each writer: refused without a change, or one of the successes.\<close>

definition create_ok :: "(string \<Rightarrow> string) \<Rightarrow> time \<Rightarrow> InMemoryRuleDB \<Rightarrow> CreateRuleRequest \<Rightarrow> InMemoryRuleDB \<Rightarrow> bool" where
  "create_ok h now db req db' \<longleftrightarrow>
     cq_TenantID req \<noteq> '''' \<and> cq_Resource req \<noteq> '''' \<and> 0 < cq_Limit req
     \<and> gm_get (db_rules db) (ruleKey (cq_TenantID req) (cq_Resource req)) = None
     \<and> db_rules db' = gm_put (ruleKey (cq_TenantID req) (cq_Resource req)) (rule_of_create req now) (db_rules db)
     \<and> db_idempotency db' = (if cq_IdempotencyKey req = '''' then db_idempotency db
           else gm_put (cq_IdempotencyKey req) \<lparr>ir_ruleKey = ruleKey (cq_TenantID req) (cq_Resource req),
                  ir_payloadHash = hashCreatePayload h (Some req)\<rparr> (db_idempotency db))"

definition create_replay :: "(string \<Rightarrow> string) \<Rightarrow> InMemoryRuleDB \<Rightarrow> CreateRuleRequest \<Rightarrow> Rule \<Rightarrow> bool" where
  "create_replay h db req rule \<longleftrightarrow> cq_IdempotencyKey req \<noteq> '''' \<and>
     (\<exists>rec. gm_get (db_idempotency db) (cq_IdempotencyKey req) = Some rec
        \<and> ir_payloadHash rec = hashCreatePayload h (Some req) \<and> gm_get (db_rules db) (ir_ruleKey rec) = Some rule)"

lemma DB_Create_cases:
  assumes "DB_Create h now db (Some req) = (res, db')"
  shows "(\<exists>e. res = Inl e \<and> db' = db) \<or> (\<exists>rule. res = Inr rule \<and> db' = db \<and> create_replay h db req rule)
    \<or> res = Inr (rule_of_create req now) \<and> create_ok h now db req db'"
  using assms
  by (simp add: Let_def create_replay_def create_ok_def split: if_split_asm option.split_asm) auto

lemma DB_Update_cases:
  assumes "DB_Update now db (Some req) = (res, db')"
  shows "(\<exists>e. res = Inl e \<and> db' = db) \<or>
    (\<exists>old. gm_get (db_rules db) (ruleKey (uq_TenantID req) (uq_Resource req)) = Some old
      \<and> uq_TenantID req \<noteq> '''' \<and> uq_Resource req \<noteq> '''' \<and> 0 < uq_Limit req
      \<and> ru_Version old = uq_ExpectedVersion req \<and> res = Inr (rule_of_update req old now)
      \<and> db' = db\<lparr>db_rules := gm_put (ruleKey (uq_TenantID req) (uq_Resource req)) (rule_of_update req old now) (db_rules db)\<rparr>)"
  using assms by (simp add: Let_def split: if_split_asm option.split_asm) auto

lemma DB_Delete_cases:
  assumes "DB_Delete db t r v = (res, db')"
  shows "(\<exists>e. res = Inl e \<and> db' = db) \<or>
    (\<exists>old. t \<noteq> '''' \<and> r \<noteq> '''' \<and> gm_get (db_rules db) (ruleKey t r) = Some old \<and> ru_Version old = v
      \<and> res = Inr () \<and> db' = db\<lparr>db_rules := gm_del (ruleKey t r) (db_rules db)\<rparr>)"
  using assms by (simp add: DB_Delete_def Let_def split: if_split_asm option.split_asm) auto

lemma DB_Create_inv: "db_inv db \<Longrightarrow> db_inv (snd (DB_Create h now db req))"
proof (cases req)
  case (Some q)
  assume i: "db_inv db"
  obtain res db' where e: "DB_Create h now db (Some q) = (res, db')" by fastforce
  from i have "db_inv db'"
    using DB_Create_cases [OF e] by (auto simp: create_ok_def db_inv_def rule_of_create_def split: if_splits)
  with e Some show ?thesis by simp
qed simp

lemma DB_Update_inv: "db_inv db \<Longrightarrow> db_inv (snd (DB_Update now db req))"
proof (cases req)
  case (Some q)
  assume i: "db_inv db"
  obtain res db' where e: "DB_Update now db (Some q) = (res, db')" by fastforce
  from i have "db_inv db'"
    using DB_Update_cases [OF e] by (auto simp: db_inv_def rule_of_update_def split: if_splits)
  with e Some show ?thesis by simp
qed simp

lemma DB_Delete_inv: "db_inv db \<Longrightarrow> db_inv (snd (DB_Delete db t r v))"
proof -
  assume i: "db_inv db"
  obtain res db' where e: "DB_Delete db t r v = (res, db')" by fastforce
  from i have "db_inv db'"
    using DB_Delete_cases [OF e] by (auto simp: db_inv_def split: if_splits)
  with e show ?thesis by simp
qed

section \<open>Runs\<close>

datatype db_op =
    DbCreate time "CreateRuleRequest option"
  | DbUpdate time "UpdateRuleRequest option"
  | DbDelete string string int64

fun db_step :: "(string \<Rightarrow> string) \<Rightarrow> InMemoryRuleDB \<Rightarrow> db_op \<Rightarrow> InMemoryRuleDB" where
  "db_step h db (DbCreate now req) = snd (DB_Create h now db req)"
| "db_step h db (DbUpdate now req) = snd (DB_Update now db req)"
| "db_step h db (DbDelete t r v) = snd (DB_Delete db t r v)"

text \<open>Whether an operation is an update of a given key that succeeds.\<close>

fun updates_key :: "InMemoryRuleDB \<Rightarrow> string \<Rightarrow> db_op \<Rightarrow> bool" where
  "updates_key db k (DbUpdate now (Some req)) =
     (ruleKey (uq_TenantID req) (uq_Resource req) = k \<and> (case DB_Update now db (Some req) of (Inr _, _) \<Rightarrow> True | _ \<Rightarrow> False))"
| "updates_key db k _ = False"

fun deletes_key :: "string \<Rightarrow> db_op \<Rightarrow> bool" where
  "deletes_key k (DbDelete t r v) = (ruleKey t r = k)"
| "deletes_key k _ = False"

fun count_updates :: "(string \<Rightarrow> string) \<Rightarrow> string \<Rightarrow> InMemoryRuleDB \<Rightarrow> db_op list \<Rightarrow> int" where
  "count_updates h k db [] = 0"
| "count_updates h k db (op # ops) =
     (if updates_key db k op then 1 else 0) + count_updates h k (db_step h db op) ops"

lemma db_step_inv: "db_inv db \<Longrightarrow> db_inv (db_step h db op)"
  by (cases op) (simp_all add: DB_Create_inv DB_Update_inv DB_Delete_inv del: DB_Create.simps DB_Update.simps)

lemma db_run_inv: "db_inv db \<Longrightarrow> db_inv (foldl (db_step h) db ops)"
  by (induction ops arbitrary: db) (simp_all add: db_step_inv)

lemma db_step_version:
  assumes "gm_get (db_rules db) k = Some e" "\<not> deletes_key k op"
  shows "\<exists>e'. gm_get (db_rules (db_step h db op)) k = Some e'
    \<and> ru_Version e' = (if updates_key db k op then wrap64 (ru_Version e + 1) else ru_Version e)"
proof (cases op)
  case (DbCreate now req)
  show ?thesis
  proof (cases req)
    case (Some q)
    obtain res db' where d: "DB_Create h now db (Some q) = (res, db')" by fastforce
    have "gm_get (db_rules db') k = Some e"
      using DB_Create_cases [OF d] assms(1) by (auto simp: create_ok_def)
    with d DbCreate Some show ?thesis by simp
  qed (use DbCreate assms in simp)
next
  case (DbUpdate now req)
  show ?thesis
  proof (cases req)
    case (Some q)
    obtain res db' where d: "DB_Update now db (Some q) = (res, db')" by fastforce
    have "\<exists>e'. gm_get (db_rules db') k = Some e' \<and> ru_Version e' =
      (if ruleKey (uq_TenantID q) (uq_Resource q) = k \<and> (\<exists>x. res = Inr x) then wrap64 (ru_Version e + 1) else ru_Version e)"
      using DB_Update_cases [OF d] assms(1) by (auto simp: rule_of_update_def)
    with d DbUpdate Some show ?thesis by (auto split: sum.splits)
  qed (use DbUpdate assms in simp)
next
  case (DbDelete t r v)
  obtain res db' where d: "DB_Delete db t r v = (res, db')" by fastforce
  have "gm_get (db_rules db') k = Some e"
    using DB_Delete_cases [OF d] assms DbDelete by auto
  with d DbDelete show ?thesis by simp
qed

section \<open>Properties\<close>

text \<open>Whatever rules are created, updated and deleted, every stored rule sits under
  the key of its own tenant and resource, which are not empty, and has a positive limit.\<close>

theorem ruledb_invariant: "db_inv (foldl (db_step h) NewInMemoryRuleDB ops)"
  by (rule db_run_inv [OF db_inv_New])

text \<open>Versions count updates: through any run of operations that does not delete a rule, its
  version grows by exactly the number of updates that were accepted for it (modulo the width of
  \<^verbatim>\<open>int64\<close>), so no accepted update is lost or counted twice.\<close>

theorem ruledb_version_counts_updates:
  assumes "gm_get (db_rules db) k = Some e" "\<forall>op \<in> set ops. \<not> deletes_key k op" "in_int64 (ru_Version e)"
  shows "\<exists>e'. gm_get (db_rules (foldl (db_step h) db ops)) k = Some e'
    \<and> ru_Version e' = wrap64 (ru_Version e + count_updates h k db ops)"
  using assms
proof (induction ops arbitrary: db e)
  case Nil
  then show ?case by simp
next
  case (Cons op ops)
  from db_step_version [OF Cons.prems(1), of op h] Cons.prems(2)
  obtain e1 where e1: "gm_get (db_rules (db_step h db op)) k = Some e1"
    "ru_Version e1 = (if updates_key db k op then wrap64 (ru_Version e + 1) else ru_Version e)" by auto
  have "in_int64 (ru_Version e1)" using e1(2) Cons.prems(3) by simp
  from Cons.IH [OF e1(1) _ this] Cons.prems(2) e1(2) show ?case
    by (auto simp: wrap64_add_wrap algebra_simps split: if_splits)
qed

definition sample_create :: "string \<Rightarrow> int64 \<Rightarrow> CreateRuleRequest" where
  "sample_create ik lim = \<lparr>cq_TenantID = ''t'', cq_Resource = ''r'', cq_Algorithm = ''fixed_window'', cq_Limit = lim,
     cq_Window = 60, cq_BurstSize = 0, cq_IdempotencyKey = ik\<rparr>"

definition sample_update :: "int64 \<Rightarrow> int64 \<Rightarrow> UpdateRuleRequest" where
  "sample_update lim v = \<lparr>uq_TenantID = ''t'', uq_Resource = ''r'', uq_Algorithm = ''fixed_window'', uq_Limit = lim,
     uq_Window = Second, uq_BurstSize = 0, uq_ExpectedVersion = v\<rparr>"

definition sample_db :: InMemoryRuleDB where
  "sample_db = snd (DB_Create id 10 NewInMemoryRuleDB (Some (sample_create ''k'' 5)))"

lemma sample_db_rule:
  "gm_get (db_rules sample_db) (ruleKey ''t'' ''r'') = Some (rule_of_create (sample_create ''k'' 5) 10)"
  by code_simp

theorem ruledb_version_counts_updates_witness:
  "\<exists>e'. gm_get (db_rules (foldl (db_step id) sample_db
        [DbUpdate 11 (Some (sample_update 6 1)), DbUpdate 12 (Some (sample_update 7 1)),
         DbUpdate 13 (Some (sample_update 8 2))])) (ruleKey ''t'' ''r'') = Some e'
    \<and> ru_Version e' = wrap64 (ru_Version (rule_of_create (sample_create ''k'' 5) 10)
        + count_updates id (ruleKey ''t'' ''r'') sample_db
        [DbUpdate 11 (Some (sample_update 6 1)), DbUpdate 12 (Some (sample_update 7 1)),
         DbUpdate 13 (Some (sample_update 8 2))])"
  by (rule ruledb_version_counts_updates [OF sample_db_rule]) (simp_all add: rule_of_create_def)





end
