(* ===== verification/Circuit.thy ===== *)
theory Circuit
  imports Go_Base
begin

text \<open>
  \<^verbatim>\<open>core/circuit.go\<close>: the circuit breaker in front of the store. Each field is an atomic; a method
  is modelled as one step, with its readings of the clock as arguments (\<^verbatim>\<open>OnFailure\<close> reads it
  twice). A nil breaker is \<^term>\<open>None\<close>.
\<close>

section \<open>State\<close>

datatype CircuitState = CircuitClosed | CircuitOpen | CircuitHalfOpen

record CircuitOptions =
  co_FailureThreshold :: int64
  co_OpenDuration :: duration
  co_HalfOpenMaxCalls :: int64

record CircuitBreaker =
  cb_state :: CircuitState
  cb_lastFailure :: int64
  cb_openUntil :: int64
  cb_failures :: int64
  cb_halfOpenInFlight :: int64
  cb_opts :: CircuitOptions

definition NewCircuitBreaker :: "CircuitOptions \<Rightarrow> CircuitBreaker" where
  "NewCircuitBreaker opts =
     (let opts = (if co_FailureThreshold opts \<le> 0 then opts\<lparr>co_FailureThreshold := 10\<rparr> else opts);
          opts = (if co_OpenDuration opts \<le> 0 then opts\<lparr>co_OpenDuration := 200 * Millisecond\<rparr> else opts);
          opts = (if co_HalfOpenMaxCalls opts \<le> 0 then opts\<lparr>co_HalfOpenMaxCalls := 5\<rparr> else opts)
      in \<lparr>cb_state = CircuitClosed, cb_lastFailure = 0, cb_openUntil = 0, cb_failures = 0,
          cb_halfOpenInFlight = 0, cb_opts = opts\<rparr>)"

section \<open>Operations\<close>

fun Circuit_Allow :: "time \<Rightarrow> CircuitBreaker option \<Rightarrow> bool \<times> CircuitBreaker option" where
  "Circuit_Allow now None = (True, None)"
| "Circuit_Allow now (Some cb) =
     (case cb_state cb of
        CircuitClosed \<Rightarrow> (True, Some cb)
      | CircuitOpen \<Rightarrow>
          if UnixNano now \<ge> cb_openUntil cb
          then (True, Some (cb\<lparr>cb_state := CircuitHalfOpen, cb_halfOpenInFlight := 0\<rparr>))
          else (False, Some cb)
      | CircuitHalfOpen \<Rightarrow>
          let inFlight = wrap64 (cb_halfOpenInFlight cb + 1);
              cb1 = cb\<lparr>cb_halfOpenInFlight := inFlight\<rparr>
          in if inFlight \<le> co_HalfOpenMaxCalls (cb_opts cb) then (True, Some cb1)
             else (False, Some (cb1\<lparr>cb_halfOpenInFlight := wrap64 (inFlight - 1)\<rparr>)))"

fun Circuit_OnSuccess :: "CircuitBreaker option \<Rightarrow> CircuitBreaker option" where
  "Circuit_OnSuccess None = None"
| "Circuit_OnSuccess (Some cb) =
     (if cb_state cb = CircuitHalfOpen
      then Some (cb\<lparr>cb_halfOpenInFlight := wrap64 (cb_halfOpenInFlight cb - 1), cb_failures := 0,
                    cb_state := CircuitClosed\<rparr>)
      else if cb_state cb = CircuitClosed then Some (cb\<lparr>cb_failures := 0\<rparr>)
      else Some cb)"

fun Circuit_OnFailure :: "time \<Rightarrow> time \<Rightarrow> CircuitBreaker option \<Rightarrow> CircuitBreaker option" where
  "Circuit_OnFailure now now2 None = None"
| "Circuit_OnFailure now now2 (Some cb0) =
     (let cb = cb0\<lparr>cb_lastFailure := UnixNano now\<rparr> in
      if cb_state cb = CircuitHalfOpen
      then Some (cb\<lparr>cb_halfOpenInFlight := wrap64 (cb_halfOpenInFlight cb - 1),
                    cb_failures := co_FailureThreshold (cb_opts cb),
                    cb_openUntil := UnixNano (time_Add now2 (co_OpenDuration (cb_opts cb))),
                    cb_state := CircuitOpen\<rparr>)
      else
        let cb1 = cb\<lparr>cb_failures := wrap64 (cb_failures cb + 1)\<rparr>
        in if cb_failures cb1 \<ge> co_FailureThreshold (cb_opts cb)
           then Some (cb1\<lparr>cb_openUntil := UnixNano (time_Add now2 (co_OpenDuration (cb_opts cb))),
                          cb_state := CircuitOpen\<rparr>)
           else Some cb1)"

section \<open>Runs\<close>

datatype cb_op = CAllow time | CSuccess | CFailure time time

fun cb_step :: "cb_op \<Rightarrow> CircuitBreaker option \<Rightarrow> CircuitBreaker option" where
  "cb_step (CAllow t) cb = snd (Circuit_Allow t cb)"
| "cb_step CSuccess cb = Circuit_OnSuccess cb"
| "cb_step (CFailure t t2) cb = Circuit_OnFailure t t2 cb"

text \<open>How many calls a run admits.\<close>

fun admitted :: "cb_op list \<Rightarrow> CircuitBreaker option \<Rightarrow> int" where
  "admitted [] cb = 0"
| "admitted (op # ops) cb =
     (case op of CAllow t \<Rightarrow> (if fst (Circuit_Allow t cb) then 1 else 0) | _ \<Rightarrow> 0) + admitted ops (cb_step op cb)"

section \<open>Invariant\<close>

definition cb_inv :: "CircuitBreaker \<Rightarrow> bool" where
  "cb_inv cb \<longleftrightarrow>
     0 < co_FailureThreshold (cb_opts cb) \<and> co_FailureThreshold (cb_opts cb) \<le> max_int64
     \<and> 0 < co_OpenDuration (cb_opts cb) \<and> 0 < co_HalfOpenMaxCalls (cb_opts cb)
     \<and> (cb_state cb = CircuitClosed \<longrightarrow> 0 \<le> cb_failures cb \<and> cb_failures cb < co_FailureThreshold (cb_opts cb))"

lemma cb_inv_New: "co_FailureThreshold opts \<le> max_int64 \<Longrightarrow> cb_inv (NewCircuitBreaker opts)"
  by (simp add: cb_inv_def NewCircuitBreaker_def Let_def Millisecond_def max_int64_def)

lemma cb_step_inv: "cb_inv cb \<Longrightarrow> \<exists>cb'. cb_step op (Some cb) = Some cb' \<and> cb_inv cb' \<and> cb_opts cb' = cb_opts cb"
proof (cases op)
  case (CFailure t t2)
  assume i: "cb_inv cb"
  have "cb_state cb = CircuitClosed \<Longrightarrow> wrap64 (cb_failures cb + 1) = cb_failures cb + 1"
    using i by (intro wrap64_id) (auto simp: cb_inv_def int64_bounds)
  with i CFailure show ?thesis by (cases "cb_state cb") (auto simp: cb_inv_def Let_def)
qed (auto simp: cb_inv_def Let_def split: CircuitState.splits)

lemma cb_run_inv: "cb_inv cb \<Longrightarrow> \<exists>cb'. fold cb_step ops (Some cb) = Some cb' \<and> cb_inv cb' \<and> cb_opts cb' = cb_opts cb"
proof (induction ops arbitrary: cb)
  case (Cons op ops)
  then show ?case using cb_step_inv [OF Cons.prems, of op] by (metis fold_simps(2))
qed simp

section \<open>Properties\<close>

lemma failures_trip:
  "cb_inv cb \<Longrightarrow> cb_state cb = CircuitClosed \<Longrightarrow>
   \<exists>cb'. fold cb_step (map (\<lambda>(t, t2). CFailure t t2) ts) (Some cb) = Some cb' \<and>
     (cb_failures cb + int (length ts) < co_FailureThreshold (cb_opts cb) \<longrightarrow>
        cb_state cb' = CircuitClosed \<and> cb_failures cb' = cb_failures cb + int (length ts)) \<and>
     (cb_failures cb + int (length ts) = co_FailureThreshold (cb_opts cb) \<longrightarrow> ts \<noteq> [] \<longrightarrow>
        cb_state cb' = CircuitOpen \<and> cb_openUntil cb' = UnixNano (snd (last ts) + co_OpenDuration (cb_opts cb)))"
proof (induction ts arbitrary: cb)
  case (Cons x ts)
  obtain t t2 where x: "x = (t, t2)" by fastforce
  have w: "wrap64 (cb_failures cb + 1) = cb_failures cb + 1"
    using Cons.prems by (intro wrap64_id) (auto simp: cb_inv_def int64_bounds)
  show ?case
  proof (cases "cb_failures cb + 1 < co_FailureThreshold (cb_opts cb)")
    case True
    define cb1 where "cb1 = cb\<lparr>cb_lastFailure := UnixNano t, cb_failures := cb_failures cb + 1\<rparr>"
    have "cb_inv cb1" "cb_state cb1 = CircuitClosed" using Cons.prems True by (auto simp: cb1_def cb_inv_def)
    from Cons.IH [OF this] True Cons.prems(2) w x show ?thesis
      by (auto simp: cb1_def Let_def)
  next
    case False
    obtain cb' where "fold cb_step (map (\<lambda>(t, t2). CFailure t t2) (x # ts)) (Some cb) = Some cb'"
      using cb_run_inv [OF Cons.prems(1)] by blast
    with False Cons.prems w x show ?thesis
      by (cases ts) (auto simp: Let_def time_Add_def cb_inv_def)
  qed
qed simp

text \<open>C21. The breaker trips exactly at its threshold: on a new breaker, fewer consecutive failures
  than \<^verbatim>\<open>FailureThreshold\<close> leave it closed and admitting, and the failure that reaches the threshold
  opens it until \<^verbatim>\<open>OpenDuration\<close> after that failure.\<close>

theorem circuit_trips_at_threshold:
  assumes "co_FailureThreshold opts \<le> max_int64"
  shows "let cb = NewCircuitBreaker opts; cb' = fold cb_step (map (\<lambda>(t, t2). CFailure t t2) ts) (Some cb) in
    (int (length ts) < co_FailureThreshold (cb_opts cb) \<longrightarrow> Circuit_Allow t cb' = (True, cb')) \<and>
    (int (length ts) = co_FailureThreshold (cb_opts cb) \<longrightarrow>
       (UnixNano t < UnixNano (snd (last ts) + co_OpenDuration (cb_opts cb)) \<longrightarrow> Circuit_Allow t cb' = (False, cb')))"
proof -
  define cb where "cb = NewCircuitBreaker opts"
  have i: "cb_inv cb" "cb_state cb = CircuitClosed" "cb_failures cb = 0"
    using cb_inv_New [OF assms] by (simp_all add: cb_def NewCircuitBreaker_def Let_def)
  have "0 < co_FailureThreshold (cb_opts cb)" using i(1) by (simp add: cb_inv_def)
  with failures_trip [OF i(1,2), of ts] i(3) show ?thesis
    unfolding cb_def [symmetric] Let_def by (cases "ts = []") auto
qed

theorem circuit_trips_at_threshold_witness:
  "let cb = NewCircuitBreaker \<lparr>co_FailureThreshold = 2, co_OpenDuration = 100, co_HalfOpenMaxCalls = 1\<rparr>;
       cb' = fold cb_step (map (\<lambda>(t, t2). CFailure t t2) [(unix_epoch + 5, unix_epoch + 6), (unix_epoch + 7, unix_epoch + 8)]) (Some cb) in
    (int (length [(unix_epoch + 5, unix_epoch + 6), (unix_epoch + 7, unix_epoch + 8)]) < co_FailureThreshold (cb_opts cb) \<longrightarrow>
       Circuit_Allow (unix_epoch + 50) cb' = (True, cb')) \<and>
    (int (length [(unix_epoch + 5, unix_epoch + 6), (unix_epoch + 7, unix_epoch + 8)]) = co_FailureThreshold (cb_opts cb) \<longrightarrow>
       (UnixNano (unix_epoch + 50) < UnixNano (snd (last [(unix_epoch + 5, unix_epoch + 6), (unix_epoch + 7, unix_epoch + 8)])
            + co_OpenDuration (cb_opts cb)) \<longrightarrow> Circuit_Allow (unix_epoch + 50) cb' = (False, cb')))"
  by (rule circuit_trips_at_threshold) (simp add: max_int64_def)

text \<open>An open breaker admits nothing before \<^verbatim>\<open>openUntil\<close>, whatever late successes and
  failures of earlier calls it is told of: no call of the run is admitted and it stays open.\<close>

theorem circuit_open_admits_nothing:
  assumes "cb_inv cb" "cb_state cb = CircuitOpen"
    and "\<forall>op \<in> set ops. case op of CAllow t \<Rightarrow> UnixNano t < cb_openUntil cb | CSuccess \<Rightarrow> True
           | CFailure t t2 \<Rightarrow> cb_openUntil cb \<le> UnixNano (t2 + co_OpenDuration (cb_opts cb))"
  shows "admitted ops (Some cb) = 0 \<and>
    (\<exists>cb'. fold cb_step ops (Some cb) = Some cb' \<and> cb_state cb' = CircuitOpen \<and> cb_openUntil cb \<le> cb_openUntil cb')"
proof -
  have "cb_state c = CircuitOpen \<Longrightarrow> cb_openUntil cb \<le> cb_openUntil c \<Longrightarrow> cb_opts c = cb_opts cb \<Longrightarrow>
    admitted ops (Some c) = 0 \<and>
    (\<exists>cb'. fold cb_step ops (Some c) = Some cb' \<and> cb_state cb' = CircuitOpen \<and> cb_openUntil cb \<le> cb_openUntil cb')" for c
    using assms(3)
  proof (induction ops arbitrary: c)
    case (Cons op ops)
    have "\<exists>c'. cb_step op (Some c) = Some c' \<and> cb_state c' = CircuitOpen \<and> cb_openUntil cb \<le> cb_openUntil c'
        \<and> cb_opts c' = cb_opts cb"
      using Cons.prems by (cases op) (auto simp: Let_def time_Add_def)
    moreover have "(case op of CAllow t \<Rightarrow> (if fst (Circuit_Allow t (Some c)) then 1 else 0) | _ \<Rightarrow> 0) = (0::int)"
      using Cons.prems by (cases op) auto
    ultimately show ?case using Cons.IH Cons.prems by auto
  qed simp
  then show ?thesis using assms(2) by simp
qed

definition sample_breaker :: CircuitBreaker where
  "sample_breaker = \<lparr>cb_state = CircuitOpen, cb_lastFailure = 7, cb_openUntil = 100, cb_failures = 2,
     cb_halfOpenInFlight = 0, cb_opts = \<lparr>co_FailureThreshold = 2, co_OpenDuration = 93, co_HalfOpenMaxCalls = 1\<rparr>\<rparr>"

lemma sample_breaker_inv: "cb_inv sample_breaker"
  by (simp add: cb_inv_def sample_breaker_def max_int64_def)

theorem circuit_open_admits_nothing_witness:
  "admitted [CAllow (unix_epoch + 20), CSuccess, CFailure (unix_epoch + 30) (unix_epoch + 31), CAllow (unix_epoch + 99)]
      (Some sample_breaker) = 0 \<and>
   (\<exists>cb'. fold cb_step [CAllow (unix_epoch + 20), CSuccess, CFailure (unix_epoch + 30) (unix_epoch + 31), CAllow (unix_epoch + 99)]
      (Some sample_breaker) = Some cb' \<and> cb_state cb' = CircuitOpen \<and> cb_openUntil sample_breaker \<le> cb_openUntil cb')"
  by (rule circuit_open_admits_nothing [OF sample_breaker_inv])
    (simp_all add: sample_breaker_def UnixNano_def int64_bounds)

lemma half_open_allows:
  "cb_state cb = CircuitHalfOpen \<Longrightarrow> 0 \<le> cb_halfOpenInFlight cb \<Longrightarrow>
   cb_halfOpenInFlight cb \<le> co_HalfOpenMaxCalls (cb_opts cb) \<Longrightarrow> co_HalfOpenMaxCalls (cb_opts cb) < max_int64 \<Longrightarrow>
   admitted (map CAllow ts) (Some cb) =
     min (int (length ts)) (co_HalfOpenMaxCalls (cb_opts cb) - cb_halfOpenInFlight cb)"
proof (induction ts arbitrary: cb)
  case (Cons t ts)
  let ?M = "co_HalfOpenMaxCalls (cb_opts cb)"
  have w: "wrap64 (cb_halfOpenInFlight cb + 1) = cb_halfOpenInFlight cb + 1" "wrap64 (cb_halfOpenInFlight cb) = cb_halfOpenInFlight cb"
    using Cons.prems by (auto intro!: wrap64_id simp: int64_bounds)
  show ?case
  proof (cases "cb_halfOpenInFlight cb < ?M")
    case True
    have "admitted (map CAllow ts) (Some (cb\<lparr>cb_halfOpenInFlight := cb_halfOpenInFlight cb + 1\<rparr>)) =
      min (int (length ts)) (?M - (cb_halfOpenInFlight cb + 1))"
      using Cons.IH [of "cb\<lparr>cb_halfOpenInFlight := cb_halfOpenInFlight cb + 1\<rparr>"] Cons.prems True by simp
    with True Cons.prems w show ?thesis by (simp add: Let_def)
  next
    case False
    then have "Circuit_Allow t (Some cb) = (False, Some cb)" using Cons.prems w by (cases cb) (simp add: Let_def)
    with False Cons.prems Cons.IH [of cb] show ?thesis by simp
  qed
qed simp



end
