(* ===== verification/Fnv.thy ===== *)
theory Fnv
  imports Go_Base
begin

text \<open>
  The FNV-1a hashes of \<^verbatim>\<open>hash/fnv\<close>, which choose shards (\<^verbatim>\<open>shardIndex\<close>, \<^verbatim>\<open>coalescerShardIndex\<close>),
  sample traces (\<^verbatim>\<open>HashSampler\<close>) and score instances (\<^verbatim>\<open>RendezvousOwnership\<close>).
\<close>

unbundle bit_operations_syntax

definition byte32 :: "char \<Rightarrow> 32 word" where
  "byte32 c = of_nat (of_char c)"

definition byte64 :: "char \<Rightarrow> 64 word" where
  "byte64 c = of_nat (of_char c)"

text \<open>\<^verbatim>\<open>Write\<close> folds the bytes into the state; \<^verbatim>\<open>Sum32\<close> and \<^verbatim>\<open>Sum64\<close> read it.\<close>

definition fnv32_write :: "32 word \<Rightarrow> string \<Rightarrow> 32 word" where
  "fnv32_write h s = foldl (\<lambda>h c. (h XOR byte32 c) * 16777619) h s"

definition fnv64_write :: "64 word \<Rightarrow> string \<Rightarrow> 64 word" where
  "fnv64_write h s = foldl (\<lambda>h c. (h XOR byte64 c) * 1099511628211) h s"

definition fnv32_new :: "32 word" where "fnv32_new = 2166136261"
definition fnv64_new :: "64 word" where "fnv64_new = 14695981039346656037"

text \<open>
  \<^verbatim>\<open>int(hasher.Sum32() % uint32(total))\<close>; \<^verbatim>\<open>total\<close> is reduced to 32 bits first, and a zero
  divisor panics.
\<close>

definition mod_u32 :: "32 word \<Rightarrow> int \<Rightarrow> int option" where
  "mod_u32 h tot =
     (let d = (word_of_int tot :: 32 word) in if d = 0 then None else Some (uint (h mod d)))"

definition shardIndex :: "string \<Rightarrow> string \<Rightarrow> int \<Rightarrow> int option" where
  "shardIndex tenantID resource tot =
     (if tot \<le> 1 then Some 0
      else mod_u32 (fnv32_write (fnv32_write (fnv32_write fnv32_new tenantID) [CHR 0x00]) resource) tot)"

definition coalescerShardIndex :: "string \<Rightarrow> int \<Rightarrow> int option" where
  "coalescerShardIndex key tot =
     (if tot \<le> 1 then Some 0 else mod_u32 (fnv32_write fnv32_new key) tot)"

record HashSampler = hs_rate :: int

definition NewHashSampler :: "int \<Rightarrow> HashSampler" where
  "NewHashSampler rate = \<lparr>hs_rate = rate\<rparr>"

definition Sampled :: "HashSampler \<Rightarrow> string \<Rightarrow> bool option" where
  "Sampled s traceID =
     (if traceID = '''' then Some False
      else let rate = hs_rate s in
        if rate \<le> 0 then Some False
        else map_option (\<lambda>i. i = 0) (mod_u32 (fnv32_write fnv32_new traceID) rate))"

section \<open>Facts\<close>

lemma fnv32_write_append: "fnv32_write h (s @ t) = fnv32_write (fnv32_write h s) t"
  by (simp add: fnv32_write_def)

lemma fnv64_write_append: "fnv64_write h (s @ t) = fnv64_write (fnv64_write h s) t"
  by (simp add: fnv64_write_def)

lemma mod_u32_bounds:
  assumes "0 < tot" "tot < 2 ^ 32"
  shows "\<exists>i. mod_u32 h tot = Some i \<and> 0 \<le> i \<and> i < tot"
proof -
  have u: "uint (word_of_int tot :: 32 word) = tot"
    using assms by (simp add: uint_word_of_int)
  then have "(word_of_int tot :: 32 word) \<noteq> 0" using assms(1) by (metis less_irrefl uint_0_eq)
  moreover have "uint (h mod (word_of_int tot :: 32 word)) < tot"
    using assms u by (simp add: uint_mod pos_mod_bound)
  ultimately show ?thesis by (simp add: mod_u32_def)
qed

lemma shardIndex_bounds:
  assumes "0 < tot" "tot < 2 ^ 32"
  shows "\<exists>i. shardIndex t r tot = Some i \<and> 0 \<le> i \<and> i < tot"
  using mod_u32_bounds [OF assms] assms by (auto simp: shardIndex_def)

lemma coalescerShardIndex_bounds:
  assumes "0 < tot" "tot < 2 ^ 32"
  shows "\<exists>i. coalescerShardIndex k tot = Some i \<and> 0 \<le> i \<and> i < tot"
  using mod_u32_bounds [OF assms] assms by (auto simp: coalescerShardIndex_def)

lemma mod_u32_range:
  assumes "0 < tot" "mod_u32 h tot = Some i"
  shows "0 \<le> i \<and> i < tot"
proof -
  let ?d = "word_of_int tot :: 32 word"
  from assms(2) have d: "?d \<noteq> 0" "i = uint (h mod ?d)" by (auto simp: mod_u32_def Let_def split: if_splits)
  have "uint ?d \<le> tot" using assms(1) by (simp add: uint_word_of_int zmod_le_nonneg_dividend)
  moreover have "0 < uint ?d" using d(1) by (metis order_le_less uint_0_eq unsigned_eq_0_iff unsigned_greater_eq)
  then have "uint (h mod ?d) < uint ?d" by (simp add: uint_mod pos_mod_bound)
  ultimately show ?thesis using d by simp
qed

lemma shardIndex_range:
  assumes "0 < tot" "shardIndex t r tot = Some i"
  shows "0 \<le> i \<and> i < tot"
  using assms mod_u32_range [OF assms(1)] by (simp add: shardIndex_def split: if_splits)

lemma coalescerShardIndex_range:
  assumes "0 < tot" "coalescerShardIndex k tot = Some i"
  shows "0 \<le> i \<and> i < tot"
  using assms mod_u32_range [OF assms(1)] by (simp add: coalescerShardIndex_def split: if_splits)

end
