(* ===== verification/Membership.thy ===== *)
theory Membership
  imports Fnv
begin

text \<open>
  \<^verbatim>\<open>core/membership_static.go\<close> and \<^verbatim>\<open>core/ownership.go\<close>: which instances exist, and which of them owns a
  key (rendezvous hashing). A caller sees a \<^verbatim>\<open>Membership\<close> only through its four methods, so
  the interface is the record of what they return; a nil interface is \<^term>\<open>None\<close>.
\<close>

section \<open>Membership\<close>

record InstanceInfo =
  ii_ID :: string
  ii_Region :: string
  ii_Weight :: int

record Membership =
  ms_SelfID :: string
  ms_SelfRegion :: string
  ms_Instances :: "go_error + InstanceInfo list"
  ms_Healthy :: bool

record StaticMembership =
  sm_self :: string
  sm_selfRegion :: string
  sm_instances :: "InstanceInfo list"
  sm_healthy :: bool

definition clamp_weight :: "InstanceInfo \<Rightarrow> InstanceInfo" where
  "clamp_weight i = (if ii_Weight i \<le> 0 then i\<lparr>ii_Weight := 1\<rparr> else i)"

definition NewStaticMembership :: "string \<Rightarrow> string \<Rightarrow> InstanceInfo list \<Rightarrow> StaticMembership" where
  "NewStaticMembership selfID selfRegion instances =
     (let instances = (if length instances = 0
                       then [\<lparr>ii_ID = selfID, ii_Region = selfRegion, ii_Weight = 1\<rparr>] else instances)
      in \<lparr>sm_self = selfID, sm_selfRegion = selfRegion, sm_instances = map clamp_weight instances,
          sm_healthy = True\<rparr>)"

definition NewSingleInstanceMembership :: "string \<Rightarrow> string \<Rightarrow> StaticMembership" where
  "NewSingleInstanceMembership selfID region =
     NewStaticMembership selfID region [\<lparr>ii_ID = selfID, ii_Region = region, ii_Weight = 1\<rparr>]"

fun StaticMembership_SelfID :: "StaticMembership option \<Rightarrow> string" where
  "StaticMembership_SelfID None = ''''"
| "StaticMembership_SelfID (Some m) = sm_self m"

fun StaticMembership_SelfRegion :: "StaticMembership option \<Rightarrow> string" where
  "StaticMembership_SelfRegion None = ''''"
| "StaticMembership_SelfRegion (Some m) = sm_selfRegion m"

fun StaticMembership_Instances :: "StaticMembership option \<Rightarrow> go_error + InstanceInfo list" where
  "StaticMembership_Instances None = Inr []"
| "StaticMembership_Instances (Some m) = Inr (sm_instances m)"

fun StaticMembership_Healthy :: "StaticMembership option \<Rightarrow> bool" where
  "StaticMembership_Healthy None = False"
| "StaticMembership_Healthy (Some m) = sm_healthy m"

fun SetHealthy :: "StaticMembership option \<Rightarrow> bool \<Rightarrow> StaticMembership option" where
  "SetHealthy None v = None"
| "SetHealthy (Some m) v = Some (m\<lparr>sm_healthy := v\<rparr>)"

text \<open>\<^verbatim>\<open>SetSelfWeight\<close> writes the first entry with the own ID, or appends one.\<close>

fun set_first_weight :: "string \<Rightarrow> int \<Rightarrow> InstanceInfo list \<Rightarrow> InstanceInfo list option" where
  "set_first_weight self w [] = None"
| "set_first_weight self w (i # is) =
     (if ii_ID i = self then Some (i\<lparr>ii_Weight := w\<rparr> # is)
      else map_option (Cons i) (set_first_weight self w is))"

fun SetSelfWeight :: "StaticMembership option \<Rightarrow> int \<Rightarrow> StaticMembership option" where
  "SetSelfWeight None weight = None"
| "SetSelfWeight (Some m) weight =
     (let weight = (if weight \<le> 0 then 1 else weight) in
      case set_first_weight (sm_self m) weight (sm_instances m) of
        Some is \<Rightarrow> Some (m\<lparr>sm_instances := is\<rparr>)
      | None \<Rightarrow> Some (m\<lparr>sm_instances := sm_instances m @
                        [\<lparr>ii_ID = sm_self m, ii_Region = sm_selfRegion m, ii_Weight = weight\<rparr>]\<rparr>))"

text \<open>A static membership seen through the interface.\<close>

definition static_view :: "StaticMembership option \<Rightarrow> Membership" where
  "static_view m = \<lparr>ms_SelfID = StaticMembership_SelfID m, ms_SelfRegion = StaticMembership_SelfRegion m,
     ms_Instances = StaticMembership_Instances m, ms_Healthy = StaticMembership_Healthy m\<rparr>"

section \<open>Ownership\<close>

record RendezvousOwnership =
  ro_m :: "Membership option"
  ro_region :: string
  ro_enableGlobal :: bool
  ro_globalFallback :: bool

definition NewRendezvousOwnership :: "Membership option \<Rightarrow> string \<Rightarrow> bool \<Rightarrow> bool \<Rightarrow> RendezvousOwnership" where
  "NewRendezvousOwnership m region enableGlobal globalFallback =
     \<lparr>ro_m = m, ro_region = region, ro_enableGlobal = enableGlobal, ro_globalFallback = globalFallback\<rparr>"

text \<open>The weighted score; \<^verbatim>\<open>uint64\<close> multiplication wraps.\<close>

definition rendezvous_score :: "string \<Rightarrow> InstanceInfo \<Rightarrow> 64 word" where
  "rendezvous_score key inst =
     (let score = fnv64_write (fnv64_write (fnv64_write fnv64_new (ii_ID inst)) [CHR 0x00]) key;
          weight = (if ii_Weight inst < 1 then 1 else ii_Weight inst)
      in score * word_of_int weight)"

text \<open>The loop over the candidates; \<open>i\<close> is the index.\<close>

fun best_loop :: "string \<Rightarrow> nat \<Rightarrow> InstanceInfo list \<Rightarrow> string \<times> 64 word \<Rightarrow> string \<times> 64 word" where
  "best_loop key i [] best = best"
| "best_loop key i (inst # rest) (bestID, bestScore) =
     (let score = rendezvous_score key inst in
      if i = 0 \<or> score > bestScore then best_loop key (Suc i) rest (ii_ID inst, score)
      else best_loop key (Suc i) rest (bestID, bestScore))"

definition region_filter :: "RendezvousOwnership \<Rightarrow> InstanceInfo list \<Rightarrow> InstanceInfo list" where
  "region_filter ro instances =
     (if ro_enableGlobal ro \<or> ro_region ro = '''' then instances
      else filter (\<lambda>i. ii_Region i = ro_region ro) instances)"

fun IsOwner :: "RendezvousOwnership option \<Rightarrow> string \<Rightarrow> bool" where
  "IsOwner None key = True"
| "IsOwner (Some ro) key =
     (case ro_m ro of
        None \<Rightarrow> True
      | Some m \<Rightarrow>
          (case ms_Instances m of
             Inl err \<Rightarrow> True
           | Inr instances \<Rightarrow>
               if length instances = 0 then True
               else if ms_SelfID m = '''' then True
               else
                 let filtered = region_filter ro instances in
                 if length filtered = 0 \<and> \<not> ro_globalFallback ro then True
                 else
                   let filtered = (if length filtered = 0 then instances else filtered);
                       (bestID, bestScore) = best_loop key 0 filtered ('''', 0)
                   in if bestID = '''' then True else bestID = ms_SelfID m))"

section \<open>The contract of an election\<close>

text \<open>The winner is the first candidate of the highest score. What the fallback relies on
  follows from this alone: agreement, and stability when a loser leaves.\<close>

locale election =
  fixes score :: "'k \<Rightarrow> 'i \<Rightarrow> 's :: linorder"
    and winner :: "'k \<Rightarrow> 'i list \<Rightarrow> 'n"
    and name :: "'i \<Rightarrow> 'n"
  assumes winner_first_best: "xs \<noteq> [] \<Longrightarrow> \<exists>ys x zs. xs = ys @ x # zs \<and> winner k xs = name x
      \<and> (\<forall>y \<in> set ys. score k y < score k x) \<and> (\<forall>z \<in> set zs. score k z \<le> score k x)"
begin

lemma first_best_not_later:
  assumes "ys @ x # zs = ys' @ x' # zs'" "length ys < length ys'"
    and "\<forall>z \<in> set zs. f z \<le> f x" "\<forall>y \<in> set ys'. f y < (f x' :: 's)"
  shows False
proof -
  have "(ys' @ x' # zs') ! length ys = x" using assms(1) by (metis nth_append_length)
  then have "x \<in> set ys'" using assms(2) by (simp add: nth_append) (metis nth_mem)
  obtain d where d: "length ys' = Suc (length ys + d)" using assms(2) less_iff_Suc_add by auto
  have l: "length ys + Suc (length zs) = length ys' + Suc (length zs')"
    using arg_cong [OF assms(1), of length] by simp
  have "(ys @ x # zs) ! length ys' = x'" using assms(1) by (metis nth_append_length)
  then have "zs ! d = x'" using d by (simp add: nth_append)
  moreover have "d < length zs" using l d by simp
  ultimately have "x' \<in> set zs" using nth_mem by blast
  with \<open>x \<in> set ys'\<close> assms(3,4) show False by (meson leD)
qed

lemma first_best_unique:
  assumes "ys @ x # zs = ys' @ x' # zs'"
    and "\<forall>y \<in> set ys. f y < f x" "\<forall>z \<in> set zs. f z \<le> f x"
    and "\<forall>y \<in> set ys'. f y < f x'" "\<forall>z \<in> set zs'. f z \<le> (f x' :: 's)"
  shows "x = x'"
proof -
  have "\<not> length ys < length ys'" "\<not> length ys' < length ys"
    using first_best_not_later [OF assms(1) _ assms(3,4)] first_best_not_later [OF assms(1) [symmetric] _ assms(5,2)]
    by auto
  then have "length ys = length ys'" by simp
  then show ?thesis using assms(1) by simp
qed

lemma winner_in: "xs \<noteq> [] \<Longrightarrow> winner k xs \<in> name ` set xs"
  using winner_first_best [of xs k] by fastforce

lemma winner_stable:
  assumes "xs \<noteq> []" "\<And>x. x \<in> set xs \<Longrightarrow> name x = winner k xs \<Longrightarrow> P x"
  shows "winner k (filter P xs) = winner k xs"
proof -
  obtain ys x zs where xs: "xs = ys @ x # zs" "winner k xs = name x"
    "\<forall>y \<in> set ys. score k y < score k x" "\<forall>z \<in> set zs. score k z \<le> score k x"
    using winner_first_best [OF assms(1)] by blast
  then have "P x" using assms(2) by simp
  then have f: "filter P xs = filter P ys @ x # filter P zs" using xs(1) by simp
  then have "filter P xs \<noteq> []" by simp
  from winner_first_best [OF this, of k] obtain ys' x' zs' where w: "filter P xs = ys' @ x' # zs'"
    "winner k (filter P xs) = name x'" "\<forall>y \<in> set ys'. score k y < score k x'" "\<forall>z \<in> set zs'. score k z \<le> score k x'"
    by blast
  have "x = x'"
    by (rule first_best_unique [of "filter P ys" x "filter P zs" ys' x' zs' "score k"]) (use f w xs(3,4) in auto)
  with w(2) xs(2) show ?thesis by simp
qed

end

section \<open>The loop is an election\<close>

definition best_of :: "string \<Rightarrow> InstanceInfo list \<Rightarrow> string" where
  "best_of key xs = fst (best_loop key 0 xs ('''', 0))"

lemma best_loop_spec:
  assumes "0 < i" "best = (ii_ID x, rendezvous_score key x)"
    "\<forall>y \<in> set ys. rendezvous_score key y < rendezvous_score key x" "\<forall>z \<in> set zs. rendezvous_score key z \<le> rendezvous_score key x"
  shows "\<exists>ys' x' zs'. ys @ x # zs @ rest = ys' @ x' # zs' \<and> fst (best_loop key i rest best) = ii_ID x'
    \<and> (\<forall>y \<in> set ys'. rendezvous_score key y < rendezvous_score key x') \<and> (\<forall>z \<in> set zs'. rendezvous_score key z \<le> rendezvous_score key x')"
  using assms
proof (induction rest arbitrary: i best x ys zs)
  case Nil
  then show ?case by (intro exI [of _ ys] exI [of _ x] exI [of _ zs]) simp
next
  case (Cons a rest)
  show ?case
  proof (cases "rendezvous_score key x < rendezvous_score key a")
    case True
    have "\<forall>y \<in> set (ys @ x # zs). rendezvous_score key y < rendezvous_score key a"
      using Cons.prems(3,4) True by (auto intro: less_trans le_less_trans)
    from Cons.IH [of "Suc i" _ a, OF _ refl this, of "[]"] True Cons.prems(1,2) show ?thesis
      by (simp add: Let_def)
  next
    case False
    then have "\<forall>z \<in> set (zs @ [a]). rendezvous_score key z \<le> rendezvous_score key x" using Cons.prems(4) by auto
    from Cons.IH [of "Suc i" _ x ys, OF _ refl Cons.prems(3) this] False Cons.prems(1,2) show ?thesis
      by (simp add: Let_def)
  qed
qed

interpretation rendezvous: election rendezvous_score best_of ii_ID
proof
  fix k and xs :: "InstanceInfo list"
  assume "xs \<noteq> []"
  then obtain x rest where xs: "xs = x # rest" by (cases xs) auto
  show "\<exists>ys x zs. xs = ys @ x # zs \<and> best_of k xs = ii_ID x
      \<and> (\<forall>y \<in> set ys. rendezvous_score k y < rendezvous_score k x) \<and> (\<forall>z \<in> set zs. rendezvous_score k z \<le> rendezvous_score k x)"
    using best_loop_spec [of "Suc 0" _ x k "[]" "[]" rest, OF _ refl] xs by (simp add: best_of_def Let_def)
qed

section \<open>Properties\<close>

text \<open>The candidates the loop runs over, and the configuration as another instance sees it.\<close>

definition candidates :: "RendezvousOwnership \<Rightarrow> InstanceInfo list \<Rightarrow> InstanceInfo list" where
  "candidates ro instances = (if region_filter ro instances = [] then instances else region_filter ro instances)"

definition seen_by :: "RendezvousOwnership \<Rightarrow> InstanceInfo list \<Rightarrow> string \<Rightarrow> string \<Rightarrow> RendezvousOwnership option" where
  "seen_by ro instances self region = Some (ro\<lparr>ro_m := Some \<lparr>ms_SelfID = self, ms_SelfRegion = region,
     ms_Instances = Inr instances, ms_Healthy = True\<rparr>\<rparr>)"

lemma candidates_set: "set (candidates ro instances) \<subseteq> set instances"
  by (auto simp: candidates_def region_filter_def)

lemma candidates_ne [simp]: "candidates ro instances = [] \<longleftrightarrow> instances = []"
  by (auto simp: candidates_def region_filter_def)

lemma IsOwner_best:
  assumes "instances \<noteq> []" "\<forall>i \<in> set instances. ii_ID i \<noteq> ''''" "self \<noteq> ''''"
    and "region_filter ro instances \<noteq> [] \<or> ro_globalFallback ro"
  shows "IsOwner (seen_by ro instances self region) key \<longleftrightarrow> best_of key (candidates ro instances) = self"
proof -
  have "best_of key (candidates ro instances) \<in> ii_ID ` set (candidates ro instances)"
    using assms(1) by (intro rendezvous.winner_in) simp
  then have "best_of key (candidates ro instances) \<noteq> ''''"
    using assms(2) candidates_set [of ro instances] by fastforce
  moreover have "region_filter (ro\<lparr>ro_m := x\<rparr>) instances = region_filter ro instances" for x
    by (simp add: region_filter_def)
  ultimately show ?thesis using assms
    by (cases "region_filter ro instances = []")
      (simp_all add: seen_by_def candidates_def best_of_def Let_def case_prod_beta)
qed

text \<open>C19 (agreement). When all instances work with the same list of instances (with non-empty
  identifiers), exactly one of them considers itself the owner of a key, so the local limits
  of the fallback are enforced by one instance per key. This needs a candidate in the
  configured region or the global fallback; without either every instance is an owner.\<close>

theorem rendezvous_unique_owner:
  assumes "instances \<noteq> []" "\<forall>i \<in> set instances. ii_ID i \<noteq> ''''"
    and "region_filter ro instances \<noteq> [] \<or> ro_globalFallback ro"
  shows "\<exists>!self. self \<in> ii_ID ` set instances \<and> IsOwner (seen_by ro instances self region) key"
proof -
  have "best_of key (candidates ro instances) \<in> ii_ID ` set (candidates ro instances)"
    using assms(1) by (intro rendezvous.winner_in) simp
  then have "best_of key (candidates ro instances) \<in> ii_ID ` set instances"
    using candidates_set [of ro instances] by auto
  moreover have "IsOwner (seen_by ro instances self region) key \<longleftrightarrow> best_of key (candidates ro instances) = self"
    if "self \<in> ii_ID ` set instances" for self
    using that assms by (intro IsOwner_best) auto
  ultimately show ?thesis by metis
qed

definition two_instances :: "InstanceInfo list" where
  "two_instances = [\<lparr>ii_ID = ''a'', ii_Region = ''eu'', ii_Weight = 1\<rparr>, \<lparr>ii_ID = ''b'', ii_Region = ''eu'', ii_Weight = 1\<rparr>]"

theorem rendezvous_unique_owner_witness:
  "\<exists>!self. self \<in> ii_ID ` set two_instances \<and>
     IsOwner (seen_by (NewRendezvousOwnership None ''eu'' False False) two_instances self ''eu'') ''k''"
  by (rule rendezvous_unique_owner)
    (simp_all add: two_instances_def region_filter_def NewRendezvousOwnership_def)

text \<open>C20 (minimal disruption). When an instance that does not own a key leaves, ownership of that key
  does not move: every remaining instance gives the same answer before and after.\<close>

theorem rendezvous_minimal_disruption:
  assumes "instances \<noteq> []" "\<forall>i \<in> set instances. ii_ID i \<noteq> ''''"
    and "region_filter ro instances \<noteq> [] \<or> ro_globalFallback ro"
    and "dead \<noteq> ''''" "\<not> IsOwner (seen_by ro instances dead region) key" "self \<noteq> dead" "self \<noteq> ''''"
  shows "IsOwner (seen_by ro (filter (\<lambda>i. ii_ID i \<noteq> dead) instances) self region') key
       = IsOwner (seen_by ro instances self region') key"
proof -
  let ?P = "\<lambda>i. ii_ID i \<noteq> dead" and ?c = "candidates ro instances"
  let ?is = "filter ?P instances"
  have d: "best_of key ?c \<noteq> dead" using IsOwner_best [OF assms(1,2,4,3)] assms(5) by auto
  have w: "best_of key ?c \<in> ii_ID ` set ?c" using assms(1) by (intro rendezvous.winner_in) simp
  have st: "best_of key (filter ?P ?c) = best_of key ?c"
    using assms(1) d by (intro rendezvous.winner_stable) auto
  have ne: "filter ?P ?c \<noteq> []" using w d by (auto simp: filter_empty_conv)
  have rf: "region_filter ro ?is = filter ?P (region_filter ro instances)"
    by (simp add: region_filter_def filter_filter conj_commute)
  have c: "candidates ro ?is = filter ?P ?c"
    using ne rf by (auto simp: candidates_def split: if_splits)
  have ne2: "?is \<noteq> []" using ne c by (metis candidates_ne)
  have ok: "region_filter ro ?is \<noteq> [] \<or> ro_globalFallback ro"
    using assms(3) ne rf by (auto simp: candidates_def split: if_splits)
  have ids: "\<forall>i \<in> set ?is. ii_ID i \<noteq> ''''" using assms(2) by simp
  show ?thesis
    by (simp add: IsOwner_best [OF ne2 ids assms(7) ok] IsOwner_best [OF assms(1,2,7,3)] c st)
qed

lemma three_owner_facts:
  "\<not> IsOwner (seen_by (NewRendezvousOwnership None ''eu'' False False)
      (two_instances @ [\<lparr>ii_ID = ''c'', ii_Region = ''us'', ii_Weight = 1\<rparr>]) ''c'' ''us'') ''k''"
  by code_simp

theorem rendezvous_minimal_disruption_witness:
  "IsOwner (seen_by (NewRendezvousOwnership None ''eu'' False False) (filter (\<lambda>i. ii_ID i \<noteq> ''c'')
      (two_instances @ [\<lparr>ii_ID = ''c'', ii_Region = ''us'', ii_Weight = 1\<rparr>])) ''a'' ''eu'') ''k''
   = IsOwner (seen_by (NewRendezvousOwnership None ''eu'' False False)
      (two_instances @ [\<lparr>ii_ID = ''c'', ii_Region = ''us'', ii_Weight = 1\<rparr>]) ''a'' ''eu'') ''k''"
  by (rule rendezvous_minimal_disruption [OF _ _ _ _ three_owner_facts])
    (simp_all add: two_instances_def region_filter_def NewRendezvousOwnership_def)

text \<open>The weight multiplies the hash modulo \<open>2 ^ 64\<close>, so a higher weight can lower a score.\<close>

lemma higher_weight_lower_score:
  "rendezvous_score ''k'' \<lparr>ii_ID = ''b'', ii_Region = '''', ii_Weight = 2\<rparr>
   < rendezvous_score ''k'' \<lparr>ii_ID = ''b'', ii_Region = '''', ii_Weight = 1\<rparr>"
  by code_simp

end
