(* ===== verification/Float64.thy ===== *)
theory Float64
  imports Complex_Main "HOL-Library.Log_Nat" Go_Base
begin

text \<open>
  IEEE 754 double precision as the service uses it. A finite \<^verbatim>\<open>float64\<close> is a real number;
  every operation is the exact one followed by \<open>fl64\<close>, rounding to the nearest number with a
  53-bit significand, ties to even. The exponent range is not modelled: the operands are
  64-bit integers, counts of seconds and quotients of them, which stay many orders of
  magnitude inside the range of normal numbers.
\<close>

section \<open>Rounding\<close>

type_synonym float64 = real

text \<open>The exponent of the leading binary digit of a positive number.\<close>

definition bexp :: "real \<Rightarrow> int" where
  "bexp x = (if 1 \<le> x then bitlen \<lfloor>x\<rfloor> - 1 else - bitlen (\<lceil>1 / x\<rceil> - 1))"

definition round_even :: "real \<Rightarrow> int" where
  "round_even x =
     (let f = \<lfloor>x\<rfloor>; d = x - of_int f
      in if d < 1 / 2 then f else if 1 / 2 < d then f + 1 else if even f then f else f + 1)"

definition ulp64 :: "real \<Rightarrow> real" where
  "ulp64 x = 2 powi (bexp \<bar>x\<bar> - 52)"

definition fl64 :: "real \<Rightarrow> float64" where
  "fl64 x = (if x = 0 then 0 else of_int (round_even (x / ulp64 x)) * ulp64 x)"

text \<open>Conversions: \<^verbatim>\<open>float64(n)\<close>; and \<^verbatim>\<open>int64(x)\<close>, which truncates, with the value the
  \<^verbatim>\<open>amd64\<close> instruction gives when the result does not fit.\<close>

definition float64_of :: "int64 \<Rightarrow> float64" where
  "float64_of n = fl64 (of_int n)"

definition trunc_real :: "real \<Rightarrow> int" where
  "trunc_real x = (if x < 0 then \<lceil>x\<rceil> else \<lfloor>x\<rfloor>)"

definition int64_of_float :: "float64 \<Rightarrow> int64" where
  "int64_of_float x = (if in_int64 (trunc_real x) then trunc_real x else min_int64)"

text \<open>\<^verbatim>\<open>Duration.Seconds\<close>: whole seconds plus the remainder as a fraction.\<close>

definition Seconds :: "duration \<Rightarrow> float64" where
  "Seconds d = fl64 (float64_of (quot64 d Second) + fl64 (float64_of (rem64 d Second) / 1000000000))"

section \<open>The contract of a rounding\<close>

text \<open>What bounds on floating-point state need: rounding is monotone and fixes the numbers it
  produces.\<close>

locale rounding =
  fixes rnd :: "real \<Rightarrow> real"
  assumes rnd_mono: "x \<le> y \<Longrightarrow> rnd x \<le> rnd y"
    and rnd_0: "rnd 0 = 0"
    and rnd_idem: "rnd (rnd x) = rnd x"
begin

lemma rnd_nonneg: "0 \<le> x \<Longrightarrow> 0 \<le> rnd x"
  using rnd_mono [of 0 x] by (simp add: rnd_0)

lemma rnd_nonpos: "x \<le> 0 \<Longrightarrow> rnd x \<le> 0"
  using rnd_mono [of x 0] by (simp add: rnd_0)

text \<open>A rounded difference stays between zero and its minuend.\<close>

lemma rnd_diff_bounds:
  "0 \<le> c \<Longrightarrow> c \<le> x \<Longrightarrow> rnd x = x \<Longrightarrow> 0 \<le> rnd (x - c) \<and> rnd (x - c) \<le> x"
  using rnd_mono [of "x - c" x] rnd_nonneg [of "x - c"] by simp

lemma rnd_add_ge: "0 \<le> d \<Longrightarrow> rnd x = x \<Longrightarrow> x \<le> rnd (x + d)"
  using rnd_mono [of x "x + d"] by simp

lemma rnd_min: "rnd x = x \<Longrightarrow> rnd y = y \<Longrightarrow> rnd (min x y) = min x y"
  by (simp add: min_def)

end

section \<open>Exponents\<close>

lemma bitlen_pos: "0 < n \<Longrightarrow> 0 < bitlen n"
  using bitlen_nonneg [of n] bitlen_eq_zero_iff [of n] by linarith

lemma bitlen_bounds_real:
  assumes "0 < (n::int)"
  shows "2 powi (bitlen n - 1) \<le> real_of_int n" and "real_of_int n < 2 powi (bitlen n)"
proof -
  have p: "0 < bitlen n" using assms by (rule bitlen_pos)
  then have "bitlen n - 1 = int (nat (bitlen n - 1))" and "bitlen n = int (nat (bitlen n))" by auto
  then have e: "(2::real) powi (bitlen n - 1) = 2 ^ nat (bitlen n - 1)"
    "(2::real) powi bitlen n = 2 ^ nat (bitlen n)"
    by (metis power_int_of_nat)+
  from bitlen_bounds [OF assms]
  have b: "2 ^ nat (bitlen n - 1) \<le> n" "n < 2 ^ nat (bitlen n)" by auto
  then show "2 powi (bitlen n - 1) \<le> real_of_int n"
    unfolding e by (metis of_int_le_iff of_int_numeral of_int_power)
  from b show "real_of_int n < 2 powi (bitlen n)"
    unfolding e by (metis of_int_less_iff of_int_numeral of_int_power)
qed

lemma bexp_bounds:
  assumes "0 < x"
  shows "2 powi bexp x \<le> x" and "x < 2 powi (bexp x + 1)"
proof -
  have "2 powi bexp x \<le> x \<and> x < 2 powi (bexp x + 1)"
  proof (cases "1 \<le> x")
    case True
    then have f: "0 < \<lfloor>x\<rfloor>" by simp
    then have "\<lfloor>x\<rfloor> < 2 ^ nat (bitlen \<lfloor>x\<rfloor>)" and p: "0 < bitlen \<lfloor>x\<rfloor>"
      using bitlen_bounds [OF f] bitlen_pos [OF f] by auto
    then have "x < 2 ^ nat (bitlen \<lfloor>x\<rfloor>)"
      by (metis floor_less_iff of_int_numeral of_int_power)
    then have "x < 2 powi bitlen \<lfloor>x\<rfloor>"
      using p by (metis int_nat_eq less_imp_le power_int_of_nat)
    with bitlen_bounds_real(1) [OF f] True show ?thesis
      by (auto simp: bexp_def intro: order_trans [OF _ of_int_floor_le])
  next
    case False
    define k where "k = bitlen (\<lceil>1 / x\<rceil> - 1)"
    have c: "0 < \<lceil>1 / x\<rceil> - 1" using False assms by (simp add: less_ceiling_iff field_simps)
    have "real_of_int (\<lceil>1 / x\<rceil> - 1) < 1 / x" by linarith
    with bitlen_bounds_real(1) [OF c] have l: "2 powi (k - 1) < 1 / x" by (simp add: k_def)
    have "0 < k" using bitlen_pos [OF c] by (simp add: k_def)
    from bitlen_bounds [OF c] have "\<lceil>1 / x\<rceil> \<le> 2 ^ nat k" by (simp add: k_def)
    then have "1 / x \<le> 2 ^ nat k"
      by (metis ceiling_le_iff of_int_numeral of_int_power)
    then have u: "1 / x \<le> 2 powi k" using \<open>0 < k\<close> by (metis int_nat_eq less_imp_le power_int_of_nat)
    have "2 powi (- k) \<le> x"
      using u assms by (simp add: power_int_minus field_simps)
    moreover have "x < 2 powi (- (k - 1))"
      unfolding power_int_minus using l assms by (simp add: field_simps)
    ultimately show ?thesis using False by (simp add: bexp_def k_def)
  qed
  then show "2 powi bexp x \<le> x" and "x < 2 powi (bexp x + 1)" by auto
qed

lemma powi_less_iff: "(2::real) powi m < 2 powi n \<longleftrightarrow> m < n"
  by (meson linorder_not_less one_less_numeral_iff order_less_imp_le power_int_increasing
      power_int_strict_increasing semiring_norm(76) one_le_numeral)

lemma powi_le_iff: "(2::real) powi m \<le> 2 powi n \<longleftrightarrow> m \<le> n"
  by (metis linorder_not_less powi_less_iff)

lemma powi_sum: "(2::real) powi (m + n) = 2 powi m * 2 powi n"
  by (simp add: power_int_add)

lemma bexp_mono:
  fixes x y :: real
  assumes "0 < x" "x \<le> y"
  shows "bexp x \<le> bexp y"
proof -
  have "(2::real) powi bexp x < 2 powi (bexp y + 1)"
    using bexp_bounds(1) [of x] bexp_bounds(2) [of y] assms by linarith
  then show ?thesis by (simp add: powi_less_iff)
qed

lemma ulp64_pos [simp]: "0 < ulp64 x"
  by (simp add: ulp64_def)

section \<open>Rounding to an integer\<close>

lemma round_even_of_int [simp]: "round_even (of_int n) = n"
  by (simp add: round_even_def)

lemma round_even_ge: "of_int n \<le> x \<Longrightarrow> n \<le> round_even x"
proof -
  assume "of_int n \<le> x"
  then have "n \<le> \<lfloor>x\<rfloor>" by (simp add: le_floor_iff)
  moreover have "\<lfloor>x\<rfloor> \<le> round_even x" by (simp add: round_even_def Let_def)
  ultimately show ?thesis by simp
qed

lemma round_even_le: "x \<le> of_int n \<Longrightarrow> round_even x \<le> n"
proof (cases "x = of_int n")
  case True
  then show ?thesis by simp
next
  case False
  assume "x \<le> of_int n"
  with False have "\<lfloor>x\<rfloor> < n" by (simp add: floor_less_iff)
  moreover have "round_even x \<le> \<lfloor>x\<rfloor> + 1" by (simp add: round_even_def Let_def)
  ultimately show ?thesis by simp
qed

lemma round_even_mono: "x \<le> y \<Longrightarrow> round_even x \<le> round_even y"
proof (cases "\<lfloor>x\<rfloor> = \<lfloor>y\<rfloor>")
  case True
  then show "x \<le> y \<Longrightarrow> ?thesis" by (auto simp: round_even_def Let_def)
next
  case False
  assume "x \<le> y"
  with False have "\<lfloor>x\<rfloor> + 1 \<le> \<lfloor>y\<rfloor>" using floor_mono [of x y] by linarith
  moreover have "x \<le> of_int (\<lfloor>x\<rfloor> + 1)" by (simp add: floor_correct less_imp_le)
  ultimately show ?thesis
    using round_even_le [of x "\<lfloor>x\<rfloor> + 1"] round_even_ge [of "\<lfloor>y\<rfloor>" y] by simp
qed

lemma round_even_uminus: "round_even (- x) = - round_even x"
proof (cases "x = of_int \<lfloor>x\<rfloor>")
  case True
  then show ?thesis by (metis of_int_minus round_even_of_int)
next
  case False
  then have "\<lfloor>- x\<rfloor> = - \<lfloor>x\<rfloor> - 1"
    by (simp add: floor_minus ceiling_altdef)
  then show ?thesis using False by (auto simp: round_even_def Let_def)
qed

section \<open>Properties of rounding to double precision\<close>

lemma fl64_uminus: "fl64 (- x) = - fl64 x"
  by (simp add: fl64_def ulp64_def round_even_uminus)

lemma fl64_0 [simp]: "fl64 0 = 0"
  by (simp add: fl64_def)

text \<open>The scaled significand of a positive number lies between $2^{52}$ and $2^{53}$.\<close>

lemma scaled_bounds:
  assumes "0 < x"
  shows "2 ^ 52 \<le> x / ulp64 x" and "x / ulp64 x < 2 ^ 53"
proof -
  have u: "ulp64 x = 2 powi bexp x / 2 ^ 52"
    using assms by (simp add: ulp64_def power_int_diff)
  have "(2::real) powi (bexp x + 1) = 2 * 2 powi bexp x" by (simp add: power_int_add_1)
  with bexp_bounds [OF assms] show "2 ^ 52 \<le> x / ulp64 x" and "x / ulp64 x < 2 ^ 53"
    unfolding u by (simp_all add: field_simps)
qed

lemma fl64_binade:
  assumes "0 < x"
  shows "2 powi bexp x \<le> fl64 x" and "fl64 x \<le> 2 powi (bexp x + 1)"
proof -
  have r: "2 ^ 52 \<le> round_even (x / ulp64 x)" "round_even (x / ulp64 x) \<le> 2 ^ 53"
    using scaled_bounds [OF assms] round_even_ge [of "2 ^ 52" "x / ulp64 x"]
      round_even_le [of "x / ulp64 x" "2 ^ 53"] by auto
  then have R: "(2::real) ^ 52 \<le> of_int (round_even (x / ulp64 x))"
    "of_int (round_even (x / ulp64 x)) \<le> (2::real) ^ 53"
    by (metis of_int_le_iff of_int_numeral of_int_power)+
  have u: "2 powi bexp x = 2 ^ 52 * ulp64 x" "2 powi (bexp x + 1) = 2 ^ 53 * ulp64 x"
    using assms by (simp_all add: ulp64_def power_int_diff power_int_add_1)
  show "2 powi bexp x \<le> fl64 x" and "fl64 x \<le> 2 powi (bexp x + 1)"
    using R assms unfolding u by (simp_all add: fl64_def mult_right_mono less_imp_le)
qed

lemma fl64_mono_pos:
  assumes "0 < x" "x \<le> y"
  shows "fl64 x \<le> fl64 y"
proof (cases "bexp x = bexp y")
  case True
  then have "ulp64 x = ulp64 y" using assms by (simp add: ulp64_def)
  moreover have "x / ulp64 y \<le> y / ulp64 y" using assms by (simp add: divide_right_mono less_imp_le)
  ultimately show ?thesis using assms
    by (simp add: fl64_def mult_right_mono round_even_mono less_imp_le)
next
  case False
  then have "bexp x + 1 \<le> bexp y" using bexp_mono [OF assms] by simp
  then have "(2::real) powi (bexp x + 1) \<le> 2 powi bexp y" by (simp add: powi_le_iff)
  then show ?thesis using fl64_binade(2) [of x] fl64_binade(1) [of y] assms by simp
qed

lemma fl64_pos: "0 < x \<Longrightarrow> 0 < fl64 x"
  using fl64_binade(1) [of x] by (meson less_le_trans zero_less_numeral zero_less_power_int)

lemma fl64_mono: "x \<le> y \<Longrightarrow> fl64 x \<le> fl64 y"
proof -
  assume xy: "x \<le> y"
  consider "0 < x" | "y < 0" | "x \<le> 0" "0 \<le> y" by linarith
  then show ?thesis
  proof cases
    case 1
    then show ?thesis using xy by (rule fl64_mono_pos)
  next
    case 2
    then show ?thesis using fl64_mono_pos [of "- y" "- x"] xy by (simp add: fl64_uminus)
  next
    case 3
    have "fl64 x \<le> 0" using fl64_pos [of "- x"] 3(1) by (cases "x = 0") (simp_all add: fl64_uminus)
    moreover have "0 \<le> fl64 y" using fl64_pos [of y] 3(2) by (cases "y = 0") simp_all
    ultimately show ?thesis by simp
  qed
qed

text \<open>A number with a significand of at most 53 bits is represented exactly.\<close>

lemma fl64_exact_pos:
  assumes "0 < n" "n \<le> 2 ^ 53" "x = of_int n * 2 powi k"
  shows "fl64 x = x"
proof -
  have x: "0 < x" using assms by simp
  have n: "real_of_int n \<le> 2 ^ 53" using assms(2) by (metis of_int_le_iff of_int_numeral of_int_power)
  have "(2::real) powi bexp x \<le> 2 ^ 53 * 2 powi k"
    using bexp_bounds(1) [OF x] n assms(3) by (meson mult_right_mono order_trans zero_le_numeral zero_le_power_int)
  also have "\<dots> = 2 powi (53 + k)" by (simp add: powi_sum)
  finally have e: "bexp x - 53 \<le> k" by (simp add: powi_le_iff)
  have u: "ulp64 x = 2 powi (bexp x - 52)" using x by (simp add: ulp64_def)
  have "\<exists>m. x / ulp64 x = of_int m"
  proof (cases "bexp x - 52 \<le> k")
    case True
    define j where "j = nat (k - (bexp x - 52))"
    have "k = int j + (bexp x - 52)" using True by (simp add: j_def)
    then have "(2::real) powi k = 2 ^ j * ulp64 x" unfolding u by (metis powi_sum power_int_of_nat)
    then have "of_int n * 2 powi k = of_int (n * 2 ^ j) * ulp64 x" by simp
    with assms(3) have "x = of_int (n * 2 ^ j) * ulp64 x" by (rule trans)
    then show ?thesis by (metis less_numeral_extra(3) nonzero_mult_div_cancel_right ulp64_pos)
  next
    case False
    then have k: "k = bexp x - 53" using e by simp
    have s: "2 ^ 52 \<le> x / ulp64 x" using scaled_bounds(1) [OF x] .
    have h: "(2::real) powi (b - 53) / 2 powi (b - 52) = 1 / 2" for b
      by (simp add: power_int_diff)
    have "x / ulp64 x = of_int n * (2 powi (bexp x - 53) / 2 powi (bexp x - 52))"
      using assms(3) k u by (metis times_divide_eq_right)
    then have "x / ulp64 x = of_int n / 2" unfolding h by simp
    with s n have "x / ulp64 x = of_int (2 ^ 52)" by simp
    then show ?thesis by blast
  qed
  then obtain m where m: "x / ulp64 x = of_int m" by blast
  then have "of_int m * ulp64 x = x" using ulp64_pos [of x]
    by (metis less_numeral_extra(3) nonzero_divide_eq_eq)
  with m x show ?thesis by (simp add: fl64_def)
qed

lemma fl64_exact:
  assumes "\<bar>n\<bar> \<le> 2 ^ 53"
  shows "fl64 (of_int n * 2 powi k) = of_int n * 2 powi k"
proof -
  consider "0 < n" | "n = 0" | "0 < - n" by linarith
  then show ?thesis
  proof cases
    case 1
    then show ?thesis using assms by (intro fl64_exact_pos [of n]) auto
  next
    case 2
    then show ?thesis by simp
  next
    case 3
    then have "fl64 (of_int (- n) * 2 powi k) = of_int (- n) * 2 powi k"
      using assms by (intro fl64_exact_pos [of "- n"]) auto
    then show ?thesis by (simp add: fl64_uminus)
  qed
qed

lemma fl64_idem_pos: "0 < x \<Longrightarrow> fl64 (fl64 x) = fl64 x"
proof -
  assume x: "0 < x"
  have "round_even (x / ulp64 x) \<le> 2 ^ 53" "2 ^ 52 \<le> round_even (x / ulp64 x)"
    using scaled_bounds [OF x] round_even_ge [of "2 ^ 52" "x / ulp64 x"]
      round_even_le [of "x / ulp64 x" "2 ^ 53"] by auto
  then have "fl64 (of_int (round_even (x / ulp64 x)) * 2 powi (bexp \<bar>x\<bar> - 52)) =
     of_int (round_even (x / ulp64 x)) * 2 powi (bexp \<bar>x\<bar> - 52)"
    by (intro fl64_exact) simp
  then show ?thesis using x by (simp add: fl64_def [of x] ulp64_def)
qed

lemma fl64_idem [simp]: "fl64 (fl64 x) = fl64 x"
proof -
  consider "0 < x" | "x = 0" | "0 < - x" by linarith
  then show ?thesis
  proof cases
    case 3
    then show ?thesis using fl64_idem_pos [of "- x"] by (simp add: fl64_uminus)
  qed (simp_all add: fl64_idem_pos)
qed

interpretation fl: rounding fl64
  by unfold_locales (simp_all add: fl64_mono)

lemma fl64_int: "\<bar>n\<bar> \<le> 2 ^ 53 \<Longrightarrow> fl64 (of_int n) = of_int n"
  using fl64_exact [of n 0] by simp

lemma float64_of_small: "\<bar>n\<bar> \<le> 2 ^ 53 \<Longrightarrow> float64_of n = of_int n"
  by (simp add: float64_of_def fl64_int)

lemma float64_of_mono: "m \<le> n \<Longrightarrow> float64_of m \<le> float64_of n"
  by (simp add: float64_of_def fl64_mono)

lemma float64_of_pos: "0 < n \<Longrightarrow> 0 < float64_of n"
  by (simp add: float64_of_def fl64_pos)

lemma fl64_float64_of [simp]: "fl64 (float64_of n) = float64_of n"
  by (simp add: float64_of_def)

section \<open>Rounding errors\<close>

definition unit_roundoff :: real where "unit_roundoff = 1 / 2 ^ 53"

lemma round_even_err: "\<bar>of_int (round_even x) - x\<bar> \<le> 1 / 2"
proof -
  have "of_int \<lfloor>x\<rfloor> \<le> x" "x < of_int \<lfloor>x\<rfloor> + 1" by linarith+
  then show ?thesis unfolding round_even_def Let_def abs_le_iff
    by (cases "x - of_int \<lfloor>x\<rfloor> < 1 / 2"; cases "1 / 2 < x - of_int \<lfloor>x\<rfloor>"; cases "even \<lfloor>x\<rfloor>") (simp_all; linarith)+
qed

lemma fl64_err_pos:
  assumes "0 < x"
  shows "\<bar>fl64 x - x\<bar> \<le> x * unit_roundoff"
proof -
  let ?u = "ulp64 x"
  have "?u \<noteq> 0" using ulp64_pos [of x] by linarith
  then have "fl64 x - x = (of_int (round_even (x / ?u)) - x / ?u) * ?u"
    using assms by (simp add: fl64_def field_simps)
  then have "\<bar>fl64 x - x\<bar> = \<bar>of_int (round_even (x / ?u)) - x / ?u\<bar> * ?u"
    using ulp64_pos [of x] by (simp only: abs_mult abs_of_pos)
  also have "\<dots> \<le> 1 / 2 * ?u" by (intro mult_right_mono round_even_err) (simp add: less_imp_le)
  also have "?u \<le> x / 2 ^ 52" using scaled_bounds(1) [OF assms] by (simp add: field_simps)
  finally show ?thesis by (simp add: unit_roundoff_def)
qed

lemma fl64_upper: "0 \<le> x \<Longrightarrow> fl64 x \<le> x * (1 + unit_roundoff)"
  using fl64_err_pos [of x] by (cases "x = 0") (auto simp: algebra_simps abs_le_iff)

lemma fl64_lower: "0 \<le> x \<Longrightarrow> x * (1 - unit_roundoff) \<le> fl64 x"
  using fl64_err_pos [of x] by (cases "x = 0") (auto simp: algebra_simps abs_le_iff)

lemma Seconds_split:
  assumes "0 \<le> d" "in_int64 d"
  shows "Seconds d = fl64 (of_int (d div 1000000000) + fl64 (of_int (d mod 1000000000) / 1000000000))"
proof -
  have q: "quot64 d Second = d div 1000000000" using assms by (simp add: quot64_nonneg Second_def)
  have "d div 1000000000 \<le> max_int64 div 1000000000" using assms(2) by (intro zdiv_mono1) (auto simp: in_int64_def)
  then have "\<bar>d div 1000000000\<bar> \<le> 2 ^ 53" using assms(1) by (simp add: max_int64_def)
  moreover have m: "rem64 d Second = d mod 1000000000"
    using assms(1) by (cases "d = 0") (simp_all add: rem64_def Second_def)
  moreover have "0 \<le> d mod 1000000000" "d mod 1000000000 < 1000000000" by simp_all
  then have "\<bar>d mod 1000000000\<bar> \<le> 2 ^ 53" by simp
  ultimately show ?thesis by (simp add: Seconds_def q m float64_of_small)
qed

lemma Seconds_bounds:
  assumes "0 \<le> d" "in_int64 d"
  shows "of_int d / 1000000000 * (1 - unit_roundoff)\<^sup>2 \<le> Seconds d"
    and "Seconds d \<le> of_int d / 1000000000 * (1 + unit_roundoff)\<^sup>2"
proof -
  define q where "q = real_of_int (d div 1000000000)"
  define f where "f = real_of_int (d mod 1000000000) / 1000000000"
  have u: "0 < unit_roundoff" "unit_roundoff < 1" by (simp_all add: unit_roundoff_def)
  have "d = 1000000000 * (d div 1000000000) + d mod 1000000000" by simp
  then have "real_of_int d = 1000000000 * real_of_int (d div 1000000000) + real_of_int (d mod 1000000000)"
    by (metis of_int_add of_int_mult of_int_numeral)
  then have d: "of_int d / 1000000000 = q + f" by (simp add: q_def f_def)
  have p: "0 \<le> q" "0 \<le> f" using assms(1) by (simp_all add: q_def f_def pos_imp_zdiv_nonneg_iff)
  have S: "Seconds d = fl64 (q + fl64 f)" using Seconds_split [OF assms] by (simp add: q_def f_def)
  have f: "f * (1 - unit_roundoff) \<le> fl64 f" "fl64 f \<le> f * (1 + unit_roundoff)"
    using fl64_lower [OF p(2)] fl64_upper [OF p(2)] by auto
  have "0 \<le> fl64 f" using f(1) p u by (meson diff_ge_0_iff_ge less_imp_le mult_nonneg_nonneg order_trans)
  then have n: "0 \<le> q + fl64 f" using p by simp
  have "(q + f) * (1 - unit_roundoff) \<le> q + fl64 f" using f(1) p u
    by (simp add: algebra_simps) (smt (verit) mult_nonneg_nonneg)
  then have "(q + f) * (1 - unit_roundoff) * (1 - unit_roundoff) \<le> (q + fl64 f) * (1 - unit_roundoff)"
    using u by (intro mult_right_mono) auto
  also have "\<dots> \<le> Seconds d" unfolding S by (rule fl64_lower [OF n])
  finally show "of_int d / 1000000000 * (1 - unit_roundoff)\<^sup>2 \<le> Seconds d"
    unfolding d by (simp add: power2_eq_square algebra_simps)
  have "q + fl64 f \<le> (q + f) * (1 + unit_roundoff)" using f(2) p u
    by (simp add: algebra_simps) (smt (verit) mult_nonneg_nonneg)
  then have "(q + fl64 f) * (1 + unit_roundoff) \<le> (q + f) * (1 + unit_roundoff) * (1 + unit_roundoff)"
    using u by (intro mult_right_mono) auto
  moreover have "Seconds d \<le> (q + fl64 f) * (1 + unit_roundoff)" unfolding S by (rule fl64_upper [OF n])
  ultimately show "Seconds d \<le> of_int d / 1000000000 * (1 + unit_roundoff)\<^sup>2"
    unfolding d by (simp add: power2_eq_square algebra_simps)
qed

lemma Seconds_pos: "0 < d \<Longrightarrow> in_int64 d \<Longrightarrow> 0 < Seconds d"
proof -
  assume d: "0 < d" "in_int64 d"
  have "0 < of_int d / 1000000000 * (1 - unit_roundoff)\<^sup>2" using d by (simp add: unit_roundoff_def)
  with Seconds_bounds(1) [of d] d show ?thesis by linarith
qed

text \<open>Taking an integer from a larger count below \<open>2 ^ 53\<close> is exact.\<close>

lemma fl64_scaled:
  assumes "fl64 x = x" "0 < x"
  shows "x = of_int (round_even (x / ulp64 x)) * 2 powi (bexp x - 52)"
proof -
  have "fl64 x = of_int (round_even (x / ulp64 x)) * ulp64 x"
    using assms(2) by (simp only: fl64_def less_imp_neq [symmetric] if_False)
  moreover have "ulp64 x = 2 powi (bexp x - 52)" using assms(2) by (simp only: ulp64_def abs_of_pos)
  ultimately show ?thesis using assms(1) by metis
qed

lemma sub_scaled:
  fixes x :: real
  assumes "x = of_int m * 2 powi (- int j)" "of_int c \<le> x" "0 \<le> c" "m \<le> 2 ^ 53"
  shows "fl64 (x - of_int c) = x - of_int c"
proof -
  have p: "(2::real) powi (- int j) = inverse (2 ^ j)" by (simp add: power_int_minus)
  have "real_of_int (c * 2 ^ j) * 2 powi (- int j) = of_int c" unfolding p by simp
  with assms(1) have d: "x - of_int c = of_int (m - c * 2 ^ j) * 2 powi (- int j)"
    by (simp only: of_int_diff left_diff_distrib)
  then have "real_of_int (m - c * 2 ^ j) = (x - of_int c) * 2 ^ j" unfolding p by simp
  also have "0 \<le> \<dots>" using assms(2) by simp
  finally have "0 \<le> m - c * 2 ^ j" by (simp only: of_int_0_le_iff)
  moreover have "0 \<le> c * 2 ^ j" using assms(3) by simp
  ultimately have "\<bar>m - c * 2 ^ j\<bar> \<le> 2 ^ 53" using assms(4) by linarith
  from fl64_exact [OF this, of "- int j"] show ?thesis unfolding d .
qed

lemma fl64_sub_exact:
  assumes "fl64 x = x" "of_int c \<le> x" "0 \<le> c" "x < 2 ^ 53"
  shows "fl64 (x - of_int c) = x - of_int c"
proof (cases "0 < x")
  case True
  have "(2::real) powi bexp x \<le> x" using bexp_bounds(1) [OF True] .
  with assms(4) have "(2::real) powi bexp x < 2 powi 53" by simp
  then have "bexp x < 53" by (rule powi_less_iff [THEN iffD1])
  then have e: "bexp x - 52 = - int (nat (52 - bexp x))" by simp
  have m: "round_even (x / ulp64 x) \<le> 2 ^ 53"
    using scaled_bounds(2) [OF True] by (intro round_even_le) simp
  from fl64_scaled [OF assms(1) True] have "x = of_int (round_even (x / ulp64 x)) * 2 powi (- int (nat (52 - bexp x)))"
    unfolding e .
  then show ?thesis using assms(2,3) m by (rule sub_scaled)
next
  case False
  have "0 \<le> real_of_int c" using assms(3) by simp
  then have "x = 0" "real_of_int c = 0" using False assms(2) by linarith+
  then show ?thesis by simp
qed

end
