(* ===== verification/Degrade.thy ===== *)
theory Degrade
  imports Membership Float64
begin

text \<open>
  \<^verbatim>\<open>core/mode.go\<close>: the controller that switches the operating mode on the health of the store and
  of the membership. One update is one step; its arguments are the clock reading, what
  \<^verbatim>\<open>redis.Healthy\<close> returned (\<^term>\<open>None\<close> for a nil client) and what the membership shows
  (\<^term>\<open>None\<close> for a nil membership). The logger's calls are returned as a list.
\<close>

section \<open>State\<close>

datatype OperatingMode = ModeNormal | ModeDegraded | ModeEmergency

record DegradeThresholds =
  dt_RedisUnhealthyFor :: duration
  dt_MembershipUnhealthy :: duration
  dt_ErrorRateWindow :: duration

record DegradeController =
  dc_mode :: OperatingMode
  dc_thresholds :: DegradeThresholds
  dc_region :: string
  dc_requireQuorum :: bool
  dc_quorumFraction :: float64
  dc_lastRedisHealthy :: int64
  dc_lastMshipHealthy :: int64
  dc_logger :: bool
  dc_lastMode :: OperatingMode

definition NewDegradeController :: "time \<Rightarrow> DegradeThresholds \<Rightarrow> string \<Rightarrow> bool \<Rightarrow> float64 \<Rightarrow> DegradeController" where
  "NewDegradeController now th region requireQuorum quorumFraction =
     (let th = (if dt_RedisUnhealthyFor th = 0 then th\<lparr>dt_RedisUnhealthyFor := 500 * Millisecond\<rparr> else th);
          th = (if dt_MembershipUnhealthy th = 0 then th\<lparr>dt_MembershipUnhealthy := 2 * Second\<rparr> else th);
          quorumFraction = (if quorumFraction = 0 then 1 / 2 else quorumFraction)
      in \<lparr>dc_mode = ModeNormal, dc_thresholds = th, dc_region = region, dc_requireQuorum = requireQuorum,
          dc_quorumFraction = quorumFraction, dc_lastRedisHealthy = UnixNano now,
          dc_lastMshipHealthy = UnixNano now, dc_logger = False, dc_lastMode = ModeNormal\<rparr>)"

fun SetLogger :: "DegradeController option \<Rightarrow> bool \<Rightarrow> DegradeController option" where
  "SetLogger None l = None"
| "SetLogger (Some dc) l = Some (dc\<lparr>dc_logger := l\<rparr>)"

fun Mode :: "DegradeController option \<Rightarrow> OperatingMode" where
  "Mode None = ModeNormal"
| "Mode (Some dc) = dc_mode dc"

fun modeLabel :: "OperatingMode \<Rightarrow> string" where
  "modeLabel ModeDegraded = ''degraded''"
| "modeLabel ModeEmergency = ''emergency''"
| "modeLabel ModeNormal = ''normal''"

section \<open>Quorum\<close>

text \<open>The result: instances in the region, all instances, and whether the quorum is met.\<close>

definition in_region :: "DegradeController \<Rightarrow> InstanceInfo list \<Rightarrow> int" where
  "in_region dc instances = int (length (filter (\<lambda>i. ii_Region i = dc_region dc) instances))"

definition quorum_required :: "DegradeController \<Rightarrow> int \<Rightarrow> int" where
  "quorum_required dc n =
     (let required = int64_of_float (of_int \<lceil>fl64 (float64_of n * dc_quorumFraction dc)\<rceil>)
      in if required < 1 then 1 else required)"

fun RegionStatus :: "DegradeController option \<Rightarrow> Membership option \<Rightarrow> int \<times> int \<times> bool" where
  "RegionStatus None mship = (0, 0, False)"
| "RegionStatus (Some dc) None = (0, 0, \<not> dc_requireQuorum dc)"
| "RegionStatus (Some dc) (Some m) =
     (if \<not> dc_requireQuorum dc
      then (case ms_Instances m of
              Inl err \<Rightarrow> (0, 0, True)
            | Inr instances \<Rightarrow> (in_region dc instances, int (length instances), True))
      else (case ms_Instances m of
              Inl err \<Rightarrow> (0, 0, False)
            | Inr instances \<Rightarrow>
                let inRegion = in_region dc instances; tot = int (length instances) in
                if tot = 0 then (inRegion, tot, False)
                else (inRegion, tot, inRegion \<ge> quorum_required dc tot)))"

section \<open>Update\<close>

definition mode_of_ages :: "DegradeThresholds \<Rightarrow> duration \<Rightarrow> duration \<Rightarrow> OperatingMode" where
  "mode_of_ages th redisAge mshipAge =
     (if redisAge \<ge> dt_RedisUnhealthyFor th
      then if mshipAge \<ge> dt_MembershipUnhealthy th then ModeEmergency else ModeDegraded
      else ModeNormal)"

definition mship_ok :: "DegradeController \<Rightarrow> Membership option \<Rightarrow> bool" where
  "mship_ok dc mship =
     (let mshipHealthy = (case mship of None \<Rightarrow> True | Some m \<Rightarrow> ms_Healthy m) in
      if dc_requireQuorum dc
      then (case RegionStatus (Some dc) mship of (_, _, ok) \<Rightarrow> if \<not> ok then False else mshipHealthy)
      else mshipHealthy)"

fun Degrade_Update ::
    "time \<Rightarrow> bool option \<Rightarrow> Membership option \<Rightarrow> DegradeController option
      \<Rightarrow> DegradeController option \<times> (string \<times> string \<times> int64) list" where
  "Degrade_Update now redis mship None = (None, [])"
| "Degrade_Update now redis mship (Some dc) =
     (let redisHealthy = (case redis of None \<Rightarrow> True | Some h \<Rightarrow> h);
          mshipHealthy = mship_ok dc mship;
          dc = (if redisHealthy then dc\<lparr>dc_lastRedisHealthy := UnixNano now\<rparr> else dc);
          dc = (if mshipHealthy then dc\<lparr>dc_lastMshipHealthy := UnixNano now\<rparr> else dc);
          redisAge = time_Sub now (time_Unix0 (dc_lastRedisHealthy dc));
          mshipAge = time_Sub now (time_Unix0 (dc_lastMshipHealthy dc));
          mode = mode_of_ages (dc_thresholds dc) redisAge mshipAge;
          dc = dc\<lparr>dc_mode := mode\<rparr>;
          prev = dc_lastMode dc
      in if prev \<noteq> mode
         then (Some (dc\<lparr>dc_lastMode := mode\<rparr>),
               if dc_logger dc then [(modeLabel prev, modeLabel mode, UnixNano now)] else [])
         else (Some dc, []))"

section \<open>Runs of the health loop\<close>

text \<open>A tick of the loop: when it ran and what it observed.\<close>

type_synonym tick = "time \<times> bool option \<times> Membership option"

definition dc_tick :: "tick \<Rightarrow> DegradeController \<Rightarrow> DegradeController" where
  "dc_tick x dc = (case x of (t, redis, mship) \<Rightarrow> the (fst (Degrade_Update t redis mship (Some dc))))"

definition redis_ok :: "tick \<Rightarrow> bool" where
  "redis_ok x = (case x of (t, redis, mship) \<Rightarrow> (case redis of None \<Rightarrow> True | Some h \<Rightarrow> h))"

definition tick_mship_ok :: "DegradeController \<Rightarrow> tick \<Rightarrow> bool" where
  "tick_mship_ok dc x = (case x of (t, redis, mship) \<Rightarrow> mship_ok dc mship)"

text \<open>The last time a run saw a condition hold; the start counts.\<close>

definition last_seen :: "time \<Rightarrow> (tick \<Rightarrow> bool) \<Rightarrow> tick list \<Rightarrow> time" where
  "last_seen start P xs = foldl (\<lambda>s x. if P x then fst x else s) start xs"

lemma last_seen_snoc [simp]: "last_seen s P (xs @ [x]) = (if P x then fst x else last_seen s P xs)"
  by (simp add: last_seen_def)

definition int64_nanos :: "time \<Rightarrow> bool" where
  "int64_nanos t \<longleftrightarrow> in_int64 (t - unix_epoch)"

lemma time_Unix0_UnixNano: "int64_nanos t \<Longrightarrow> time_Unix0 (UnixNano t) = t"
  by (simp add: int64_nanos_def time_Unix0_def UnixNano_def)

lemma last_seen_nanos:
  "int64_nanos s \<Longrightarrow> (\<And>x. x \<in> set xs \<Longrightarrow> int64_nanos (fst x)) \<Longrightarrow> int64_nanos (last_seen s P xs)"
  by (induction xs rule: rev_induct) (auto simp: last_seen_def)

text \<open>What never changes in a run.\<close>

definition same_config :: "DegradeController \<Rightarrow> DegradeController \<Rightarrow> bool" where
  "same_config dc dc' \<longleftrightarrow> dc_thresholds dc' = dc_thresholds dc \<and> dc_region dc' = dc_region dc
     \<and> dc_requireQuorum dc' = dc_requireQuorum dc \<and> dc_quorumFraction dc' = dc_quorumFraction dc"

lemma RegionStatus_config: "same_config dc dc' \<Longrightarrow> RegionStatus (Some dc') m = RegionStatus (Some dc) m"
  by (cases m) (simp_all add: same_config_def in_region_def quorum_required_def Let_def split: sum.split)

lemma mship_ok_config: "same_config dc dc' \<Longrightarrow> mship_ok dc' m = mship_ok dc m"
  using RegionStatus_config [of dc dc' m] by (simp add: mship_ok_def same_config_def)

lemma dc_tick_fields:
  shows "same_config dc (dc_tick x dc)"
    and "dc_lastRedisHealthy (dc_tick x dc) = (if redis_ok x then UnixNano (fst x) else dc_lastRedisHealthy dc)"
    and "dc_lastMshipHealthy (dc_tick x dc) = (if tick_mship_ok dc x then UnixNano (fst x) else dc_lastMshipHealthy dc)"
    and "dc_mode (dc_tick x dc) = mode_of_ages (dc_thresholds dc)
       (time_Sub (fst x) (time_Unix0 (dc_lastRedisHealthy (dc_tick x dc))))
       (time_Sub (fst x) (time_Unix0 (dc_lastMshipHealthy (dc_tick x dc))))"
  by (cases x; simp add: dc_tick_def same_config_def Let_def redis_ok_def tick_mship_ok_def split: option.split)+

lemma dc_run_fields:
  assumes "int64_nanos start" "dc_lastRedisHealthy dc = UnixNano start" "dc_lastMshipHealthy dc = UnixNano start"
  shows "same_config dc (fold dc_tick xs dc)
    \<and> dc_lastRedisHealthy (fold dc_tick xs dc) = UnixNano (last_seen start redis_ok xs)
    \<and> dc_lastMshipHealthy (fold dc_tick xs dc) = UnixNano (last_seen start (tick_mship_ok dc) xs)"
proof (induction xs rule: rev_induct)
  case Nil
  then show ?case using assms by (simp add: same_config_def last_seen_def)
next
  case (snoc x xs)
  let ?d = "fold dc_tick xs dc"
  have "tick_mship_ok ?d x = tick_mship_ok dc x"
    using snoc by (simp add: tick_mship_ok_def mship_ok_config case_prod_beta)
  moreover have "same_config dc (dc_tick x ?d)"
    using snoc dc_tick_fields(1) [of ?d x] by (simp add: same_config_def)
  ultimately show ?case using snoc dc_tick_fields(2,3) [of x ?d] by simp
qed

section \<open>Properties\<close>


definition zero_thresholds :: DegradeThresholds where
  "zero_thresholds = \<lparr>dt_RedisUnhealthyFor = 0, dt_MembershipUnhealthy = 0, dt_ErrorRateWindow = 0\<rparr>"

definition sample_dc :: DegradeController where
  "sample_dc = NewDegradeController (unix_epoch + 5) zero_thresholds ''eu'' False 0"

definition sample_ticks :: "tick list" where
  "sample_ticks = [(unix_epoch + 5, Some True, None)]"

definition late_tick :: tick where
  "late_tick = (unix_epoch + 600000005, Some False, None)"

lemma sample_times: "int64_nanos (unix_epoch + 5)" "int64_nanos (unix_epoch + 600000005)"
  by (simp_all add: int64_nanos_def int64_bounds)


text \<open>One tick that finds the store healthy ends degradation, whatever happened before,
  and the change is logged once when a logger is set.\<close>

theorem degrade_recovers:
  assumes "int64_nanos now" "0 < dt_RedisUnhealthyFor (dc_thresholds dc)"
    and "Degrade_Update now (Some True) mship (Some dc) = (dc', logs)"
  shows "Mode dc' = ModeNormal \<and>
    logs = (if dc_logger dc \<and> dc_lastMode dc \<noteq> ModeNormal then [(modeLabel (dc_lastMode dc), ''normal'', UnixNano now)] else [])"
proof -
  have "time_Sub now (time_Unix0 (UnixNano now)) = 0"
    by (simp add: time_Unix0_UnixNano [OF assms(1)] time_Sub_def int64_bounds)
  with assms(2,3) show ?thesis by (auto simp: Let_def mode_of_ages_def split: if_splits)
qed

theorem degrade_recovers_witness:
  "Mode (fst (Degrade_Update (unix_epoch + 600000005) (Some True) None (Some (sample_dc\<lparr>dc_lastMode := ModeDegraded\<rparr>)))) = ModeNormal"
  using degrade_recovers [OF sample_times(2), of "sample_dc\<lparr>dc_lastMode := ModeDegraded\<rparr>" None, OF _ prod.collapse [symmetric]]
  by (simp add: sample_dc_def zero_thresholds_def NewDegradeController_def Let_def Millisecond_def del: Degrade_Update.simps)

lemma quorum_required_half:
  assumes "0 \<le> n" "n \<le> 2 ^ 53" "dc_quorumFraction dc = 1 / 2"
  shows "quorum_required dc n = max 1 ((n + 1) div 2)"
proof -
  have e: "float64_of n = of_int n" using assms(1,2) by (simp add: float64_of_small)
  have "fl64 (of_int n * 2 powi (- 1)) = of_int n * 2 powi (- 1)" using assms(1,2) by (intro fl64_exact) auto
  then have f: "fl64 (of_int n * (1 / 2)) = of_int n / 2" by simp
  have c: "\<lceil>real_of_int n / 2\<rceil> = (n + 1) div 2"
    by (rule ceiling_unique; simp add: field_simps; linarith)
  have "in_int64 ((n + 1) div 2)" using assms(1,2) by (auto simp: int64_bounds)
  then have "int64_of_float (of_int \<lceil>fl64 (of_int n * (1 / 2))\<rceil>) = (n + 1) div 2"
    unfolding f c by (simp add: int64_of_float_def trunc_real_def)
  then show ?thesis unfolding quorum_required_def assms(3) e Let_def by (simp add: max_def)
qed

text \<open>With the default fraction one half, the regional quorum is met exactly when at least one
  instance, and at least half of all known instances, are in the region: the floating-point
  product and ceiling of the code are exact.\<close>

theorem quorum_default_half:
  assumes "ms_Instances m = Inr instances" "int (length instances) \<le> 2 ^ 53"
    and "dc_requireQuorum dc" "dc_quorumFraction dc = 1 / 2"
  shows "RegionStatus (Some dc) (Some m) =
    (let k = in_region dc instances; n = int (length instances) in (k, n, 1 \<le> k \<and> n \<le> 2 * k))"
proof -
  have "in_region dc instances \<le> int (length instances)" by (simp add: in_region_def)
  moreover have "max 1 ((n + 1) div 2) \<le> k \<longleftrightarrow> 1 \<le> k \<and> n \<le> 2 * k" for n k :: int by auto
  ultimately show ?thesis using assms quorum_required_half [of "int (length instances)" dc]
    by (auto simp: Let_def)
qed

theorem quorum_default_half_witness:
  "RegionStatus (Some (sample_dc\<lparr>dc_requireQuorum := True\<rparr>))
     (Some \<lparr>ms_SelfID = ''a'', ms_SelfRegion = ''eu'', ms_Instances = Inr two_instances, ms_Healthy = True\<rparr>) =
   (let k = in_region (sample_dc\<lparr>dc_requireQuorum := True\<rparr>) two_instances;
        n = int (length two_instances) in (k, n, 1 \<le> k \<and> n \<le> 2 * k))"
  by (rule quorum_default_half)
    (simp_all add: two_instances_def sample_dc_def zero_thresholds_def NewDegradeController_def Let_def)

end
