(* ===== verification/Window_Counter.thy ===== *)
theory Window_Counter
  imports Go_Base
begin

text \<open>
  The contract that the two fixed-window counters of the program share, the one of the store
  (\<^verbatim>\<open>execFixedWindowLocked\<close>) and the local one of the fallback (\<^verbatim>\<open>AllowFixedWindow\<close>), and the bound
  on what they admit, proved once from the contract. The theory also runs sequences of
  operations and collects their results.
\<close>

section \<open>Runs\<close>

fun run_ops :: "('op \<Rightarrow> 's \<Rightarrow> 'r \<times> 's) \<Rightarrow> 'op list \<Rightarrow> 's \<Rightarrow> ('op \<times> 'r) list \<times> 's" where
  "run_ops step [] s = ([], s)"
| "run_ops step (op # ops) s =
     (let (r, s1) = step op s; (rs, s2) = run_ops step ops s1 in ((op, r) # rs, s2))"

lemma run_ops_Cons:
  "fst (run_ops step (op # ops) s) = (op, fst (step op s)) # fst (run_ops step ops (snd (step op s)))"
  "snd (run_ops step (op # ops) s) = snd (run_ops step ops (snd (step op s)))"
  by (simp_all add: case_prod_beta Let_def)

lemma run_ops_append:
  "run_ops step (xs @ ys) s =
     (fst (run_ops step xs s) @ fst (run_ops step ys (snd (run_ops step xs s))), snd (run_ops step ys (snd (run_ops step xs s))))"
  by (induction xs arbitrary: s) (simp_all add: case_prod_beta Let_def)

section \<open>Calls\<close>

text \<open>A fixed-window call: key, limit, window, cost and the reading of the clock.\<close>

record wcall =
  wc_key :: string
  wc_limit :: int64
  wc_window :: duration
  wc_cost :: int64
  wc_now :: time

definition wc_start :: "wcall \<Rightarrow> time" where
  "wc_start c = time_Truncate (wc_now c) (wc_window c)"

text \<open>The cost already used in a window, given what is stored for the key.\<close>

definition used_in :: "(time \<times> int64) option \<Rightarrow> time \<Rightarrow> int64" where
  "used_in stored w = (case stored of None \<Rightarrow> 0 | Some (ws, u) \<Rightarrow> if ws = w then u else 0)"

text \<open>The cost a run admitted on a key in one window.\<close>

definition spent :: "('op \<Rightarrow> wcall option) \<Rightarrow> string \<Rightarrow> time \<Rightarrow> ('op \<times> bool) list \<Rightarrow> int" where
  "spent call k w rs = sum_list (map (\<lambda>(op, ok). case call op of None \<Rightarrow> 0
      | Some c \<Rightarrow> if ok \<and> wc_key c = k \<and> wc_start c = w then wc_cost c else 0) rs)"

text \<open>Well-behaved traffic on a key: one rule, a clock that does not run backwards, and costs
  that cannot overflow the counter.\<close>

definition calm :: "('op \<Rightarrow> wcall option) \<Rightarrow> string \<Rightarrow> int64 \<Rightarrow> duration \<Rightarrow> 'op list \<Rightarrow> bool" where
  "calm call k L W ops \<longleftrightarrow>
     (\<forall>op \<in> set ops. case call op of None \<Rightarrow> True | Some c \<Rightarrow> wc_key c = k \<longrightarrow>
        wc_limit c = L \<and> wc_window c = W \<and> wc_cost c \<le> max_int64 - L)
     \<and> sorted (map wc_now (filter (\<lambda>c. wc_key c = k) (List.map_filter call ops)))"

section \<open>The contract\<close>

locale window_counter =
  fixes get :: "'s \<Rightarrow> string \<Rightarrow> (time \<times> int64) option"
    and step :: "'op \<Rightarrow> 's \<Rightarrow> bool \<times> 's"
    and call :: "'op \<Rightarrow> wcall option"
  assumes frame: "(\<And>c. call op = Some c \<Longrightarrow> wc_key c \<noteq> k) \<Longrightarrow> get (snd (step op s)) k = get s k"
    and hit: "call op = Some c \<Longrightarrow> 0 < wc_window c \<Longrightarrow> step op s = (a, s') \<Longrightarrow>
      (\<not> a \<and> get s' (wc_key c) = get s (wc_key c)) \<or>
      (0 < wc_cost c \<and> (let u = wrap64 (used_in (get s (wc_key c)) (wc_start c) + wc_cost c) in
         a = (u \<le> wc_limit c) \<and>
         get s' (wc_key c) = Some (wc_start c, if a then u else used_in (get s (wc_key c)) (wc_start c))))"
begin

text \<open>What is left of the limit in a window.\<close>

definition left :: "'s \<Rightarrow> string \<Rightarrow> int64 \<Rightarrow> time \<Rightarrow> int" where
  "left s k L w = L - used_in (get s k) w"

definition sane :: "'s \<Rightarrow> string \<Rightarrow> int64 \<Rightarrow> bool" where
  "sane s k L \<longleftrightarrow> (\<forall>ws u. get s k = Some (ws, u) \<longrightarrow> 0 \<le> u \<and> u \<le> L)"

lemma sane_used: "sane s k L \<Longrightarrow> 0 \<le> L \<Longrightarrow> 0 \<le> used_in (get s k) w \<and> used_in (get s k) w \<le> L"
  by (auto simp: sane_def used_in_def split: option.splits)

text \<open>One call on the key: it is refused, or it fits and is counted; either way the
  rest of the limit of its window drops by what was admitted.\<close>

lemma hit_step:
  assumes "call op = Some c" "wc_key c = k" "wc_limit c = L" "wc_window c = W" "0 < W" "0 \<le> L" "L \<le> max_int64"
    "wc_cost c \<le> max_int64 - L" "sane s k L" "step op s = (a, s')"
  shows "sane s' k L" and "left s' k L (wc_start c) = left s k L (wc_start c) - (if a then wc_cost c else 0)"
    and "a \<Longrightarrow> 0 < wc_cost c" and "get s' k = get s k \<or> (\<exists>u. get s' k = Some (wc_start c, u))"
proof -
  let ?u = "used_in (get s k) (wc_start c)"
  have u: "0 \<le> ?u" "?u \<le> L" using sane_used [OF assms(9,6)] by auto
  have w: "0 < wc_cost c \<Longrightarrow> wrap64 (?u + wc_cost c) = ?u + wc_cost c"
    using u assms(8) by (intro wrap64_id) (auto simp: int64_bounds)
  have r: "(\<not> a \<and> get s' k = get s k) \<or> (0 < wc_cost c \<and> a = (?u + wc_cost c \<le> L) \<and>
         get s' k = Some (wc_start c, if a then ?u + wc_cost c else ?u))"
    using hit [OF assms(1) _ assms(10)] assms(2-5) w by (auto simp: Let_def)
  then show "sane s' k L" using assms(9) u by (auto simp: sane_def)
  show "left s' k L (wc_start c) = left s k L (wc_start c) - (if a then wc_cost c else 0)"
    using r by (auto simp: left_def used_in_def)
  show "a \<Longrightarrow> 0 < wc_cost c" using r by auto
  show "get s' k = get s k \<or> (\<exists>u. get s' k = Some (wc_start c, u))" using r by auto
qed

lemma spent_later:
  assumes "\<And>op c. op \<in> set ops \<Longrightarrow> call op = Some c \<Longrightarrow> wc_key c = k \<Longrightarrow> w < wc_start c"
  shows "spent call k w (fst (run_ops step ops s)) = 0"
  using assms
proof (induction ops arbitrary: s)
  case (Cons op ops)
  have "case call op of None \<Rightarrow> True | Some c \<Rightarrow> wc_key c = k \<longrightarrow> w < wc_start c"
    using Cons.prems [of op] by (auto split: option.splits)
  moreover have "spent call k w (fst (run_ops step ops (snd (step op s)))) = 0"
    using Cons.prems by (intro Cons.IH) auto
  ultimately show ?case by (auto simp: run_ops_Cons spent_def simp del: run_ops.simps split: option.splits)
qed (simp add: spent_def)

lemma calm_Cons: "calm call k L W (op # ops) \<Longrightarrow> calm call k L W ops"
  by (auto simp: calm_def map_filter_simps split: option.splits if_splits)

lemma calm_later:
  assumes "calm call k L W (op # ops)" "call op = Some c" "wc_key c = k" "0 < W"
    and "op' \<in> set ops" "call op' = Some c'" "wc_key c' = k"
  shows "wc_start c \<le> wc_start c'"
proof -
  have "c' \<in> set (List.map_filter call ops)" using assms(5,6) by (force simp: List.map_filter_def)
  then have "wc_now c \<le> wc_now c'" using assms(1-3,7) by (auto simp: calm_def map_filter_simps)
  moreover have "wc_window c = W" "wc_window c' = W" using assms by (auto simp: calm_def split: option.splits)
  ultimately show ?thesis using assms(4) by (simp add: wc_start_def time_Truncate_mono)
qed

lemma spent_bound:
  assumes "calm call k L W ops" "0 < W" "0 \<le> L" "L \<le> max_int64" "sane s k L"
    and "\<And>op c ws u. op \<in> set ops \<Longrightarrow> call op = Some c \<Longrightarrow> wc_key c = k \<Longrightarrow> get s k = Some (ws, u) \<Longrightarrow> ws \<le> wc_start c"
  shows "spent call k w (fst (run_ops step ops s)) \<le> left s k L w"
  using assms
proof (induction ops arbitrary: s)
  case Nil
  then show ?case using sane_used [of s k L w] by (simp add: spent_def left_def)
next
  case (Cons op ops)
  obtain a s' where st: "step op s = (a, s')" by fastforce
  note cl = calm_Cons [OF Cons.prems(1)]
  show ?case
  proof (cases "\<exists>c. call op = Some c \<and> wc_key c = k")
    case False
    then have g: "get s' k = get s k" using frame [of op k s] st by auto
    have mono: "ws \<le> wc_start c'" if "op' \<in> set ops" "call op' = Some c'" "wc_key c' = k" "get s' k = Some (ws, u)"
      for op' c' ws u
      using that Cons.prems(6) [of op' c' ws u] g by simp
    have "sane s' k L" using Cons.prems(5) g by (simp add: sane_def)
    then have "spent call k w (fst (run_ops step ops s')) \<le> left s' k L w"
      using cl Cons.prems(2-4) mono by (intro Cons.IH) auto
    with False g st show ?thesis
      by (auto simp: run_ops_Cons spent_def left_def simp del: run_ops.simps split: option.splits)
  next
    case True
    then obtain c where c: "call op = Some c" "wc_key c = k" by blast
    have p: "wc_limit c = L" "wc_window c = W" "wc_cost c \<le> max_int64 - L"
      using Cons.prems(1) c by (auto simp: calm_def)
    note h = hit_step [OF c p(1,2) Cons.prems(2-4) p(3) Cons.prems(5) st]
    have mono: "ws \<le> wc_start c'" if "op' \<in> set ops" "call op' = Some c'" "wc_key c' = k" "get s' k = Some (ws, u)"
      for op' c' ws u
      using h(4) that calm_later [OF Cons.prems(1) c Cons.prems(2)] Cons.prems(6) [of op' c' ws u] by auto
    have IH: "spent call k w (fst (run_ops step ops s')) \<le> left s' k L w"
      using cl Cons.prems h(1) mono by (intro Cons.IH) auto
    have sp: "spent call k w (fst (run_ops step (op # ops) s)) =
      (if a \<and> wc_start c = w then wc_cost c else 0) + spent call k w (fst (run_ops step ops s'))"
      using c st by (simp add: run_ops_Cons spent_def del: run_ops.simps)
    show ?thesis
    proof (cases "wc_start c = w")
      case True
      with sp IH h(2) show ?thesis by auto
    next
      case False
      show ?thesis
      proof (cases "\<exists>u. get s k = Some (w, u) \<and> get s' k \<noteq> get s k")
        case True
        then have "w < wc_start c" using Cons.prems(6) [of op c w] c False by force
        then have "spent call k w (fst (run_ops step ops s')) = 0"
          using calm_later [OF Cons.prems(1) c Cons.prems(2)] by (intro spent_later) (auto intro: less_le_trans)
        then show ?thesis using sp False sane_used [OF Cons.prems(5,3)] by (simp add: left_def)
      next
        case no: False
        have "used_in (get s' k) w = used_in (get s k) w"
          using h(4) no False by (auto simp: used_in_def split: option.splits)
        then show ?thesis using sp IH False by (simp add: left_def)
      qed
    qed
  qed
qed

text \<open>The bound for a key that is not stored yet.\<close>

lemma window_limit:
  assumes "calm call k L W ops" "0 < W" "0 \<le> L" "L \<le> max_int64" "get s k = None"
  shows "spent call k w (fst (run_ops step ops s)) \<le> L"
  using spent_bound [of k L W ops s w] assms by (simp add: sane_def left_def used_in_def)

end

end
