(* ===== verification/Fallback.thy ===== *)
theory Fallback
  imports Degrade Window_Counter Core_Models
begin

text \<open>
  \<^verbatim>\<open>core/fallback.go\<close>: the local limiter that answers when the store cannot. The counters live
  under a mutex, so \<^verbatim>\<open>AllowFixedWindow\<close> is a function of the map of counters. The limiter's
  collaborators are shared with the rest of the program and enter as what they answer at the
  time of the call: the ownership test (\<^term>\<open>None\<close> when nil), the membership and the controller.
\<close>

section \<open>Local counters\<close>

record windowCounter =
  wn_windowStart :: time
  wn_used :: int64

record LocalLimiterStore = ls_windows :: "(string, windowCounter) gomap"

definition AllowFixedWindow ::
    "LocalLimiterStore \<Rightarrow> string \<Rightarrow> int64 \<Rightarrow> duration \<Rightarrow> int64 \<Rightarrow> time
      \<Rightarrow> (bool \<times> int64 \<times> duration \<times> duration) \<times> LocalLimiterStore" where
  "AllowFixedWindow store key cap window cost now =
     (if cost \<le> 0 \<or> cap \<le> 0 then ((False, 0, 0, 0), store)
      else
        let window = (if window \<le> 0 then Second else window);
            windowStart = time_Truncate now window;
            counter = (case gm_get (ls_windows store) key of
                         None \<Rightarrow> \<lparr>wn_windowStart = windowStart, wn_used = 0\<rparr>
                       | Some counter \<Rightarrow> counter);
            counter = (if wn_windowStart counter \<noteq> windowStart
                       then \<lparr>wn_windowStart = windowStart, wn_used = 0\<rparr> else counter);
            allowed = wrap64 (wn_used counter + cost) \<le> cap;
            counter = (if allowed then counter\<lparr>wn_used := wrap64 (wn_used counter + cost)\<rparr> else counter);
            store = store\<lparr>ls_windows := gm_put key counter (ls_windows store)\<rparr>;
            remaining = wrap64 (cap - wn_used counter);
            remaining = (if remaining < 0 then 0 else remaining);
            resetAfter = time_Sub (time_Add windowStart window) now;
            resetAfter = (if resetAfter < 0 then 0 else resetAfter);
            retryAfter = (if \<not> allowed then resetAfter else 0)
        in ((allowed, remaining, resetAfter, retryAfter), store))"

section \<open>The fallback limiter\<close>

record FallbackPolicy =
  fp_LocalCapPerWindow :: int64
  fp_DenyWhenNotOwner :: bool
  fp_EmergencyAllowSmallCap :: bool
  fp_EmergencyCapPerWindow :: int64

definition NormalizeFallbackPolicy :: "FallbackPolicy \<Rightarrow> FallbackPolicy" where
  "NormalizeFallbackPolicy policy =
     (if policy = \<lparr>fp_LocalCapPerWindow = 0, fp_DenyWhenNotOwner = False,
                   fp_EmergencyAllowSmallCap = False, fp_EmergencyCapPerWindow = 0\<rparr>
      then \<lparr>fp_LocalCapPerWindow = 100, fp_DenyWhenNotOwner = True,
            fp_EmergencyAllowSmallCap = True, fp_EmergencyCapPerWindow = 10\<rparr>
      else
        let policy = (if fp_LocalCapPerWindow policy = 0 then policy\<lparr>fp_LocalCapPerWindow := 100\<rparr> else policy);
            policy = (if fp_EmergencyCapPerWindow policy = 0 then policy\<lparr>fp_EmergencyCapPerWindow := 10\<rparr> else policy);
            policy = (if \<not> fp_DenyWhenNotOwner policy then policy\<lparr>fp_DenyWhenNotOwner := True\<rparr> else policy);
            policy = (if \<not> fp_EmergencyAllowSmallCap policy then policy\<lparr>fp_EmergencyAllowSmallCap := True\<rparr> else policy)
        in policy)"

record FallbackLimiter =
  fl_region :: string
  fl_regionGroup :: string
  fl_policy :: FallbackPolicy
  fl_local :: "LocalLimiterStore option"

definition NewFallbackLimiter :: "string \<Rightarrow> string \<Rightarrow> FallbackPolicy \<Rightarrow> LocalLimiterStore option \<Rightarrow> FallbackLimiter" where
  "NewFallbackLimiter region regionGroup policy local =
     \<lparr>fl_region = region, fl_regionGroup = regionGroup, fl_policy = policy,
      fl_local = Some (case local of None \<Rightarrow> \<lparr>ls_windows = []\<rparr> | Some l \<Rightarrow> l)\<rparr>"

text \<open>How many instances share the local limit.\<close>

fun effectiveShardFactor :: "Membership option \<Rightarrow> FallbackLimiter option \<Rightarrow> int64" where
  "effectiveShardFactor mship None = 1"
| "effectiveShardFactor None (Some fl) = 1"
| "effectiveShardFactor (Some m) (Some fl) =
     (case ms_Instances m of
        Inl err \<Rightarrow> 1
      | Inr instances \<Rightarrow>
          let group = (if fl_regionGroup fl = '''' then fl_region fl else fl_regionGroup fl) in
          if group = '''' then 1
          else
            let seenSelf = list_ex (\<lambda>i. ii_ID i = ms_SelfID m) instances;
                cnt = int (length (filter (\<lambda>i. ii_Region i = group) instances));
                cnt = (if \<not> seenSelf \<and> ms_SelfRegion m = group then cnt + 1 else cnt)
            in if cnt \<le> 0 then 1 else cnt)"

definition shard_cap :: "int64 \<Rightarrow> int64 \<Rightarrow> int64" where
  "shard_cap total_cap factor = (let cap = quot64 total_cap factor in if cap < 1 then 1 else cap)"

text \<open>\<^verbatim>\<open>Allow\<close>: the decision and the limiter with its counters.\<close>

fun Fallback_Allow ::
    "(string \<Rightarrow> bool) option \<Rightarrow> Membership option \<Rightarrow> DegradeController option \<Rightarrow> time
      \<Rightarrow> FallbackLimiter option \<Rightarrow> string \<Rightarrow> RuleParams \<Rightarrow> int64 \<Rightarrow> Decision \<times> FallbackLimiter option" where
  "Fallback_Allow ownership mship mode_ctl now None key params cost = (deny_decision 0, None)"
| "Fallback_Allow ownership mship mode_ctl now (Some fl) key params cost =
     (let policy = NormalizeFallbackPolicy (fl_policy fl);
          mode = (case mode_ctl of None \<Rightarrow> ModeNormal | Some dc \<Rightarrow> Mode (Some dc));
          factor = effectiveShardFactor mship (Some fl);
          factor = (if factor < 1 then 1 else factor);
          cap = shard_cap (fp_LocalCapPerWindow policy) factor
      in if mode = ModeEmergency \<and> \<not> fp_EmergencyAllowSmallCap policy
         then (deny_decision 0, Some fl)
         else
           let cap = (if mode = ModeEmergency then shard_cap (fp_EmergencyCapPerWindow policy) factor else cap)
           in if fp_DenyWhenNotOwner policy \<and> (case ownership of None \<Rightarrow> False | Some isOwner \<Rightarrow> \<not> isOwner key)
              then (deny_decision cap, Some fl)
              else
                let window = (if rp_Window params \<le> 0 then Second else rp_Window params);
                    store = (case fl_local fl of None \<Rightarrow> \<lparr>ls_windows = []\<rparr> | Some store \<Rightarrow> store);
                    ((allowed, remaining, resetAfter, retryAfter), store') =
                      AllowFixedWindow store key cap window cost now
                in (\<lparr>de_Allowed = allowed, de_Remaining = remaining, de_Limit = cap,
                     de_ResetAfter = resetAfter, de_RetryAfter = retryAfter\<rparr>,
                    Some (fl\<lparr>fl_local := Some store'\<rparr>)))"

section \<open>The local counters meet the contract\<close>

definition local_get :: "LocalLimiterStore \<Rightarrow> string \<Rightarrow> (time \<times> int64) option" where
  "local_get store k = map_option (\<lambda>c. (wn_windowStart c, wn_used c)) (gm_get (ls_windows store) k)"

definition local_step :: "wcall \<Rightarrow> LocalLimiterStore \<Rightarrow> bool \<times> LocalLimiterStore" where
  "local_step c store =
     (case AllowFixedWindow store (wc_key c) (wc_limit c) (wc_window c) (wc_cost c) (wc_now c) of
        ((allowed, _, _, _), store') \<Rightarrow> (allowed, store'))"

interpretation local_counter: window_counter local_get local_step Some
proof
  fix c :: wcall and k s
  assume "\<And>c'. Some c = Some c' \<Longrightarrow> wc_key c' \<noteq> k"
  then show "local_get (snd (local_step c s)) k = local_get s k"
    by (simp add: local_get_def local_step_def AllowFixedWindow_def Let_def)
next
  fix op c :: wcall and s a s'
  assume op: "Some op = Some c" "0 < wc_window c" "local_step op s = (a, s')"
  show "(\<not> a \<and> local_get s' (wc_key c) = local_get s (wc_key c)) \<or>
      (0 < wc_cost c \<and> (let u = wrap64 (used_in (local_get s (wc_key c)) (wc_start c) + wc_cost c) in
         a = (u \<le> wc_limit c) \<and>
         local_get s' (wc_key c) = Some (wc_start c, if a then u else used_in (local_get s (wc_key c)) (wc_start c))))"
  proof (cases "wc_cost c \<le> 0 \<or> wc_limit c \<le> 0")
    case True
    with op show ?thesis by (auto simp: local_step_def AllowFixedWindow_def)
  next
    case False
    with op show ?thesis
      by (cases "gm_get (ls_windows s) (wc_key c)")
        (auto simp: local_step_def AllowFixedWindow_def local_get_def used_in_def wc_start_def Let_def)
  qed
qed

section \<open>The whole limiter meets the contract\<close>

text \<open>The limit the fallback applies with given collaborators.\<close>

definition fallback_cap :: "Membership option \<Rightarrow> DegradeController option \<Rightarrow> FallbackLimiter \<Rightarrow> int64" where
  "fallback_cap mship mode_ctl fl =
     shard_cap (if Mode mode_ctl = ModeEmergency then fp_EmergencyCapPerWindow (NormalizeFallbackPolicy (fl_policy fl))
                else fp_LocalCapPerWindow (NormalizeFallbackPolicy (fl_policy fl)))
       (effectiveShardFactor mship (Some fl))"

record fbcall =
  fb_key :: string
  fb_params :: RuleParams
  fb_cost :: int64
  fb_now :: time

definition fallback_step ::
    "(string \<Rightarrow> bool) option \<Rightarrow> Membership option \<Rightarrow> DegradeController option \<Rightarrow> FallbackLimiter
      \<Rightarrow> fbcall \<Rightarrow> LocalLimiterStore \<Rightarrow> bool \<times> LocalLimiterStore" where
  "fallback_step ownership mship mode_ctl fl c store =
     (case Fallback_Allow ownership mship mode_ctl (fb_now c) (Some (fl\<lparr>fl_local := Some store\<rparr>)) (fb_key c) (fb_params c) (fb_cost c) of
        (d, fl') \<Rightarrow> (de_Allowed d, the (fl_local (the fl'))))"

definition fallback_call :: "Membership option \<Rightarrow> DegradeController option \<Rightarrow> FallbackLimiter \<Rightarrow> fbcall \<Rightarrow> wcall option" where
  "fallback_call mship mode_ctl fl c = Some \<lparr>wc_key = fb_key c, wc_limit = fallback_cap mship mode_ctl fl,
     wc_window = (if rp_Window (fb_params c) \<le> 0 then Second else rp_Window (fb_params c)), wc_cost = fb_cost c, wc_now = fb_now c\<rparr>"

lemma Normalize_flags [simp]:
  "fp_DenyWhenNotOwner (NormalizeFallbackPolicy p)" "fp_EmergencyAllowSmallCap (NormalizeFallbackPolicy p)"
  by (simp_all add: NormalizeFallbackPolicy_def Let_def)

lemma shard_factor_pos [simp]: "1 \<le> effectiveShardFactor m fl"
  by (cases "(m, fl)" rule: effectiveShardFactor.cases) (auto simp: Let_def split: sum.split)

lemma shard_factor_local [simp]: "effectiveShardFactor m (Some (fl\<lparr>fl_local := x\<rparr>)) = effectiveShardFactor m (Some fl)"
  by (cases m) (simp_all split: sum.split)

lemma Fallback_Allow_eq:
  "Fallback_Allow ownership mship mode_ctl now (Some fl) key params cost =
     (if (case ownership of None \<Rightarrow> False | Some isOwner \<Rightarrow> \<not> isOwner key)
      then (deny_decision (fallback_cap mship mode_ctl fl), Some fl)
      else
        let ((allowed, remaining, resetAfter, retryAfter), store') =
              AllowFixedWindow (case fl_local fl of None \<Rightarrow> \<lparr>ls_windows = []\<rparr> | Some store \<Rightarrow> store) key
                (fallback_cap mship mode_ctl fl) (if rp_Window params \<le> 0 then Second else rp_Window params) cost now
        in (\<lparr>de_Allowed = allowed, de_Remaining = remaining, de_Limit = fallback_cap mship mode_ctl fl,
             de_ResetAfter = resetAfter, de_RetryAfter = retryAfter\<rparr>, Some (fl\<lparr>fl_local := Some store'\<rparr>)))"
proof -
  have f: "\<not> effectiveShardFactor mship (Some fl) < 1" using shard_factor_pos [of mship "Some fl"] by linarith
  have m: "(case mode_ctl of None \<Rightarrow> ModeNormal | Some dc \<Rightarrow> Mode (Some dc)) = Mode mode_ctl"
    by (cases mode_ctl) simp_all
  show ?thesis by (simp add: Let_def f m fallback_cap_def case_prod_beta)
qed

lemma fallback_step_eq:
  "fallback_step ownership mship mode_ctl fl c store =
     (if (case ownership of None \<Rightarrow> False | Some isOwner \<Rightarrow> \<not> isOwner (fb_key c)) then (False, store)
      else local_step (the (fallback_call mship mode_ctl fl c)) store)"
  by (simp add: fallback_step_def Fallback_Allow_eq fallback_cap_def local_step_def fallback_call_def deny_decision_def
      case_prod_beta Let_def del: Fallback_Allow.simps)

interpretation fallback_counter:
  window_counter local_get "fallback_step ownership mship mode_ctl fl" "fallback_call mship mode_ctl fl"
proof
  fix op :: fbcall and k s
  assume "\<And>c. fallback_call mship mode_ctl fl op = Some c \<Longrightarrow> wc_key c \<noteq> k"
  then have "wc_key (the (fallback_call mship mode_ctl fl op)) \<noteq> k" by (simp add: fallback_call_def)
  then show "local_get (snd (fallback_step ownership mship mode_ctl fl op s)) k = local_get s k"
    using local_counter.frame [of "the (fallback_call mship mode_ctl fl op)" k s] by (simp add: fallback_step_eq)
next
  fix op :: fbcall and c s a s'
  assume op: "fallback_call mship mode_ctl fl op = Some c" "0 < wc_window c" "fallback_step ownership mship mode_ctl fl op s = (a, s')"
  then have "(a, s') = (False, s) \<or> local_step c s = (a, s')"
    by (simp add: fallback_step_eq split: if_splits)
  then show "(\<not> a \<and> local_get s' (wc_key c) = local_get s (wc_key c)) \<or>
      (0 < wc_cost c \<and> (let u = wrap64 (used_in (local_get s (wc_key c)) (wc_start c) + wc_cost c) in
         a = (u \<le> wc_limit c) \<and>
         local_get s' (wc_key c) = Some (wc_start c, if a then u else used_in (local_get s (wc_key c)) (wc_start c))))"
    using local_counter.hit [OF refl op(2)] by blast
qed

section \<open>Properties\<close>

text \<open>While the mode and the membership stay as they are, the fallback admits on a key, in
  each window, a total cost of at most its local limit (the configured cap, or the emergency
  cap, divided by the number of instances of the region group), for any interleaving of
  calls on any keys. Times must not run backwards and costs must not overflow the counter.\<close>

theorem fallback_window_limit:
  assumes "calm (fallback_call mship mode_ctl fl) k (fallback_cap mship mode_ctl fl) W calls" "0 < W"
    and "fallback_cap mship mode_ctl fl \<le> max_int64" "local_get store k = None"
  shows "spent (fallback_call mship mode_ctl fl) k w (fst (run_ops (fallback_step ownership mship mode_ctl fl) calls store))
    \<le> fallback_cap mship mode_ctl fl"
  using assms by (intro fallback_counter.window_limit) (auto simp: fallback_cap_def shard_cap_def Let_def)

definition sample_fallback :: FallbackLimiter where
  "sample_fallback = NewFallbackLimiter ''eu'' '''' \<lparr>fp_LocalCapPerWindow = 3, fp_DenyWhenNotOwner = True,
     fp_EmergencyAllowSmallCap = True, fp_EmergencyCapPerWindow = 1\<rparr> None"

definition sample_fbcalls :: "fbcall list" where
  "sample_fbcalls = map (\<lambda>(cost, now). \<lparr>fb_key = ''k'', fb_params = \<lparr>rp_Limit = 9, rp_Window = 10, rp_Burst = 0, rp_Version = 1\<rparr>,
     fb_cost = cost, fb_now = now\<rparr>) [(2, 100), (2, 101), (1, 105), (3, 110)]"

lemma sample_fallback_cap: "fallback_cap None None sample_fallback = 3"
  by code_simp

theorem fallback_window_limit_witness:
  "spent (fallback_call None None sample_fallback) ''k'' 100
     (fst (run_ops (fallback_step None None None sample_fallback) sample_fbcalls \<lparr>ls_windows = []\<rparr>))
   \<le> fallback_cap None None sample_fallback"
  by (rule fallback_window_limit [where W = 10])
    (simp_all add: calm_def sample_fbcalls_def fallback_call_def sample_fallback_cap local_get_def max_int64_def
      map_filter_simps)



text \<open>What the fallback answers, on every branch: a key the instance does not own is
  denied and nothing is counted; otherwise the decision is that of the local fixed window
  with the share of the cap that the mode selects. The two flags of the policy have no
  influence, because normalising the policy sets both; in particular the branch that denies
  everything in an emergency is never taken.\<close>

theorem fallback_decision:
  "Fallback_Allow ownership mship mode_ctl now (Some fl) key params cost =
     (if (case ownership of None \<Rightarrow> False | Some isOwner \<Rightarrow> \<not> isOwner key)
      then (deny_decision (fallback_cap mship mode_ctl fl), Some fl)
      else
        let ((allowed, remaining, resetAfter, retryAfter), store') =
              AllowFixedWindow (case fl_local fl of None \<Rightarrow> \<lparr>ls_windows = []\<rparr> | Some store \<Rightarrow> store) key
                (fallback_cap mship mode_ctl fl) (if rp_Window params \<le> 0 then Second else rp_Window params) cost now
        in (\<lparr>de_Allowed = allowed, de_Remaining = remaining, de_Limit = fallback_cap mship mode_ctl fl,
             de_ResetAfter = resetAfter, de_RetryAfter = retryAfter\<rparr>, Some (fl\<lparr>fl_local := Some store'\<rparr>)))"
  by (rule Fallback_Allow_eq)

text \<open>The counter overflows: a cost near the largest \<^verbatim>\<open>int64\<close> is admitted on top of a used one.\<close>

lemma fallback_overflow:
  "fst (AllowFixedWindow (snd (AllowFixedWindow \<lparr>ls_windows = []\<rparr> ''k'' 5 10 1 100)) ''k'' 5 10 max_int64 101)
     = (True, 0, 9, 0)"
  by code_simp

declare Fallback_Allow.simps [simp del]

end
