(* ===== verification/Mem_Redis.thy ===== *)
theory Mem_Redis
  imports Window_Counter Float64 Core_Models
begin

text \<open>
  \<^verbatim>\<open>store/inmemory/redis_inmemory.go\<close>: the counters of the three algorithms and the pipeline. One mutex
  guards the maps, so an execution is a function of the state; the reading of the injected
  clock is an argument. Token counts are \<^verbatim>\<open>float64\<close>.
\<close>

section \<open>State\<close>

record tbState =
  tb_tokens :: float64
  tb_last :: time

record fwState =
  fw_windowStart :: time
  fw_used :: int64

record swEvent =
  se_t :: time
  se_cost :: int64

record swState =
  sw_window :: duration
  sw_events :: "swEvent list"

record InMemoryRedis =
  rd_tokenBuckets :: "(string, tbState) gomap"
  rd_fixedWindows :: "(string, fwState) gomap"
  rd_slidingWindows :: "(string, swState) gomap"
  rd_healthy :: bool
  rd_windowDefault :: duration

definition NewInMemoryRedis :: InMemoryRedis where
  "NewInMemoryRedis = \<lparr>rd_tokenBuckets = [], rd_fixedWindows = [], rd_slidingWindows = [],
     rd_healthy = True, rd_windowDefault = Second\<rparr>"

fun Redis_Healthy :: "InMemoryRedis option \<Rightarrow> bool" where
  "Redis_Healthy None = False"
| "Redis_Healthy (Some r) = rd_healthy r"

fun Redis_SetHealthy :: "InMemoryRedis option \<Rightarrow> bool \<Rightarrow> InMemoryRedis option" where
  "Redis_SetHealthy None v = None"
| "Redis_SetHealthy (Some r) v = Some (r\<lparr>rd_healthy := v\<rparr>)"

type_synonym exec_result = "(go_error + Decision) \<times> InMemoryRedis"

definition err_unhealthy :: go_error where "err_unhealthy = ErrorString ''redis unhealthy''"
definition err_invalid :: go_error where "err_invalid = ErrorString ''invalid cost or limit''"

section \<open>Token bucket\<close>

definition tb_capacity :: "RuleParams \<Rightarrow> int64" where
  "tb_capacity params = (if rp_Burst params > rp_Limit params then rp_Burst params else rp_Limit params)"

definition tb_rate :: "RuleParams \<Rightarrow> duration \<Rightarrow> float64" where
  "tb_rate params window = fl64 (float64_of (rp_Limit params) / Seconds window)"

definition execTokenBucketLocked :: "time \<Rightarrow> InMemoryRedis \<Rightarrow> string \<Rightarrow> RuleParams \<Rightarrow> int64 \<Rightarrow> exec_result" where
  "execTokenBucketLocked now r key params cost =
     (if \<not> rd_healthy r then (Inl err_unhealthy, r)
      else if cost \<le> 0 \<or> rp_Limit params \<le> 0 then (Inl err_invalid, r)
      else
        let window = (if rp_Window params \<le> 0 then rd_windowDefault r else rp_Window params);
            capacity = tb_capacity params;
            rate = tb_rate params window;
            state = (case gm_get (rd_tokenBuckets r) key of
                       None \<Rightarrow> \<lparr>tb_tokens = float64_of capacity, tb_last = now\<rparr>
                     | Some state \<Rightarrow> state);
            elapsed = Seconds (time_Sub now (tb_last state));
            state = (if elapsed > 0
                     then state\<lparr>tb_tokens := min (float64_of capacity)
                                  (fl64 (tb_tokens state + fl64 (elapsed * rate)))\<rparr>
                     else state);
            state = state\<lparr>tb_last := now\<rparr>;
            allowed = float64_of cost \<le> tb_tokens state;
            state = (if allowed then state\<lparr>tb_tokens := fl64 (tb_tokens state - float64_of cost)\<rparr> else state);
            remaining = int64_of_float (of_int \<lfloor>tb_tokens state\<rfloor>);
            retryAfter =
              (if \<not> allowed \<and> rate > 0
               then let needed = fl64 (float64_of cost - tb_tokens state);
                        needed = (if needed < 0 then 0 else needed)
                    in int64_of_float (fl64 (fl64 (needed / rate) * float64_of Second))
               else 0);
            resetAfter =
              (if rate > 0
               then int64_of_float (fl64 (fl64 (fl64 (float64_of capacity - tb_tokens state) / rate) * float64_of Second))
               else 0)
        in (Inr \<lparr>de_Allowed = allowed, de_Remaining = remaining, de_Limit = rp_Limit params,
                 de_ResetAfter = resetAfter, de_RetryAfter = retryAfter\<rparr>,
            r\<lparr>rd_tokenBuckets := gm_put key state (rd_tokenBuckets r)\<rparr>))"

section \<open>Fixed window\<close>

definition execFixedWindowLocked :: "time \<Rightarrow> InMemoryRedis \<Rightarrow> string \<Rightarrow> RuleParams \<Rightarrow> int64 \<Rightarrow> exec_result" where
  "execFixedWindowLocked now r key params cost =
     (if \<not> rd_healthy r then (Inl err_unhealthy, r)
      else if cost \<le> 0 \<or> rp_Limit params \<le> 0 then (Inl err_invalid, r)
      else
        let window = (if rp_Window params \<le> 0 then rd_windowDefault r else rp_Window params);
            windowStart = time_Truncate now window;
            state = (case gm_get (rd_fixedWindows r) key of
                       None \<Rightarrow> \<lparr>fw_windowStart = windowStart, fw_used = 0\<rparr>
                     | Some state \<Rightarrow> state);
            state = (if fw_windowStart state \<noteq> windowStart
                     then \<lparr>fw_windowStart = windowStart, fw_used = 0\<rparr> else state);
            allowed = wrap64 (fw_used state + cost) \<le> rp_Limit params;
            state = (if allowed then state\<lparr>fw_used := wrap64 (fw_used state + cost)\<rparr> else state);
            remaining = wrap64 (rp_Limit params - fw_used state);
            remaining = (if remaining < 0 then 0 else remaining);
            resetAfter = time_Sub (time_Add windowStart window) now;
            resetAfter = (if resetAfter < 0 then 0 else resetAfter);
            retryAfter = (if \<not> allowed then resetAfter else 0)
        in (Inr \<lparr>de_Allowed = allowed, de_Remaining = remaining, de_Limit = rp_Limit params,
                 de_ResetAfter = resetAfter, de_RetryAfter = retryAfter\<rparr>,
            r\<lparr>rd_fixedWindows := gm_put key state (rd_fixedWindows r)\<rparr>))"

section \<open>Sliding window\<close>

text \<open>The sum of the costs, with wrap-around at every addition.\<close>

definition sum_costs :: "swEvent list \<Rightarrow> int64" where
  "sum_costs es = foldl (\<lambda>acc e. wrap64 (acc + se_cost e)) 0 es"

definition execSlidingWindowLocked :: "time \<Rightarrow> InMemoryRedis \<Rightarrow> string \<Rightarrow> RuleParams \<Rightarrow> int64 \<Rightarrow> exec_result" where
  "execSlidingWindowLocked now r key params cost =
     (if \<not> rd_healthy r then (Inl err_unhealthy, r)
      else if cost \<le> 0 \<or> rp_Limit params \<le> 0 then (Inl err_invalid, r)
      else
        let window = (if rp_Window params \<le> 0 then rd_windowDefault r else rp_Window params);
            state = (case gm_get (rd_slidingWindows r) key of
                       None \<Rightarrow> \<lparr>sw_window = window, sw_events = []\<rparr>
                     | Some state \<Rightarrow> state);
            state = (if sw_window state \<noteq> window then \<lparr>sw_window = window, sw_events = []\<rparr> else state);
            cutoff = time_Add now (- window);
            filtered = filter (\<lambda>e. se_t e > cutoff \<or> se_t e = cutoff) (sw_events state);
            tot = sum_costs filtered;
            state = state\<lparr>sw_events := filtered\<rparr>;
            allowed = wrap64 (tot + cost) \<le> rp_Limit params;
            state = (if allowed then state\<lparr>sw_events := sw_events state @ [\<lparr>se_t = now, se_cost = cost\<rparr>]\<rparr> else state);
            tot = (if allowed then wrap64 (tot + cost) else tot);
            remaining = wrap64 (rp_Limit params - tot);
            remaining = (if remaining < 0 then 0 else remaining);
            retryAfter =
              (if \<not> allowed \<and> 0 < length (sw_events state)
               then let retryAfter = time_Sub (time_Add (se_t (hd (sw_events state))) window) now
                    in if retryAfter < 0 then 0 else retryAfter
               else 0)
        in (Inr \<lparr>de_Allowed = allowed, de_Remaining = remaining, de_Limit = rp_Limit params,
                 de_ResetAfter = window, de_RetryAfter = retryAfter\<rparr>,
            r\<lparr>rd_slidingWindows := gm_put key state (rd_slidingWindows r)\<rparr>))"

section \<open>Pipeline\<close>

datatype redisOpKind = opTokenBucket | opFixedWindow | opSlidingWindow

record redisOp =
  ro_kind :: redisOpKind
  ro_key :: string
  ro_params :: RuleParams
  ro_cost :: int64

record InMemoryPipeline = pl_ops :: "redisOp list"

definition Redis_Pipeline :: InMemoryPipeline where
  "Redis_Pipeline = \<lparr>pl_ops = []\<rparr>"

definition Pipeline_ExecTokenBucket :: "InMemoryPipeline \<Rightarrow> string \<Rightarrow> RuleParams \<Rightarrow> int64 \<Rightarrow> InMemoryPipeline" where
  "Pipeline_ExecTokenBucket p key params cost =
     p\<lparr>pl_ops := pl_ops p @ [\<lparr>ro_kind = opTokenBucket, ro_key = key, ro_params = params, ro_cost = cost\<rparr>]\<rparr>"

definition Pipeline_ExecFixedWindow :: "InMemoryPipeline \<Rightarrow> string \<Rightarrow> RuleParams \<Rightarrow> int64 \<Rightarrow> InMemoryPipeline" where
  "Pipeline_ExecFixedWindow p key params cost =
     p\<lparr>pl_ops := pl_ops p @ [\<lparr>ro_kind = opFixedWindow, ro_key = key, ro_params = params, ro_cost = cost\<rparr>]\<rparr>"

definition Pipeline_ExecSlidingWindow :: "InMemoryPipeline \<Rightarrow> string \<Rightarrow> RuleParams \<Rightarrow> int64 \<Rightarrow> InMemoryPipeline" where
  "Pipeline_ExecSlidingWindow p key params cost =
     p\<lparr>pl_ops := pl_ops p @ [\<lparr>ro_kind = opSlidingWindow, ro_key = key, ro_params = params, ro_cost = cost\<rparr>]\<rparr>"

fun exec_kind :: "redisOpKind \<Rightarrow> time \<Rightarrow> InMemoryRedis \<Rightarrow> string \<Rightarrow> RuleParams \<Rightarrow> int64 \<Rightarrow> exec_result" where
  "exec_kind opTokenBucket = execTokenBucketLocked"
| "exec_kind opFixedWindow = execFixedWindowLocked"
| "exec_kind opSlidingWindow = execSlidingWindowLocked"

text \<open>The loop of \<^verbatim>\<open>Exec\<close>; \<open>clock\<close> gives the reading made for the \<open>i\<close>-th operation. An error drops the
  decisions made so far, and what they did to the state stays.\<close>

fun pipeline_loop ::
    "(nat \<Rightarrow> time) \<Rightarrow> nat \<Rightarrow> redisOp list \<Rightarrow> InMemoryRedis \<Rightarrow> (go_error + Decision list) \<times> InMemoryRedis" where
  "pipeline_loop clock i [] r = (Inr [], r)"
| "pipeline_loop clock i (op # ops) r =
     (case exec_kind (ro_kind op) (clock i) r (ro_key op) (ro_params op) (ro_cost op) of
        (Inl err, r1) \<Rightarrow> (Inl err, r1)
      | (Inr decision, r1) \<Rightarrow>
          (case pipeline_loop clock (Suc i) ops r1 of
             (Inl err, r2) \<Rightarrow> (Inl err, r2)
           | (Inr decisions, r2) \<Rightarrow> (Inr (decision # decisions), r2)))"

fun Pipeline_Exec ::
    "(nat \<Rightarrow> time) \<Rightarrow> InMemoryPipeline \<Rightarrow> InMemoryRedis option
      \<Rightarrow> (go_error + Decision list) \<times> InMemoryRedis option" where
  "Pipeline_Exec clock p None = (Inl (ErrorString ''redis is nil''), None)"
| "Pipeline_Exec clock p (Some r) =
     (case pipeline_loop clock 0 (pl_ops p) r of (res, r1) \<Rightarrow> (res, Some r1))"

section \<open>Commands and their results\<close>

text \<open>A run of the store: executions of any kind on any key, interleaved with changes of health.\<close>

datatype redis_cmd = RExec redisOpKind string RuleParams int64 time | RSetHealthy bool

fun redis_step :: "redis_cmd \<Rightarrow> InMemoryRedis \<Rightarrow> bool \<times> InMemoryRedis" where
  "redis_step (RExec kind key params cost now) r =
     (case exec_kind kind now r key params cost of
        (Inl err, r1) \<Rightarrow> (False, r1)
      | (Inr d, r1) \<Rightarrow> (de_Allowed d, r1))"
| "redis_step (RSetHealthy v) r = (False, r\<lparr>rd_healthy := v\<rparr>)"

section \<open>Fixed windows meet the contract\<close>

definition fixed_get :: "InMemoryRedis \<Rightarrow> string \<Rightarrow> (time \<times> int64) option" where
  "fixed_get r k = map_option (\<lambda>s. (fw_windowStart s, fw_used s)) (gm_get (rd_fixedWindows r) k)"

fun fixed_call :: "redis_cmd \<Rightarrow> wcall option" where
  "fixed_call (RExec opFixedWindow key params cost now) =
     Some \<lparr>wc_key = key, wc_limit = rp_Limit params, wc_window = rp_Window params, wc_cost = cost, wc_now = now\<rparr>"
| "fixed_call _ = None"

lemma exec_refuses:
  "\<not> (rd_healthy r \<and> 0 < cost \<and> 0 < rp_Limit params) \<Longrightarrow>
   \<exists>e. exec_kind kind now r key params cost = (Inl e, r)"
  by (cases kind; cases "rd_healthy r")
    (simp_all add: execTokenBucketLocked_def execFixedWindowLocked_def execSlidingWindowLocked_def linorder_not_less)

lemma exec_frames:
  "rd_fixedWindows (snd (execTokenBucketLocked now r k p c)) = rd_fixedWindows r"
  "rd_slidingWindows (snd (execTokenBucketLocked now r k p c)) = rd_slidingWindows r"
  "rd_tokenBuckets (snd (execFixedWindowLocked now r k p c)) = rd_tokenBuckets r"
  "rd_slidingWindows (snd (execFixedWindowLocked now r k p c)) = rd_slidingWindows r"
  "rd_tokenBuckets (snd (execSlidingWindowLocked now r k p c)) = rd_tokenBuckets r"
  "rd_fixedWindows (snd (execSlidingWindowLocked now r k p c)) = rd_fixedWindows r"
  by (simp_all add: execTokenBucketLocked_def execFixedWindowLocked_def execSlidingWindowLocked_def Let_def)

lemma redis_step_snd:
  "snd (redis_step (RExec kind key params cost now) r) = snd (exec_kind kind now r key params cost)"
  by (simp add: case_prod_beta split: sum.split)

interpretation fixed_counter: window_counter fixed_get redis_step fixed_call
proof
  fix op k s
  assume n: "\<And>c. fixed_call op = Some c \<Longrightarrow> wc_key c \<noteq> k"
  show "fixed_get (snd (redis_step op s)) k = fixed_get s k"
  proof (cases op)
    case (RExec kind key params cost now)
    show ?thesis
    proof (cases kind)
      case opFixedWindow
      then have "key \<noteq> k" using n RExec by simp
      then show ?thesis using RExec opFixedWindow
        by (simp only: redis_step_snd) (simp add: execFixedWindowLocked_def fixed_get_def Let_def)
    next
      case opTokenBucket
      with RExec show ?thesis by (simp only: redis_step_snd exec_kind.simps fixed_get_def exec_frames)
    next
      case opSlidingWindow
      with RExec show ?thesis by (simp only: redis_step_snd exec_kind.simps fixed_get_def exec_frames)
    qed
  qed (simp add: fixed_get_def)
next
  fix op c s a s'
  assume op: "fixed_call op = Some c" "0 < wc_window c" "redis_step op s = (a, s')"
  from op(1) obtain key params cost now where o: "op = RExec opFixedWindow key params cost now"
    and c: "c = \<lparr>wc_key = key, wc_limit = rp_Limit params, wc_window = rp_Window params, wc_cost = cost, wc_now = now\<rparr>"
    by (cases op rule: fixed_call.cases) auto
  show "(\<not> a \<and> fixed_get s' (wc_key c) = fixed_get s (wc_key c)) \<or>
      (0 < wc_cost c \<and> (let u = wrap64 (used_in (fixed_get s (wc_key c)) (wc_start c) + wc_cost c) in
         a = (u \<le> wc_limit c) \<and>
         fixed_get s' (wc_key c) = Some (wc_start c, if a then u else used_in (fixed_get s (wc_key c)) (wc_start c))))"
  proof (cases "rd_healthy s \<and> 0 < cost \<and> 0 < rp_Limit params")
    case False
    then obtain e where "exec_kind opFixedWindow now s key params cost = (Inl e, s)"
      using exec_refuses [of s cost params opFixedWindow now key] by blast
    with op(3) o c show ?thesis by simp
  next
    case True
    with op o c show ?thesis
      by (cases "gm_get (rd_fixedWindows s) key")
        (auto simp: execFixedWindowLocked_def fixed_get_def used_in_def wc_start_def Let_def)
  qed
qed

section \<open>Properties\<close>

text \<open>C14 (safety). The fixed-window algorithm never admits more than the limit: over any run of the
  store (any algorithms on any keys, health changes in between), the costs admitted on one key
  in one window sum to at most the rule's limit. The rule must not change in the run, the
  clock must not go backwards, and costs stay below \<open>max_int64 - limit\<close> (beyond that the
  addition \<^verbatim>\<open>used+cost\<close> overflows).\<close>

theorem redis_fixed_window_limit:
  assumes "calm fixed_call k L W ops" "0 < W" "0 \<le> L" "L \<le> max_int64"
  shows "spent fixed_call k w (fst (run_ops redis_step ops NewInMemoryRedis)) \<le> L"
  using assms by (intro fixed_counter.window_limit) (auto simp: fixed_get_def NewInMemoryRedis_def)

definition sample_params :: "int64 \<Rightarrow> duration \<Rightarrow> RuleParams" where
  "sample_params n w = \<lparr>rp_Limit = n, rp_Window = w, rp_Burst = 0, rp_Version = 1\<rparr>"

definition sample_cmds :: "redisOpKind \<Rightarrow> redis_cmd list" where
  "sample_cmds kind = [RExec kind ''k'' (sample_params 5 10) 3 100, RExec opFixedWindow ''other'' (sample_params 9 7) 1 100,
     RSetHealthy True, RExec kind ''k'' (sample_params 5 10) 3 104, RExec kind ''k'' (sample_params 5 10) 2 105,
     RExec kind ''k'' (sample_params 5 10) 4 112]"

theorem redis_fixed_window_limit_witness:
  "spent fixed_call ''k'' 100 (fst (run_ops redis_step (sample_cmds opFixedWindow) NewInMemoryRedis)) \<le> 5"
  by (rule redis_fixed_window_limit [where W = 10])
    (simp_all add: calm_def sample_cmds_def sample_params_def max_int64_def map_filter_simps)

text \<open>Queued operations executed one by one, each with its own result.\<close>

fun exec_each :: "(nat \<Rightarrow> time) \<Rightarrow> nat \<Rightarrow> redisOp list \<Rightarrow> InMemoryRedis \<Rightarrow> (go_error + Decision) list \<times> InMemoryRedis" where
  "exec_each clock i [] r = ([], r)"
| "exec_each clock i (op # ops) r =
     (let (res, r1) = exec_kind (ro_kind op) (clock i) r (ro_key op) (ro_params op) (ro_cost op);
          (rest, r2) = exec_each clock (Suc i) ops r1
      in (res # rest, r2))"

lemma pipeline_loop_cases:
  "(case pipeline_loop clock i ops r of
      (Inr ds, r') \<Rightarrow> exec_each clock i ops r = (map Inr ds, r')
    | (Inl e, r') \<Rightarrow> \<exists>n ds. n < length ops \<and> length ds = n \<and> exec_each clock i (take (Suc n) ops) r = (map Inr ds @ [Inl e], r'))"
proof (induction ops arbitrary: i r)
  case (Cons op ops)
  obtain res r1 where x: "exec_kind (ro_kind op) (clock i) r (ro_key op) (ro_params op) (ro_cost op) = (res, r1)" by fastforce
  show ?case
  proof (cases res)
    case (Inl e)
    with x show ?thesis by (auto intro!: exI [of _ 0])
  next
    case (Inr d)
    obtain res2 r2 where y: "pipeline_loop clock (Suc i) ops r1 = (res2, r2)" by fastforce
    show ?thesis
    proof (cases res2)
      case (Inl e)
      with Cons.IH [where i = "Suc i" and r = r1] y obtain n ds where "n < length ops" "length ds = n"
        "exec_each clock (Suc i) (take (Suc n) ops) r1 = (map Inr ds @ [Inl e], r2)" by auto
      with x Inr y Inl show ?thesis by (auto intro!: exI [of _ "Suc n"] exI [of _ "d # ds"])
    next
      case (Inr ds)
      with Cons.IH [where i = "Suc i" and r = r1] x y \<open>res = Inr d\<close> show ?thesis by auto
    qed
  qed
qed simp

text \<open>A pipeline does what its operations do one by one, in the order they were
  queued: when it succeeds, its decisions are theirs and so is the state; when it fails, the
  error is that of the first failing operation, and everything before it has taken effect
  although no decision is returned.\<close>

theorem pipeline_sequential:
  "case Pipeline_Exec clock p (Some r) of
     (Inr ds, Some r') \<Rightarrow> exec_each clock 0 (pl_ops p) r = (map Inr ds, r')
   | (Inl e, Some r') \<Rightarrow> \<exists>n ds. n < length (pl_ops p) \<and> length ds = n
        \<and> exec_each clock 0 (take (Suc n) (pl_ops p)) r = (map Inr ds @ [Inl e], r')
   | (_, None) \<Rightarrow> False"
  using pipeline_loop_cases [where clock = clock and i = 0 and ops = "pl_ops p" and r = r] by (auto split: prod.splits sum.splits)

text \<open>The counters overflow: a cost near the largest \<^verbatim>\<open>int64\<close> is admitted on top of a used one, and the
  window then holds a negative count.\<close>

lemma fixed_window_overflow:
  "let r1 = snd (execFixedWindowLocked 100 NewInMemoryRedis ''k'' (sample_params 5 10) 1);
       (res, r2) = execFixedWindowLocked 101 r1 ''k'' (sample_params 5 10) max_int64
   in (case res of Inr d \<Rightarrow> de_Allowed d | _ \<Rightarrow> False) \<and> fixed_get r2 ''k'' = Some (100, min_int64)"
  by code_simp

end
