(* ===== verification/Limiter.thy ===== *)
theory Limiter
  imports Circuit Fallback Mem_Redis
begin

text \<open>
  \<^verbatim>\<open>core/limiter.go\<close>: the factory that turns a rule into a limiter, and the limiter that asks the
  store, guarded by the mode and the circuit breaker, and falls back to local limiting. Every
  limiter of a factory points to the same store, fallback limiter, controller and breaker;
  they are the fields of \<open>backend\<close>, and an operation returns the backend it leaves behind. The
  answers of the collaborators that no limiter changes (ownership and membership) and the
  readings of the clock are arguments.
\<close>

section \<open>State\<close>

datatype limiterAlgorithm = limiterTokenBucket | limiterFixedWindow | limiterSlidingWindow

record redisLimiter =
  rl_algo :: limiterAlgorithm
  rl_params :: RuleParams

record backend =
  be_redis :: "InMemoryRedis option"
  be_fallback :: "FallbackLimiter option"
  be_mode :: "DegradeController option"
  be_breaker :: "CircuitBreaker option"

record surroundings =
  su_ownership :: "(string \<Rightarrow> bool) option"
  su_mship :: "Membership option"

text \<open>The clock readings of one call: by the breaker's \<^verbatim>\<open>Allow\<close>, by the store (for the \<open>i\<close>-th queued
  operation), by \<^verbatim>\<open>OnFailure\<close> (two), and by the fallback (for the \<open>i\<close>-th key).\<close>

record clocks =
  ck_allow :: time
  ck_redis :: "nat \<Rightarrow> time"
  ck_fail :: time
  ck_fail2 :: time
  ck_fallback :: "nat \<Rightarrow> time"

section \<open>Factory\<close>

definition normalizeAlgorithm :: "string \<Rightarrow> go_error + limiterAlgorithm" where
  "normalizeAlgorithm algo =
     (if algo = '''' then Inl (ErrorString ''algorithm is required'')
      else
        let normalized = ToLower (TrimSpace algo);
            normalized = ReplaceAll_char (CHR '' '') (CHR ''_'') normalized
        in if normalized = ''token_bucket'' \<or> normalized = ''tokenbucket'' then Inr limiterTokenBucket
           else if normalized = ''fixed_window'' \<or> normalized = ''fixedwindow'' then Inr limiterFixedWindow
           else if normalized = ''sliding_window'' \<or> normalized = ''slidingwindow'' then Inr limiterSlidingWindow
           else Inl (ErrorString ''unsupported algorithm''))"

definition params_of_rule :: "Rule \<Rightarrow> RuleParams" where
  "params_of_rule rule = \<lparr>rp_Limit = ru_Limit rule, rp_Window = ru_Window rule, rp_Burst = ru_BurstSize rule,
     rp_Version = ru_Version rule\<rparr>"

definition default_options :: CircuitOptions where
  "default_options = \<lparr>co_FailureThreshold = 0, co_OpenDuration = 0, co_HalfOpenMaxCalls = 0\<rparr>"

fun LimiterFactory_Create ::
    "backend option \<Rightarrow> Rule option \<Rightarrow> (go_error + redisLimiter \<times> RuleParams) \<times> backend option" where
  "LimiterFactory_Create None rule_ptr = (Inl (ErrorString ''limiter factory is nil''), None)"
| "LimiterFactory_Create (Some be) rule_ptr =
     (if be_redis be = None \<or> be_fallback be = None \<or> be_mode be = None
      then (Inl (ErrorString ''limiter factory is not configured''), Some be)
      else case rule_ptr of
        None \<Rightarrow> (Inl (ErrorString ''rule is required''), Some be)
      | Some rule \<Rightarrow>
          if ru_TenantID rule = '''' \<or> ru_Resource rule = ''''
          then (Inl (ErrorString ''rule must include tenant and resource''), Some be)
          else if ru_Limit rule \<le> 0 then (Inl (ErrorString ''rule limit must be positive''), Some be)
          else
            let params = params_of_rule rule;
                be1 = (case be_breaker be of
                         None \<Rightarrow> be\<lparr>be_breaker := Some (NewCircuitBreaker default_options)\<rparr>
                       | Some _ \<Rightarrow> be)
            in (case normalizeAlgorithm (ru_Algorithm rule) of
                  Inl err \<Rightarrow> (Inl err, Some be1)
                | Inr algo \<Rightarrow> (Inr (\<lparr>rl_algo = algo, rl_params = params\<rparr>, params), Some be1)))"

section \<open>Limiter\<close>

fun kind_of_algo :: "limiterAlgorithm \<Rightarrow> redisOpKind" where
  "kind_of_algo limiterTokenBucket = opTokenBucket"
| "kind_of_algo limiterFixedWindow = opFixedWindow"
| "kind_of_algo limiterSlidingWindow = opSlidingWindow"

definition limiter_exec :: "clocks \<Rightarrow> backend \<Rightarrow> redisLimiter \<Rightarrow> string \<Rightarrow> int64 \<Rightarrow> (go_error + Decision) \<times> backend" where
  "limiter_exec ck be rl key cost =
     (case be_redis be of
        None \<Rightarrow> (Inl (ErrorString ''redis is nil''), be)
      | Some r \<Rightarrow>
          (case exec_kind (kind_of_algo (rl_algo rl)) (ck_redis ck 0) r key (rl_params rl) cost of
             (res, r1) \<Rightarrow> (res, be\<lparr>be_redis := Some r1\<rparr>)))"

text \<open>A decision (\<^term>\<open>None\<close> for nil) together with an error (\<^term>\<open>None\<close> for nil).\<close>

type_synonym allow_result = "Decision option \<times> go_error option"

definition fallbackDecision ::
    "surroundings \<Rightarrow> clocks \<Rightarrow> backend \<Rightarrow> redisLimiter \<Rightarrow> string \<Rightarrow> int64 \<Rightarrow> allow_result \<times> backend" where
  "fallbackDecision su ck be rl key cost =
     (case be_fallback be of
        None \<Rightarrow> ((None, Some (ErrorString ''fallback is nil'')), be)
      | Some fl \<Rightarrow>
          (case Fallback_Allow (su_ownership su) (su_mship su) (be_mode be) (ck_fallback ck 0) (Some fl) key (rl_params rl) cost of
             (d, fl1) \<Rightarrow> ((Some d, Some (ErrUsedFallback ''fallback'')), be\<lparr>be_fallback := fl1\<rparr>)))"

fun redisLimiter_Allow ::
    "surroundings \<Rightarrow> clocks \<Rightarrow> backend \<Rightarrow> redisLimiter option \<Rightarrow> string \<Rightarrow> int64 \<Rightarrow> allow_result \<times> backend" where
  "redisLimiter_Allow su ck be None key cost = ((None, Some (ErrorString ''limiter is nil'')), be)"
| "redisLimiter_Allow su ck be (Some rl) key cost =
     (if be_mode be \<noteq> None \<and> Mode (be_mode be) = ModeEmergency then fallbackDecision su ck be rl key cost
      else
        let (admit, breaker1) = Circuit_Allow (ck_allow ck) (be_breaker be);
            be1 = be\<lparr>be_breaker := breaker1\<rparr>
        in if be_breaker be \<noteq> None \<and> \<not> admit then fallbackDecision su ck be1 rl key cost
           else
             (case limiter_exec ck be1 rl key cost of
                (Inl err, be2) \<Rightarrow>
                  fallbackDecision su ck
                    (be2\<lparr>be_breaker := Circuit_OnFailure (ck_fail ck) (ck_fail2 ck) (be_breaker be2)\<rparr>) rl key cost
              | (Inr decision, be2) \<Rightarrow>
                  ((Some decision, None), be2\<lparr>be_breaker := Circuit_OnSuccess (be_breaker be2)\<rparr>)))"

section \<open>Batches\<close>

definition cost_at :: "int64 list \<Rightarrow> nat \<Rightarrow> int64" where
  "cost_at costs i = (if i < length costs then costs ! i else 0)"

fun fallback_loop ::
    "surroundings \<Rightarrow> clocks \<Rightarrow> DegradeController option \<Rightarrow> RuleParams \<Rightarrow> int64 list \<Rightarrow> nat \<Rightarrow> string list
      \<Rightarrow> FallbackLimiter option \<Rightarrow> Decision list \<times> FallbackLimiter option" where
  "fallback_loop su ck mode_ctl params costs i [] fl = ([], fl)"
| "fallback_loop su ck mode_ctl params costs i (key # keys) fl =
     (let (d, fl1) = Fallback_Allow (su_ownership su) (su_mship su) mode_ctl (ck_fallback ck i) fl key params (cost_at costs i);
          (ds, fl2) = fallback_loop su ck mode_ctl params costs (Suc i) keys fl1
      in (d # ds, fl2))"

type_synonym batch_result = "Decision list option \<times> go_error option"

definition fallbackDecisions ::
    "surroundings \<Rightarrow> clocks \<Rightarrow> backend \<Rightarrow> redisLimiter \<Rightarrow> string list \<Rightarrow> int64 list \<Rightarrow> batch_result \<times> backend" where
  "fallbackDecisions su ck be rl keys costs =
     (case be_fallback be of
        None \<Rightarrow> ((None, Some (ErrorString ''fallback is nil'')), be)
      | Some fl \<Rightarrow>
          (case fallback_loop su ck (be_mode be) (rl_params rl) costs 0 keys (Some fl) of
             (ds, fl1) \<Rightarrow> ((Some ds, Some (ErrUsedFallback ''fallback'')), be\<lparr>be_fallback := fl1\<rparr>)))"

fun queue :: "redisLimiter \<Rightarrow> InMemoryPipeline \<Rightarrow> string \<Rightarrow> int64 \<Rightarrow> InMemoryPipeline" where
  "queue rl pipe key cost =
     (case rl_algo rl of
        limiterTokenBucket \<Rightarrow> Pipeline_ExecTokenBucket pipe key (rl_params rl) cost
      | limiterFixedWindow \<Rightarrow> Pipeline_ExecFixedWindow pipe key (rl_params rl) cost
      | limiterSlidingWindow \<Rightarrow> Pipeline_ExecSlidingWindow pipe key (rl_params rl) cost)"

fun queue_all :: "redisLimiter \<Rightarrow> int64 list \<Rightarrow> nat \<Rightarrow> string list \<Rightarrow> InMemoryPipeline \<Rightarrow> InMemoryPipeline" where
  "queue_all rl costs i [] pipe = pipe"
| "queue_all rl costs i (key # keys) pipe =
     queue_all rl costs (Suc i) keys (queue rl pipe key (cost_at costs i))"

fun redisLimiter_AllowBatch ::
    "surroundings \<Rightarrow> clocks \<Rightarrow> backend \<Rightarrow> redisLimiter option \<Rightarrow> string list \<Rightarrow> int64 list \<Rightarrow> batch_result \<times> backend" where
  "redisLimiter_AllowBatch su ck be None keys costs = ((None, Some (ErrorString ''limiter is nil'')), be)"
| "redisLimiter_AllowBatch su ck be (Some rl) keys costs =
     (if be_mode be \<noteq> None \<and> Mode (be_mode be) = ModeEmergency then fallbackDecisions su ck be rl keys costs
      else
        let (admit, breaker1) = Circuit_Allow (ck_allow ck) (be_breaker be);
            be1 = be\<lparr>be_breaker := breaker1\<rparr>
        in if be_breaker be \<noteq> None \<and> \<not> admit then fallbackDecisions su ck be1 rl keys costs
           else if be_redis be1 = None then fallbackDecisions su ck be1 rl keys costs
           else
             let pipe = queue_all rl costs 0 keys Redis_Pipeline;
                 (res, r1) = Pipeline_Exec (ck_redis ck) pipe (be_redis be1);
                 be2 = be1\<lparr>be_redis := r1\<rparr>
             in case res of
                  Inr decisions \<Rightarrow>
                    if length decisions \<noteq> length keys
                    then fallbackDecisions su ck
                           (be2\<lparr>be_breaker := Circuit_OnFailure (ck_fail ck) (ck_fail2 ck) (be_breaker be2)\<rparr>) rl keys costs
                    else ((Some decisions, None), be2\<lparr>be_breaker := Circuit_OnSuccess (be_breaker be2)\<rparr>)
                | Inl err \<Rightarrow>
                    fallbackDecisions su ck
                      (be2\<lparr>be_breaker := Circuit_OnFailure (ck_fail ck) (ck_fail2 ck) (be_breaker be2)\<rparr>) rl keys costs)"

definition RuleVersion :: "redisLimiter \<Rightarrow> int64" where
  "RuleVersion rl = rp_Version (rl_params rl)"

section \<open>Outcomes\<close>

lemma exec_error_keeps_state: "exec_kind kind now r key params cost = (Inl e, r1) \<Longrightarrow> r1 = r"
  by (cases kind)
    (auto simp: execTokenBucketLocked_def execFixedWindowLocked_def execSlidingWindowLocked_def Let_def split: if_splits)

definition from_store :: "clocks \<Rightarrow> backend \<Rightarrow> redisLimiter \<Rightarrow> string \<Rightarrow> int64 \<Rightarrow> Decision \<Rightarrow> backend \<Rightarrow> bool" where
  "from_store ck be rl key cost dec be' \<longleftrightarrow>
     Mode (be_mode be) \<noteq> ModeEmergency \<and> fst (Circuit_Allow (ck_allow ck) (be_breaker be))
     \<and> (\<exists>r r1. be_redis be = Some r
          \<and> exec_kind (kind_of_algo (rl_algo rl)) (ck_redis ck 0) r key (rl_params rl) cost = (Inr dec, r1)
          \<and> be_redis be' = Some r1) \<and> be_fallback be' = be_fallback be"

definition from_fallback ::
    "surroundings \<Rightarrow> clocks \<Rightarrow> backend \<Rightarrow> redisLimiter \<Rightarrow> string \<Rightarrow> int64 \<Rightarrow> Decision \<Rightarrow> backend \<Rightarrow> bool" where
  "from_fallback su ck be rl key cost dec be' \<longleftrightarrow>
     Fallback_Allow (su_ownership su) (su_mship su) (be_mode be) (ck_fallback ck 0) (be_fallback be) key (rl_params rl) cost
       = (dec, be_fallback be') \<and> be_redis be' = be_redis be"

lemma breaker_closed_nil: "fst (Circuit_Allow t None)"
  by simp

lemma Allow_outcome:
  assumes "be_fallback be = Some fl" "redisLimiter_Allow su ck be (Some rl) key cost = ((d, e), be')"
  shows "\<exists>dec. d = Some dec \<and> be_mode be' = be_mode be \<and>
    (e = None \<and> from_store ck be rl key cost dec be' \<or>
     e = Some (ErrUsedFallback ''fallback'') \<and> from_fallback su ck be rl key cost dec be')"
proof -
  obtain admit b1 where b: "Circuit_Allow (ck_allow ck) (be_breaker be) = (admit, b1)" by fastforce
  have nilb: "be_breaker be = None \<Longrightarrow> admit" using b by auto
  have m: "be_mode be \<noteq> None \<and> Mode (be_mode be) = ModeEmergency \<longleftrightarrow> Mode (be_mode be) = ModeEmergency"
    by (cases "be_mode be") auto
  consider (emergency) "Mode (be_mode be) = ModeEmergency"
    | (denied) "Mode (be_mode be) \<noteq> ModeEmergency" "be_breaker be \<noteq> None" "\<not> admit"
    | (nil) "Mode (be_mode be) \<noteq> ModeEmergency" "admit" "be_redis be = None"
    | (ran) r where "Mode (be_mode be) \<noteq> ModeEmergency" "admit" "be_redis be = Some r"
    using nilb by (meson not_Some_eq)
  then show ?thesis
  proof cases
    case ran
    obtain res r1 where x: "exec_kind (kind_of_algo (rl_algo rl)) (ck_redis ck 0) r key (rl_params rl) cost = (res, r1)"
      by fastforce
    show ?thesis
    proof (cases res)
      case (Inl err)
      with x exec_error_keeps_state [of _ _ r key _ cost err r1] have "r1 = r" by simp
      with ran x Inl assms b m show ?thesis
        by (auto simp: limiter_exec_def fallbackDecision_def from_fallback_def split: prod.splits)
    next
      case (Inr dec)
      with ran x Inr assms b m show ?thesis
        by (auto simp: limiter_exec_def from_store_def)
    qed
  qed (insert assms b m, auto simp: limiter_exec_def fallbackDecision_def from_fallback_def split: prod.splits)
qed

lemma queue_ops [simp]:
  "pl_ops (queue rl pipe key cost) =
     pl_ops pipe @ [\<lparr>ro_kind = kind_of_algo (rl_algo rl), ro_key = key, ro_params = rl_params rl, ro_cost = cost\<rparr>]"
  by (cases "rl_algo rl") (simp_all add: Pipeline_ExecTokenBucket_def Pipeline_ExecFixedWindow_def Pipeline_ExecSlidingWindow_def)

declare queue.simps [simp del]

lemma queue_all_length: "length (pl_ops (queue_all rl costs i keys pipe)) = length (pl_ops pipe) + length keys"
  by (induction keys arbitrary: i pipe) auto

lemma exec_each_length: "length (fst (exec_each clock i ops r)) = length ops"
  by (induction ops arbitrary: i r) (auto simp: case_prod_beta Let_def)

lemma Pipeline_Exec_length: "Pipeline_Exec clock p (Some r) = (Inr ds, r') \<Longrightarrow> length ds = length (pl_ops p)"
proof -
  assume e: "Pipeline_Exec clock p (Some r) = (Inr ds, r')"
  then obtain r1 where "pipeline_loop clock 0 (pl_ops p) r = (Inr ds, r1)" by (auto split: prod.splits)
  with pipeline_loop_cases [where clock = clock and i = 0 and ops = "pl_ops p" and r = r]
  have "exec_each clock 0 (pl_ops p) r = (map Inr ds, r1)" by simp
  with exec_each_length [of clock 0 "pl_ops p" r] show ?thesis by simp
qed

lemma fallback_loop_length: "length (fst (fallback_loop su ck mc params costs i keys fl)) = length keys"
  by (induction keys arbitrary: i fl) (auto simp: case_prod_beta Let_def)

lemma fallbackDecisions_total:
  assumes "be_fallback be = Some fl" "fallbackDecisions su ck be rl keys costs = ((ds, e), be')"
  shows "\<exists>l. ds = Some l \<and> length l = length keys \<and> e = Some (ErrUsedFallback ''fallback'') \<and> be_redis be' = be_redis be"
  using assms fallback_loop_length [of su ck "be_mode be" "rl_params rl" costs 0 keys "Some fl"]
  by (auto simp: fallbackDecisions_def split: prod.splits)

section \<open>Properties\<close>

text \<open>C15 (functional). A limiter with a fallback always decides. Either the store answered: then the mode is
  not emergency, the breaker admitted the call, the decision is exactly what the algorithm of
  the rule computes on the store, and the fallback counters are untouched. Or the decision is
  the fallback limiter's, marked with the fallback error, and the store is exactly as before.\<close>

theorem limiter_always_decides:
  assumes "be_fallback be = Some fl" "redisLimiter_Allow su ck be (Some rl) key cost = ((d, e), be')"
  shows "\<exists>dec. d = Some dec \<and>
    (e = None \<and> from_store ck be rl key cost dec be' \<or>
     e = Some (ErrUsedFallback ''fallback'') \<and> from_fallback su ck be rl key cost dec be')"
  using Allow_outcome [OF assms] by auto

definition sample_backend :: backend where
  "sample_backend = \<lparr>be_redis = Some NewInMemoryRedis, be_fallback = Some sample_fallback, be_mode = Some sample_dc,
     be_breaker = Some (NewCircuitBreaker default_options)\<rparr>"

definition sample_surroundings :: surroundings where
  "sample_surroundings = \<lparr>su_ownership = None, su_mship = None\<rparr>"

definition sample_clocks :: "time \<Rightarrow> clocks" where
  "sample_clocks t = \<lparr>ck_allow = t, ck_redis = (\<lambda>i. t), ck_fail = t, ck_fail2 = t, ck_fallback = (\<lambda>i. t)\<rparr>"

definition fixed_limiter :: "RuleParams \<Rightarrow> redisLimiter" where
  "fixed_limiter params = \<lparr>rl_algo = limiterFixedWindow, rl_params = params\<rparr>"

theorem limiter_always_decides_witness:
  "\<exists>d e be' dec. redisLimiter_Allow sample_surroundings (sample_clocks 100) sample_backend
        (Some (fixed_limiter (sample_params 5 10))) ''k'' 1 = ((d, e), be') \<and> d = Some dec \<and>
    (e = None \<and> from_store (sample_clocks 100) sample_backend (fixed_limiter (sample_params 5 10)) ''k'' 1 dec be' \<or>
     e = Some (ErrUsedFallback ''fallback'') \<and>
       from_fallback sample_surroundings (sample_clocks 100) sample_backend (fixed_limiter (sample_params 5 10)) ''k'' 1 dec be')"
proof -
  obtain d e be' where a: "redisLimiter_Allow sample_surroundings (sample_clocks 100) sample_backend
      (Some (fixed_limiter (sample_params 5 10))) ''k'' 1 = ((d, e), be')" by (metis prod.collapse)
  have f: "be_fallback sample_backend = Some sample_fallback" by (simp add: sample_backend_def)
  from limiter_always_decides [OF f a] a show ?thesis by blast
qed

text \<open>A batch of \<open>n\<close> keys gets \<open>n\<close> decisions, with no error or with the fallback error;
  with the fallback error while in an emergency or while the breaker refuses the call, and
  then the store is not touched.\<close>

lemma limiter_batch_total:
  assumes "be_fallback be = Some fl" "redisLimiter_AllowBatch su ck be (Some rl) keys costs = ((ds, e), be')"
  shows "(\<exists>l. ds = Some l \<and> length l = length keys) \<and> (e = None \<or> e = Some (ErrUsedFallback ''fallback'')) \<and>
    (Mode (be_mode be) = ModeEmergency \<or> \<not> fst (Circuit_Allow (ck_allow ck) (be_breaker be)) \<longrightarrow>
       e \<noteq> None \<and> be_redis be' = be_redis be)"
proof -
  obtain admit b1 where b: "Circuit_Allow (ck_allow ck) (be_breaker be) = (admit, b1)" by fastforce
  have nilb: "be_breaker be = None \<Longrightarrow> admit" using b by auto
  have m: "be_mode be \<noteq> None \<and> Mode (be_mode be) = ModeEmergency \<longleftrightarrow> Mode (be_mode be) = ModeEmergency"
    by (cases "be_mode be") auto
  consider (fb) be1 where "fallbackDecisions su ck be1 rl keys costs = ((ds, e), be')" "be_fallback be1 = Some fl" "be_redis be1 = be_redis be"
    | (late) be1 where "fallbackDecisions su ck be1 rl keys costs = ((ds, e), be')" "be_fallback be1 = Some fl"
        "Mode (be_mode be) \<noteq> ModeEmergency" "admit"
    | (ok) l where "ds = Some l" "length l = length keys" "e = None" "Mode (be_mode be) \<noteq> ModeEmergency" "admit"
  proof (cases "Mode (be_mode be) = ModeEmergency \<or> \<not> admit \<or> be_redis be = None")
    case True
    with assms b m nilb that(1) [of be] that(1) [of "be\<lparr>be_breaker := b1\<rparr>"] show ?thesis
      by (auto simp: Let_def split: if_splits)
  next
    case False
    obtain res r1 where x: "Pipeline_Exec (ck_redis ck) (queue_all rl costs 0 keys Redis_Pipeline) (be_redis be) = (res, r1)" by fastforce
    let ?be2 = "be\<lparr>be_breaker := b1, be_redis := r1\<rparr>"
    show ?thesis
    proof (cases "\<exists>l. res = Inr l \<and> length l = length keys")
      case True
      with False assms b m x that(3) show ?thesis by (auto simp: Let_def)
    next
      case no: False
      with False assms b m x that(2) [of "?be2\<lparr>be_breaker := Circuit_OnFailure (ck_fail ck) (ck_fail2 ck) b1\<rparr>"]
      show ?thesis by (auto simp: Let_def split: sum.splits)
    qed
  qed
  then show ?thesis
  proof cases
    case fb
    with fallbackDecisions_total [OF fb(2,1)] show ?thesis by auto
  next
    case late
    with fallbackDecisions_total [OF late(2,1)] b show ?thesis by auto
  qed (use b in auto)
qed

lemma limiter_batch_total_witness:
  "\<exists>ds e be'. redisLimiter_AllowBatch sample_surroundings (sample_clocks 100) sample_backend
      (Some (fixed_limiter (sample_params 5 10))) [''k'', ''l''] [1, 2] = ((ds, e), be') \<and>
    (\<exists>l. ds = Some l \<and> length l = length [''k'', ''l'']) \<and> (e = None \<or> e = Some (ErrUsedFallback ''fallback'')) \<and>
    (Mode (be_mode sample_backend) = ModeEmergency \<or> \<not> fst (Circuit_Allow (ck_allow (sample_clocks 100)) (be_breaker sample_backend)) \<longrightarrow>
       e \<noteq> None \<and> be_redis be' = be_redis sample_backend)"
proof -
  obtain ds e be' where a: "redisLimiter_AllowBatch sample_surroundings (sample_clocks 100) sample_backend
      (Some (fixed_limiter (sample_params 5 10))) [''k'', ''l''] [1, 2] = ((ds, e), be')" by (metis prod.collapse)
  have f: "be_fallback sample_backend = Some sample_fallback" by (simp add: sample_backend_def)
  from limiter_batch_total [OF f a] a show ?thesis by blast
qed

definition acceptable :: "backend \<Rightarrow> Rule option \<Rightarrow> bool" where
  "acceptable be rule_ptr \<longleftrightarrow> be_redis be \<noteq> None \<and> be_fallback be \<noteq> None \<and> be_mode be \<noteq> None \<and>
     (case rule_ptr of None \<Rightarrow> False
      | Some r \<Rightarrow> ru_TenantID r \<noteq> [] \<and> ru_Resource r \<noteq> [] \<and> 0 < ru_Limit r
          \<and> (case normalizeAlgorithm (ru_Algorithm r) of Inl _ \<Rightarrow> False | Inr _ \<Rightarrow> True))"

text \<open>The factory accepts a rule exactly when it is configured, the rule names a tenant
  and a resource, has a positive limit and an algorithm it knows; the limiter then carries the
  rule's parameters, version and algorithm, and a breaker is in place. A refusal leaves the store,
  the fallback and the controller alone.\<close>

theorem factory_accepts:
  "case LimiterFactory_Create (Some be) rule_ptr of
     (Inr (rl, p), Some be') \<Rightarrow> acceptable be rule_ptr \<and> p = rl_params rl \<and> p = params_of_rule (the rule_ptr)
        \<and> RuleVersion rl = ru_Version (the rule_ptr) \<and> normalizeAlgorithm (ru_Algorithm (the rule_ptr)) = Inr (rl_algo rl)
        \<and> be_breaker be' \<noteq> None \<and> be' = be\<lparr>be_breaker := be_breaker be'\<rparr>
   | (Inl e, Some be') \<Rightarrow> \<not> acceptable be rule_ptr \<and> be' = be\<lparr>be_breaker := be_breaker be'\<rparr>
   | (_, None) \<Rightarrow> False"
proof (cases rule_ptr)
  case None
  then show ?thesis by (simp add: acceptable_def)
next
  case (Some r)
  show ?thesis
  proof (cases "normalizeAlgorithm (ru_Algorithm r)")
    case (Inl e)
    with Some show ?thesis by (cases "be_breaker be") (simp_all add: acceptable_def Let_def)
  next
    case (Inr algo)
    with Some show ?thesis
      by (cases "be_breaker be") (auto simp: acceptable_def Let_def params_of_rule_def RuleVersion_def)
  qed
qed

section \<open>The limit of a rule\<close>

text \<open>
  A limiter of a fixed-window rule in a fixed mode and membership, as a machine over its three
  changing parts: the store, the breaker and the local counters. A call yields whether it
  was allowed and whether the store decided.
\<close>

type_synonym lim_state = "InMemoryRedis \<times> CircuitBreaker option \<times> LocalLimiterStore"

record lim_call =
  lk_key :: string
  lk_cost :: int64
  lk_clocks :: clocks

definition lim_backend :: "FallbackLimiter \<Rightarrow> DegradeController option \<Rightarrow> lim_state \<Rightarrow> backend" where
  "lim_backend fl dc st = (case st of (r, b, ls) \<Rightarrow>
     \<lparr>be_redis = Some r, be_fallback = Some (fl\<lparr>fl_local := Some ls\<rparr>), be_mode = dc, be_breaker = b\<rparr>)"

definition lim_step ::
    "surroundings \<Rightarrow> FallbackLimiter \<Rightarrow> DegradeController option \<Rightarrow> RuleParams \<Rightarrow> lim_call \<Rightarrow> lim_state
      \<Rightarrow> (bool \<times> bool) \<times> lim_state" where
  "lim_step su fl dc params c st =
     (case redisLimiter_Allow su (lk_clocks c) (lim_backend fl dc st) (Some (fixed_limiter params)) (lk_key c) (lk_cost c) of
        ((d, e), be') \<Rightarrow> ((de_Allowed (the d), e = None),
           (the (be_redis be'), be_breaker be', the (fl_local (the (be_fallback be'))))))"

definition by_store :: "surroundings \<Rightarrow> FallbackLimiter \<Rightarrow> DegradeController option \<Rightarrow> RuleParams \<Rightarrow> lim_call \<Rightarrow> lim_state \<Rightarrow> bool \<times> lim_state" where
  "by_store su fl dc params c st = (case lim_step su fl dc params c st of ((a, s), st') \<Rightarrow> (a \<and> s, st'))"

definition by_fallback :: "surroundings \<Rightarrow> FallbackLimiter \<Rightarrow> DegradeController option \<Rightarrow> RuleParams \<Rightarrow> lim_call \<Rightarrow> lim_state \<Rightarrow> bool \<times> lim_state" where
  "by_fallback su fl dc params c st = (case lim_step su fl dc params c st of ((a, s), st') \<Rightarrow> (a \<and> \<not> s, st'))"

definition store_call :: "RuleParams \<Rightarrow> lim_call \<Rightarrow> wcall option" where
  "store_call params c = fixed_call (RExec opFixedWindow (lk_key c) params (lk_cost c) (ck_redis (lk_clocks c) 0))"

definition lim_fbcall :: "RuleParams \<Rightarrow> lim_call \<Rightarrow> fbcall" where
  "lim_fbcall params c = \<lparr>fb_key = lk_key c, fb_params = params, fb_cost = lk_cost c, fb_now = ck_fallback (lk_clocks c) 0\<rparr>"

lemma lim_step_cases:
  "(\<exists>a r' b'. lim_step su fl dc params c (r, b, ls) = ((a, True), (r', b', ls))
      \<and> redis_step (RExec opFixedWindow (lk_key c) params (lk_cost c) (ck_redis (lk_clocks c) 0)) r = (a, r'))
   \<or> (\<exists>a b' ls'. lim_step su fl dc params c (r, b, ls) = ((a, False), (r, b', ls'))
      \<and> fallback_step (su_ownership su) (su_mship su) dc fl (lim_fbcall params c) ls = (a, ls'))"
proof -
  let ?be = "lim_backend fl dc (r, b, ls)"
  obtain d e be' where a: "redisLimiter_Allow su (lk_clocks c) ?be (Some (fixed_limiter params)) (lk_key c) (lk_cost c) = ((d, e), be')"
    by (metis prod.collapse)
  have f: "be_fallback ?be = Some (fl\<lparr>fl_local := Some ls\<rparr>)" by (simp add: lim_backend_def)
  from Allow_outcome [OF f a] obtain dec where d: "d = Some dec" and
    out: "e = None \<and> from_store (lk_clocks c) ?be (fixed_limiter params) (lk_key c) (lk_cost c) dec be' \<or>
     e = Some (ErrUsedFallback ''fallback'') \<and> from_fallback su (lk_clocks c) ?be (fixed_limiter params) (lk_key c) (lk_cost c) dec be'"
    by blast
  have st: "lim_step su fl dc params c (r, b, ls) = ((de_Allowed dec, e = None),
     (the (be_redis be'), be_breaker be', the (fl_local (the (be_fallback be')))))"
    using a d by (simp add: lim_step_def)
  show ?thesis
  proof (cases "e = None")
    case True
    with out obtain r1 where "execFixedWindowLocked (ck_redis (lk_clocks c) 0) r (lk_key c) params (lk_cost c) = (Inr dec, r1)"
      "be_redis be' = Some r1" "be_fallback be' = Some (fl\<lparr>fl_local := Some ls\<rparr>)"
      by (auto simp: from_store_def lim_backend_def fixed_limiter_def)
    with st True show ?thesis by simp
  next
    case False
    with out have "Fallback_Allow (su_ownership su) (su_mship su) dc (ck_fallback (lk_clocks c) 0)
        (Some (fl\<lparr>fl_local := Some ls\<rparr>)) (lk_key c) params (lk_cost c) = (dec, be_fallback be')" "be_redis be' = Some r"
      by (auto simp: from_fallback_def lim_backend_def fixed_limiter_def)
    with st False show ?thesis by (simp add: fallback_step_def lim_fbcall_def)
  qed
qed

interpretation store_side: window_counter "\<lambda>st. fixed_get (fst st)" "by_store su fl dc params" "store_call params"
proof
  fix op :: lim_call and k and s :: lim_state
  assume n: "\<And>c. store_call params op = Some c \<Longrightarrow> wc_key c \<noteq> k"
  obtain r b ls where s: "s = (r, b, ls)" by (cases s) auto
  let ?cmd = "RExec opFixedWindow (lk_key op) params (lk_cost op) (ck_redis (lk_clocks op) 0)"
  have "fixed_get (snd (redis_step ?cmd r)) k = fixed_get r k"
    using n by (intro fixed_counter.frame) (auto simp: store_call_def)
  then show "fixed_get (fst (snd (by_store su fl dc params op s))) k = fixed_get (fst s) k"
    using lim_step_cases [of su fl dc params op r b ls] s by (auto simp: by_store_def)
next
  fix op :: lim_call and c and s :: lim_state and a s'
  assume op: "store_call params op = Some c" "0 < wc_window c" "by_store su fl dc params op s = (a, s')"
  obtain r b ls where s: "s = (r, b, ls)" by (cases s) auto
  let ?cmd = "RExec opFixedWindow (lk_key op) params (lk_cost op) (ck_redis (lk_clocks op) 0)"
  have "(\<not> a \<and> fst s' = r) \<or> redis_step ?cmd r = (a, fst s')"
    using lim_step_cases [of su fl dc params op r b ls] op(3) s by (auto simp: by_store_def)
  then show "(\<not> a \<and> fixed_get (fst s') (wc_key c) = fixed_get (fst s) (wc_key c)) \<or>
      (0 < wc_cost c \<and> (let u = wrap64 (used_in (fixed_get (fst s) (wc_key c)) (wc_start c) + wc_cost c) in
         a = (u \<le> wc_limit c) \<and>
         fixed_get (fst s') (wc_key c) = Some (wc_start c, if a then u else used_in (fixed_get (fst s) (wc_key c)) (wc_start c))))"
    using fixed_counter.hit [OF op(1) [unfolded store_call_def] op(2), of r a "fst s'"] s
    by (elim disjE) (simp_all only: fst_conv snd_conv simp_thms)
qed

interpretation fallback_side: window_counter "\<lambda>st. local_get (snd (snd st))" "by_fallback su fl dc params"
  "\<lambda>c. fallback_call (su_mship su) dc fl (lim_fbcall params c)"
proof
  fix op :: lim_call and k and s :: lim_state
  assume n: "\<And>c. fallback_call (su_mship su) dc fl (lim_fbcall params op) = Some c \<Longrightarrow> wc_key c \<noteq> k"
  obtain r b ls where s: "s = (r, b, ls)" by (cases s) auto
  have "local_get (snd (fallback_step (su_ownership su) (su_mship su) dc fl (lim_fbcall params op) ls)) k = local_get ls k"
    using n by (intro fallback_counter.frame)
  then show "local_get (snd (snd (snd (by_fallback su fl dc params op s)))) k = local_get (snd (snd s)) k"
    using lim_step_cases [of su fl dc params op r b ls] s by (auto simp: by_fallback_def)
next
  fix op :: lim_call and c and s :: lim_state and a s'
  assume op: "fallback_call (su_mship su) dc fl (lim_fbcall params op) = Some c" "0 < wc_window c" "by_fallback su fl dc params op s = (a, s')"
  obtain r b ls where s: "s = (r, b, ls)" by (cases s) auto
  have "(\<not> a \<and> snd (snd s') = ls) \<or> fallback_step (su_ownership su) (su_mship su) dc fl (lim_fbcall params op) ls = (a, snd (snd s'))"
    using lim_step_cases [of su fl dc params op r b ls] op(3) s by (auto simp: by_fallback_def)
  then show "(\<not> a \<and> local_get (snd (snd s')) (wc_key c) = local_get (snd (snd s)) (wc_key c)) \<or>
      (0 < wc_cost c \<and> (let u = wrap64 (used_in (local_get (snd (snd s)) (wc_key c)) (wc_start c) + wc_cost c) in
         a = (u \<le> wc_limit c) \<and>
         local_get (snd (snd s')) (wc_key c) = Some (wc_start c, if a then u else used_in (local_get (snd (snd s)) (wc_key c)) (wc_start c))))"
    using fallback_counter.hit [of "su_mship su" dc fl "lim_fbcall params op" c "su_ownership su" ls a "snd (snd s')"] op(1,2) s
    by (auto simp: Let_def)
qed

lemma run_ops_map:
  "fst (run_ops (\<lambda>c st. case step c st of (x, st') \<Rightarrow> (f x, st')) ops s) = map (\<lambda>(c, x). (c, f x)) (fst (run_ops step ops s))"
  by (induction ops arbitrary: s) (auto simp: case_prod_beta Let_def)

lemma by_sides:
  "by_store su fl dc params = (\<lambda>c st. case lim_step su fl dc params c st of (x, st') \<Rightarrow> ((case x of (a, s) \<Rightarrow> a \<and> s), st'))"
  "by_fallback su fl dc params = (\<lambda>c st. case lim_step su fl dc params c st of (x, st') \<Rightarrow> ((case x of (a, s) \<Rightarrow> a \<and> \<not> s), st'))"
  by (auto simp: by_store_def by_fallback_def fun_eq_iff split: prod.split)


definition sample_limcalls :: "lim_call list" where
  "sample_limcalls = map (\<lambda>(cost, t). \<lparr>lk_key = ''k'', lk_cost = cost, lk_clocks = sample_clocks t\<rparr>) [(2, 100), (2, 101), (3, 105), (1, 111)]"

definition sample_results :: "(lim_call \<times> bool \<times> bool) list" where
  "sample_results = fst (run_ops (lim_step sample_surroundings sample_fallback None (sample_params 5 10)) sample_limcalls
       (NewInMemoryRedis, Some (NewCircuitBreaker default_options), \<lparr>ls_windows = []\<rparr>))"


end
