(* ===== verification/Sliding_Window.thy ===== *)
theory Sliding_Window
  imports Mem_Redis
begin

text \<open>
  The sliding window of the store: the stored events are the admitted ones that are not older
  than a window, so no interval of that length sees more than the limit.
\<close>

section \<open>Sliding windows\<close>

fun sliding_call :: "redis_cmd \<Rightarrow> wcall option" where
  "sliding_call (RExec opSlidingWindow key params cost now) =
     Some \<lparr>wc_key = key, wc_limit = rp_Limit params, wc_window = rp_Window params, wc_cost = cost, wc_now = now\<rparr>"
| "sliding_call _ = None"

text \<open>The events a run admitted on a key, and the cost of those in a closed interval.\<close>

definition admitted_events :: "string \<Rightarrow> (redis_cmd \<times> bool) list \<Rightarrow> swEvent list" where
  "admitted_events k rs = concat (map (\<lambda>(op, ok). case sliding_call op of None \<Rightarrow> []
      | Some c \<Rightarrow> if ok \<and> wc_key c = k then [\<lparr>se_t = wc_now c, se_cost = wc_cost c\<rparr>] else []) rs)"

definition cost_between :: "time \<Rightarrow> time \<Rightarrow> swEvent list \<Rightarrow> int" where
  "cost_between a b es = sum_list (map se_cost (filter (\<lambda>e. a \<le> se_t e \<and> se_t e \<le> b) es))"

definition sw_at :: "InMemoryRedis \<Rightarrow> string \<Rightarrow> swEvent list" where
  "sw_at r k = (case gm_get (rd_slidingWindows r) k of None \<Rightarrow> [] | Some s \<Rightarrow> sw_events s)"

text \<open>The stored events are the admitted ones not older than a window at the last call.\<close>

definition sw_ok :: "InMemoryRedis \<Rightarrow> string \<Rightarrow> int64 \<Rightarrow> duration \<Rightarrow> swEvent list \<Rightarrow> time \<Rightarrow> bool" where
  "sw_ok r k L W H T \<longleftrightarrow>
     (\<forall>e \<in> set H. 0 < se_cost e \<and> se_t e \<le> T)
     \<and> (\<forall>s. gm_get (rd_slidingWindows r) k = Some s \<longrightarrow> sw_window s = W)
     \<and> sw_at r k = filter (\<lambda>e. T - W \<le> se_t e) H
     \<and> (\<forall>a. cost_between a (a + W) H \<le> L)"

lemma sum_costs_snoc: "sum_costs (es @ [e]) = wrap64 (sum_costs es + se_cost e)"
  by (simp add: sum_costs_def)

lemma sum_costs_exact:
  "(\<forall>e \<in> set es. 0 < se_cost e) \<Longrightarrow> sum_list (map se_cost es) \<le> max_int64 \<Longrightarrow>
   sum_costs es = sum_list (map se_cost es) \<and> 0 \<le> sum_list (map se_cost es)"
proof (induction es rule: rev_induct)
  case (snoc e es)
  then have "sum_costs es = sum_list (map se_cost es) \<and> 0 \<le> sum_list (map se_cost es)" by simp
  with snoc.prems show ?case by (auto simp: sum_costs_snoc int64_bounds intro!: wrap64_id)
qed (simp add: sum_costs_def)

lemma cost_between_snoc:
  "cost_between a b (es @ [e]) = cost_between a b es + (if a \<le> se_t e \<and> se_t e \<le> b then se_cost e else 0)"
  by (simp add: cost_between_def)

lemma sw_step:
  assumes ok: "sw_ok r k L W H T" and T: "T \<le> now" and W: "0 < W" "rp_Window params = W" and L: "rp_Limit params = L"
    "0 \<le> L" "L \<le> max_int64" and c: "cost \<le> max_int64 - L"
    and ex: "redis_step (RExec opSlidingWindow k params cost now) r = (a, r')"
  shows "sw_ok r' k L W (H @ (if a then [\<lparr>se_t = now, se_cost = cost\<rparr>] else [])) now
    \<or> (\<not> a \<and> r' = r)"
proof (cases "rd_healthy r \<and> 0 < cost \<and> 0 < rp_Limit params")
  case False
  then obtain e where "exec_kind opSlidingWindow now r k params cost = (Inl e, r)"
    using exec_refuses [of r cost params opSlidingWindow now k] by blast
  with ex show ?thesis by simp
next
  case True
  let ?f = "filter (\<lambda>e. now - W \<le> se_t e) H"
  have f: "filter (\<lambda>e. now - W < se_t e \<or> se_t e = now - W) (sw_at r k) = ?f"
    using ok T by (auto simp: sw_ok_def intro!: filter_cong)
  have le: "\<forall>e \<in> set H. se_t e \<le> now" using ok T by (auto simp: sw_ok_def)
  then have "cost_between (now - W) (now - W + W) H = sum_list (map se_cost ?f)"
    unfolding cost_between_def by (intro arg_cong [of _ _ sum_list] arg_cong [of _ _ "map se_cost"] filter_cong) auto
  moreover have "cost_between (now - W) (now - W + W) H \<le> L" using ok unfolding sw_ok_def by blast
  ultimately have b: "sum_list (map se_cost ?f) \<le> L" by simp
  have pos: "\<forall>e \<in> set ?f. 0 < se_cost e" using ok by (auto simp: sw_ok_def)
  have sc: "sum_costs ?f = sum_list (map se_cost ?f)" "0 \<le> sum_list (map se_cost ?f)"
    using sum_costs_exact [OF pos] b L(3) by auto
  have w: "wrap64 (sum_costs ?f + cost) = sum_list (map se_cost ?f) + cost"
    using sc b c True by (auto simp: int64_bounds intro!: wrap64_id)
  have st: "(if sw_window s \<noteq> W then \<lparr>sw_window = W, sw_events = []\<rparr> else s) = s"
    if "gm_get (rd_slidingWindows r) k = Some s" for s
    using ok that by (simp add: sw_ok_def)
  have r: "a = (sum_list (map se_cost ?f) + cost \<le> L)"
    "gm_get (rd_slidingWindows r') k = Some \<lparr>sw_window = W, sw_events = ?f @ (if a then [\<lparr>se_t = now, se_cost = cost\<rparr>] else [])\<rparr>"
    using ex True W L(1) f w ok
    by (cases "gm_get (rd_slidingWindows r) k"; auto simp: execSlidingWindowLocked_def Let_def sw_at_def time_Add_def sw_ok_def)+
  have "cost_between x (x + W) (H @ (if a then [\<lparr>se_t = now, se_cost = cost\<rparr>] else [])) \<le> L" for x
  proof (cases "a \<and> x \<le> now \<and> now \<le> x + W")
    case True
    have "cost_between x (x + W) H \<le> sum_list (map se_cost ?f)"
      unfolding cost_between_def using ok True by (intro sum_list_filter_le) (auto simp: sw_ok_def)
    with True r(1) show ?thesis by (simp add: cost_between_snoc)
  next
    case False
    then show ?thesis using ok by (auto simp: sw_ok_def cost_between_snoc)
  qed
  with r le True T ok W show ?thesis by (auto simp: sw_ok_def sw_at_def)
qed

lemma sliding_frame:
  assumes "\<And>c. sliding_call op = Some c \<Longrightarrow> wc_key c \<noteq> k"
  shows "gm_get (rd_slidingWindows (snd (redis_step op r))) k = gm_get (rd_slidingWindows r) k"
proof (cases op)
  case (RExec kind key params cost now)
  show ?thesis
  proof (cases kind)
    case opSlidingWindow
    then have "key \<noteq> k" using assms RExec by simp
    then show ?thesis using RExec opSlidingWindow
      by (simp only: redis_step_snd) (simp add: execSlidingWindowLocked_def Let_def)
  next
    case opTokenBucket
    with RExec show ?thesis by (simp only: redis_step_snd exec_kind.simps exec_frames)
  next
    case opFixedWindow
    with RExec show ?thesis by (simp only: redis_step_snd exec_kind.simps exec_frames)
  qed
qed simp

lemma calm_tail: "calm call k L W (op # ops) \<Longrightarrow> calm call k L W ops"
  by (auto simp: calm_def map_filter_simps split: option.splits if_splits)

lemma sliding_run:
  assumes "calm sliding_call k L W ops" "0 < W" "0 \<le> L" "L \<le> max_int64" "sw_ok r k L W H T"
    and "\<And>op c. op \<in> set ops \<Longrightarrow> sliding_call op = Some c \<Longrightarrow> wc_key c = k \<Longrightarrow> T \<le> wc_now c"
  shows "\<exists>r' T'. sw_ok r' k L W (H @ admitted_events k (fst (run_ops redis_step ops r))) T'"
  using assms
proof (induction ops arbitrary: r H T)
  case Nil
  then show ?case by (auto simp: admitted_events_def)
next
  case (Cons op ops)
  obtain a r1 where st: "redis_step op r = (a, r1)" by fastforce
  have adm: "admitted_events k (fst (run_ops redis_step (op # ops) r)) =
    admitted_events k [(op, a)] @ admitted_events k (fst (run_ops redis_step ops r1))"
    using st by (simp add: run_ops_Cons admitted_events_def del: run_ops.simps redis_step.simps)
  note cl = calm_tail [OF Cons.prems(1)]
  show ?case
  proof (cases "\<exists>c. sliding_call op = Some c \<and> wc_key c = k")
    case False
    have "sw_ok r1 k L W H T"
      using Cons.prems(5) sliding_frame [of op k r] False st by (auto simp: sw_ok_def sw_at_def)
    from Cons.IH [OF cl Cons.prems(2-4) this] Cons.prems(6) False
    show ?thesis unfolding adm by (auto simp: admitted_events_def split: option.splits)
  next
    case True
    then obtain params cost now where o: "op = RExec opSlidingWindow k params cost now"
      by (cases op rule: sliding_call.cases) auto
    have p: "rp_Limit params = L" "rp_Window params = W" "cost \<le> max_int64 - L"
      using Cons.prems(1) o by (auto simp: calm_def)
    have T: "T \<le> now" using Cons.prems(6) [of op] o by simp
    have later: "now \<le> wc_now c'" if "op' \<in> set ops" "sliding_call op' = Some c'" "wc_key c' = k" for op' c'
    proof -
      have "c' \<in> set (List.map_filter sliding_call ops)" using that by (force simp: List.map_filter_def)
      with Cons.prems(1) o that show ?thesis by (auto simp: calm_def map_filter_simps)
    qed
    have e: "admitted_events k [(op, a)] = (if a then [\<lparr>se_t = now, se_cost = cost\<rparr>] else [])"
      using o by (simp add: admitted_events_def)
    from sw_step [OF Cons.prems(5) T Cons.prems(2) p(2,1) Cons.prems(3,4) p(3)] st o
    consider "sw_ok r1 k L W (H @ admitted_events k [(op, a)]) now" | "\<not> a" "r1 = r" unfolding e by auto
    then show ?thesis
    proof cases
      case 1
      from Cons.IH [OF cl Cons.prems(2-4) 1] later show ?thesis unfolding adm by auto
    next
      case 2
      from Cons.IH [OF cl Cons.prems(2-5)] Cons.prems(6) 2 e show ?thesis unfolding adm by auto
    qed
  qed
qed

section \<open>Property\<close>

text \<open>C13 (safety). The sliding-window algorithm bounds every interval: over any run of the store, the
  costs admitted on one key during any closed interval as long as the window sum to at most
  the rule's limit.\<close>

theorem redis_sliding_window_limit:
  assumes "calm sliding_call k L W ops" "0 < W" "0 \<le> L" "L \<le> max_int64"
  shows "cost_between a (a + W) (admitted_events k (fst (run_ops redis_step ops NewInMemoryRedis))) \<le> L"
proof -
  let ?nows = "map wc_now (filter (\<lambda>c. wc_key c = k) (List.map_filter sliding_call ops))"
  let ?T = "if ?nows = [] then 0 else hd ?nows"
  have "sw_ok NewInMemoryRedis k L W [] ?T"
    using assms(3) by (simp add: sw_ok_def sw_at_def NewInMemoryRedis_def cost_between_def)
  moreover have "?T \<le> wc_now c" if "op \<in> set ops" "sliding_call op = Some c" "wc_key c = k" for op c
  proof -
    have "wc_now c \<in> set ?nows" using that by (force simp: List.map_filter_def)
    moreover have "sorted ?nows" using assms(1) by (simp add: calm_def)
    ultimately show ?thesis by (cases ?nows) auto
  qed
  ultimately have "\<exists>r' T'. sw_ok r' k L W ([] @ admitted_events k (fst (run_ops redis_step ops NewInMemoryRedis))) T'"
    by (intro sliding_run [OF assms(1-4)])
  then show ?thesis by (auto simp: sw_ok_def)
qed

theorem redis_sliding_window_limit_witness:
  "cost_between 102 (102 + 10) (admitted_events ''k'' (fst (run_ops redis_step (sample_cmds opSlidingWindow) NewInMemoryRedis))) \<le> 5"
  by (rule redis_sliding_window_limit)
    (simp_all add: calm_def sample_cmds_def sample_params_def max_int64_def map_filter_simps)

end
