(* ===== verification/Token_Bucket.thy ===== *)
theory Token_Bucket
  imports Mem_Redis
begin

text \<open>
  The token bucket of the store in double precision: the bucket stays between empty and full,
  taking tokens is exact, a refill adds the elapsed share of the limit up to rounding, and so
  the admitted cost obeys the rate.
\<close>

section \<open>Token buckets\<close>

definition refill :: "int64 \<Rightarrow> float64 \<Rightarrow> float64 \<Rightarrow> float64 \<Rightarrow> float64" where
  "refill C rate elapsed t = (if elapsed > 0 then min (float64_of C) (fl64 (t + fl64 (elapsed * rate))) else t)"

text \<open>The bucket a call works on: the stored one or a full one.\<close>

definition bucket_at :: "InMemoryRedis \<Rightarrow> string \<Rightarrow> int64 \<Rightarrow> time \<Rightarrow> tbState" where
  "bucket_at r k C now = (case gm_get (rd_tokenBuckets r) k of None \<Rightarrow> \<lparr>tb_tokens = float64_of C, tb_last = now\<rparr> | Some s \<Rightarrow> s)"

definition bucket_ok :: "tbState \<Rightarrow> int64 \<Rightarrow> bool" where
  "bucket_ok s C \<longleftrightarrow> 0 \<le> tb_tokens s \<and> tb_tokens s \<le> float64_of C \<and> fl64 (tb_tokens s) = tb_tokens s"

definition buckets_ok :: "InMemoryRedis \<Rightarrow> string \<Rightarrow> int64 \<Rightarrow> bool" where
  "buckets_ok r k C \<longleftrightarrow> (\<forall>s. gm_get (rd_tokenBuckets r) k = Some s \<longrightarrow> bucket_ok s C)"

lemma tb_exec:
  assumes "rd_healthy r" "0 < cost" "0 < rp_Limit params" "0 < rp_Window params"
  shows "let s = bucket_at r k (tb_capacity params) now;
      t1 = refill (tb_capacity params) (tb_rate params (rp_Window params)) (Seconds (time_Sub now (tb_last s))) (tb_tokens s);
      a = float64_of cost \<le> t1; t2 = (if a then fl64 (t1 - float64_of cost) else t1)
    in \<exists>d. execTokenBucketLocked now r k params cost =
        (Inr d, r\<lparr>rd_tokenBuckets := gm_put k \<lparr>tb_tokens = t2, tb_last = now\<rparr> (rd_tokenBuckets r)\<rparr>)
      \<and> de_Allowed d = a \<and> de_Remaining d = int64_of_float (of_int \<lfloor>t2\<rfloor>) \<and> de_Limit d = rp_Limit params"
proof (cases "gm_get (rd_tokenBuckets r) k")
  case None
  with assms show ?thesis by (simp add: execTokenBucketLocked_def bucket_at_def refill_def Let_def)
next
  case (Some s)
  moreover obtain t l where "s = \<lparr>tb_tokens = t, tb_last = l\<rparr>" by (cases s) simp
  ultimately show ?thesis using assms by (simp add: execTokenBucketLocked_def bucket_at_def refill_def Let_def)
qed

lemma tb_rate_nonneg: "0 < rp_Limit params \<Longrightarrow> 0 < w \<Longrightarrow> in_int64 w \<Longrightarrow> 0 \<le> tb_rate params w"
  using Seconds_pos [of w] float64_of_pos [of "rp_Limit params"]
  by (simp add: tb_rate_def fl.rnd_nonneg)

lemma refill_ok:
  assumes "bucket_ok s C" "0 \<le> rate"
  shows "0 \<le> refill C rate e (tb_tokens s)" "refill C rate e (tb_tokens s) \<le> float64_of C"
    "fl64 (refill C rate e (tb_tokens s)) = refill C rate e (tb_tokens s)"
proof -
  have "0 < e \<Longrightarrow> 0 \<le> fl64 (tb_tokens s + fl64 (e * rate))"
    using assms by (intro fl.rnd_nonneg) (simp add: bucket_ok_def fl.rnd_nonneg)
  moreover have "0 \<le> float64_of C" using assms(1) by (auto simp: bucket_ok_def)
  ultimately show "0 \<le> refill C rate e (tb_tokens s)" "refill C rate e (tb_tokens s) \<le> float64_of C"
    "fl64 (refill C rate e (tb_tokens s)) = refill C rate e (tb_tokens s)"
    using assms(1) by (simp_all add: refill_def bucket_ok_def fl.rnd_min)
qed

lemma bucket_at_ok: "buckets_ok r k C \<Longrightarrow> 0 < C \<Longrightarrow> bucket_ok (bucket_at r k C now) C"
  using float64_of_pos [of C] by (auto simp: buckets_ok_def bucket_at_def bucket_ok_def split: option.split)

lemma tb_capacity_pos: "0 < rp_Limit params \<Longrightarrow> 0 < tb_capacity params"
  by (simp add: tb_capacity_def)

lemma tb_exec_ok:
  assumes "buckets_ok r k (tb_capacity params)" "0 < rp_Window params" "in_int64 (rp_Window params)"
    and "execTokenBucketLocked now r k params cost = (res, r')"
  shows "buckets_ok r' k (tb_capacity params)"
proof (cases "rd_healthy r \<and> 0 < cost \<and> 0 < rp_Limit params")
  case False
  with exec_refuses [of r cost params opTokenBucket now k] assms(1,4) show ?thesis by auto
next
  case True
  let ?C = "tb_capacity params"
  define t1 where "t1 = refill ?C (tb_rate params (rp_Window params))
    (Seconds (time_Sub now (tb_last (bucket_at r k ?C now)))) (tb_tokens (bucket_at r k ?C now))"
  have b: "bucket_ok (bucket_at r k ?C now) ?C" using assms(1) True by (intro bucket_at_ok tb_capacity_pos) auto
  have t1: "0 \<le> t1" "t1 \<le> float64_of ?C" "fl64 t1 = t1"
    unfolding t1_def using True assms(2,3) by (auto intro!: refill_ok [OF b] tb_rate_nonneg)
  have "0 < float64_of cost" using True by (simp add: float64_of_pos)
  then have "float64_of cost \<le> t1 \<Longrightarrow> 0 \<le> fl64 (t1 - float64_of cost) \<and> fl64 (t1 - float64_of cost) \<le> t1"
    using fl.rnd_diff_bounds [of "float64_of cost" t1] t1 by simp
  with t1 show ?thesis using tb_exec [of r cost params k now] True assms(2,4)
    by (auto simp: Let_def buckets_ok_def bucket_ok_def t1_def [symmetric] split: if_splits)
qed

text \<open>How much a refill can add, rounding included.\<close>

lemma tb_rate_upper:
  assumes "0 < rp_Limit params" "0 < w" "in_int64 w"
  shows "tb_rate params w * (1 - unit_roundoff)\<^sup>2 \<le> of_int (rp_Limit params) * 1000000000 / of_int w * (1 + unit_roundoff)\<^sup>2"
proof -
  let ?u = unit_roundoff and ?L = "real_of_int (rp_Limit params)" and ?w = "real_of_int w / 1000000000"
  have u: "0 < ?u" "?u < 1" by (simp_all add: unit_roundoff_def)
  have w: "0 < ?w" using assms by simp
  have S: "?w * (1 - ?u)\<^sup>2 \<le> Seconds w" "0 < Seconds w"
    using Seconds_bounds(1) [of w] Seconds_pos [of w] assms by auto
  have p: "0 < ?w * (1 - ?u)\<^sup>2" using w u by simp
  have l: "float64_of (rp_Limit params) \<le> ?L * (1 + ?u)" "0 \<le> float64_of (rp_Limit params)"
    using fl64_upper [of ?L] assms(1) float64_of_pos [OF assms(1)] by (simp_all add: float64_of_def less_imp_le)
  have "float64_of (rp_Limit params) / Seconds w \<le> ?L * (1 + ?u) / (?w * (1 - ?u)\<^sup>2)"
    using l S p by (intro frac_le) auto
  moreover have "tb_rate params w \<le> float64_of (rp_Limit params) / Seconds w * (1 + ?u)"
    unfolding tb_rate_def using l S by (intro fl64_upper) simp
  ultimately have "tb_rate params w \<le> ?L * (1 + ?u) / (?w * (1 - ?u)\<^sup>2) * (1 + ?u)"
    using u by (meson mult_right_mono order_trans add_nonneg_nonneg less_imp_le zero_le_one)
  then have "tb_rate params w * (1 - ?u)\<^sup>2 \<le> ?L * (1 + ?u) / (?w * (1 - ?u)\<^sup>2) * (1 + ?u) * (1 - ?u)\<^sup>2"
    using u by (intro mult_right_mono) auto
  also have "\<dots> = ?L / ?w * (1 + ?u)\<^sup>2" using u w by (simp add: power2_eq_square)
  finally show ?thesis by simp
qed

text \<open>The relative error of all roundings of a refill.\<close>

definition rate_slack :: real where "rate_slack = 1 + 1 / 2 ^ 49"

lemma roundoff_product: "(1 + unit_roundoff) ^ 6 \<le> rate_slack * (1 - unit_roundoff)\<^sup>2"
  by (simp add: unit_roundoff_def rate_slack_def power_divide)

lemma power5_shape:
  fixes v a L w :: real
  shows "a / 1000000000 * v\<^sup>2 * (L * 1000000000 / w * v\<^sup>2) * v = L * a / w * v ^ 5"
    and "x * v ^ 5 * v = x * v ^ 6"
  by (simp_all add: eval_nat_numeral)

lemma refill_gain:
  assumes "0 < rp_Limit params" "0 < w" "in_int64 w" "0 \<le> \<Delta>" "in_int64 \<Delta>" "0 \<le> t" "t \<le> of_int C"
  shows "refill C (tb_rate params w) (Seconds \<Delta>) t
     \<le> t + rate_slack * (of_int (rp_Limit params) * of_int \<Delta> / of_int w) + of_int C / 2 ^ 53"
proof -
  let ?u = unit_roundoff and ?R = "tb_rate params w" and ?L = "real_of_int (rp_Limit params)"
  let ?q = "?L * of_int \<Delta> / of_int w"
  have u: "0 < ?u" "?u < 1" by (simp_all add: unit_roundoff_def)
  have q: "0 \<le> ?q" using assms by simp
  show ?thesis
  proof (cases "Seconds \<Delta> > 0")
    case False
    have "0 \<le> rate_slack" by (simp add: rate_slack_def)
    then have "0 \<le> rate_slack * ?q" using q by (rule mult_nonneg_nonneg)
    moreover have "0 \<le> real_of_int C / 2 ^ 53" using assms(6,7) by simp
    ultimately have "t \<le> t + rate_slack * ?q + real_of_int C / 2 ^ 53" by linarith
    then show ?thesis using False by (simp add: refill_def)
  next
    case True
    have R: "0 \<le> ?R" using tb_rate_nonneg assms by blast
    have e: "Seconds \<Delta> \<le> of_int \<Delta> / 1000000000 * (1 + ?u)\<^sup>2" using Seconds_bounds(2) assms by blast
    define g where "g = fl64 (Seconds \<Delta> * ?R)"
    have g0: "0 \<le> g" unfolding g_def using True R by (intro fl.rnd_nonneg) simp
    have "g \<le> Seconds \<Delta> * ?R * (1 + ?u)" unfolding g_def using True R by (intro fl64_upper) simp
    also have "\<dots> \<le> of_int \<Delta> / 1000000000 * (1 + ?u)\<^sup>2 * ?R * (1 + ?u)"
      using e R u by (intro mult_right_mono) auto
    finally have "g * (1 - ?u)\<^sup>2 \<le> of_int \<Delta> / 1000000000 * (1 + ?u)\<^sup>2 * (?R * (1 - ?u)\<^sup>2) * (1 + ?u)"
      using u by (simp add: mult_right_mono mult.assoc mult.left_commute mult.commute)
    also have "\<dots> \<le> of_int \<Delta> / 1000000000 * (1 + ?u)\<^sup>2 * (?L * 1000000000 / of_int w * (1 + ?u)\<^sup>2) * (1 + ?u)"
      using tb_rate_upper [OF assms(1-3)] u assms(4) by (intro mult_right_mono mult_left_mono) auto
    also have "\<dots> = ?q * (1 + ?u) ^ 5" by (rule power5_shape(1))
    finally have g1: "g * (1 - ?u)\<^sup>2 \<le> ?q * (1 + ?u) ^ 5" .
    have "g * (1 - ?u)\<^sup>2 * (1 + ?u) \<le> ?q * (1 + ?u) ^ 5 * (1 + ?u)" using g1 u by (intro mult_right_mono) auto
    then have "g * (1 + ?u) * (1 - ?u)\<^sup>2 \<le> ?q * (1 + ?u) ^ 6"
      unfolding power5_shape(2) by (simp only: mult.assoc mult.commute mult.left_commute)
    also have "\<dots> \<le> ?q * (rate_slack * (1 - ?u)\<^sup>2)" using q roundoff_product by (rule mult_left_mono [rotated])
    finally have "g * (1 + ?u) * (1 - ?u)\<^sup>2 \<le> ?q * rate_slack * (1 - ?u)\<^sup>2" by (simp only: mult.assoc)
    then have g2: "g * (1 + ?u) \<le> ?q * rate_slack" using u by (simp only: mult_le_cancel_right) auto
    have "fl64 (t + g) \<le> (t + g) * (1 + ?u)" using assms(6) g0 by (intro fl64_upper) simp
    also have "\<dots> = t + g * (1 + ?u) + t * ?u" by (simp add: algebra_simps)
    also have "\<dots> \<le> t + ?q * rate_slack + of_int C * ?u" using g2 assms(7) u by (intro add_mono mult_right_mono) auto
    finally have "fl64 (t + g) \<le> t + rate_slack * ?q + of_int C / 2 ^ 53"
      by (simp only: mult.commute [of _ rate_slack] unit_roundoff_def times_divide_eq_right mult_1_right)
    moreover have "refill C ?R (Seconds \<Delta>) t \<le> fl64 (t + g)" using True by (simp add: refill_def g_def)
    ultimately show ?thesis by (rule order_trans [rotated])
  qed
qed

fun is_bucket :: "string \<Rightarrow> redis_cmd \<Rightarrow> bool" where
  "is_bucket k (RExec opTokenBucket key params cost now) = (key = k)"
| "is_bucket k _ = False"

fun cmd_params :: "redis_cmd \<Rightarrow> RuleParams option" where
  "cmd_params (RExec kind key params cost now) = Some params"
| "cmd_params (RSetHealthy v) = None"

fun cmd_cost :: "redis_cmd \<Rightarrow> int64" where
  "cmd_cost (RExec kind key params cost now) = cost"
| "cmd_cost (RSetHealthy v) = 0"

fun cmd_now :: "redis_cmd \<Rightarrow> time" where
  "cmd_now (RExec kind key params cost now) = now"
| "cmd_now (RSetHealthy v) = 0"

text \<open>Traffic on one bucket: one rule, and a clock that does not run backwards.\<close>

definition bucket_calm :: "string \<Rightarrow> RuleParams \<Rightarrow> time \<Rightarrow> time \<Rightarrow> redis_cmd list \<Rightarrow> bool" where
  "bucket_calm k params t0 t1 ops \<longleftrightarrow>
     (\<forall>op \<in> set ops. is_bucket k op \<longrightarrow> cmd_params op = Some params \<and> t0 \<le> cmd_now op \<and> cmd_now op \<le> t1)
     \<and> sorted (map cmd_now (filter (is_bucket k) ops))"

definition bucket_spent :: "string \<Rightarrow> (redis_cmd \<times> bool) list \<Rightarrow> int" where
  "bucket_spent k rs = sum_list (map (\<lambda>(op, ok). if ok \<and> is_bucket k op then cmd_cost op else 0) rs)"

lemma is_bucketE:
  assumes "is_bucket k op"
  obtains params cost now where "op = RExec opTokenBucket k params cost now"
  using assms by (cases "(k, op)" rule: is_bucket.cases) auto

lemma bucket_frame:
  assumes "\<not> is_bucket k op"
  shows "gm_get (rd_tokenBuckets (snd (redis_step op r))) k = gm_get (rd_tokenBuckets r) k"
proof (cases op)
  case (RExec kind key params cost now)
  show ?thesis
  proof (cases kind)
    case opTokenBucket
    then have "key \<noteq> k" using assms RExec by simp
    then show ?thesis using RExec opTokenBucket
      by (simp only: redis_step_snd) (simp add: execTokenBucketLocked_def Let_def)
  next
    case opFixedWindow
    with RExec show ?thesis by (simp only: redis_step_snd exec_kind.simps exec_frames)
  next
    case opSlidingWindow
    with RExec show ?thesis by (simp only: redis_step_snd exec_kind.simps exec_frames)
  qed
qed simp

lemma take_exact:
  assumes "0 \<le> t" "t \<le> of_int C" "C < 2 ^ 53" "fl64 t = t" "0 < cost" "float64_of cost \<le> t"
  shows "of_int cost + fl64 (t - float64_of cost) = t"
proof -
  have C: "real_of_int C < 2 ^ 53" using assms(3) by (metis of_int_less_iff of_int_numeral of_int_power)
  have "cost \<le> 2 ^ 53"
  proof (rule ccontr)
    assume "\<not> cost \<le> 2 ^ 53"
    then have "float64_of (2 ^ 53) \<le> float64_of cost" by (intro float64_of_mono) simp
    moreover have "float64_of (2 ^ 53) = of_int (2 ^ 53)" by (intro float64_of_small) simp
    ultimately show False using assms(2,6) C by simp
  qed
  then have c: "float64_of cost = of_int cost" using assms(5) by (intro float64_of_small) simp
  have "fl64 (t - of_int cost) = t - of_int cost"
    using assms(2,4,5,6) C c by (intro fl64_sub_exact) auto
  then show ?thesis by (simp add: c)
qed

lemma tb_step_gain:
  assumes ok: "buckets_ok r k C" and C: "C = tb_capacity params" "C < 2 ^ 53"
    and W: "0 < rp_Window params" "in_int64 (rp_Window params)"
    and b: "b = bucket_at r k C t0" "tb_last b \<le> now" "now - tb_last b \<le> max_int64" "t0 \<le> now"
    and st: "redis_step (RExec opTokenBucket k params cost now) r = (a, r')"
  shows "(\<not> a \<and> r' = r) \<or> (buckets_ok r' k C \<and> (\<exists>s'. gm_get (rd_tokenBuckets r') k = Some s' \<and> tb_last s' = now \<and>
    (if a then of_int cost else 0) + tb_tokens s' \<le>
      tb_tokens b + rate_slack * (of_int (rp_Limit params) * of_int (now - tb_last b) / of_int (rp_Window params)) + of_int C / 2 ^ 53))"
proof (cases "rd_healthy r \<and> 0 < cost \<and> 0 < rp_Limit params")
  case False
  with exec_refuses [of r cost params opTokenBucket now k] st show ?thesis by auto
next
  case True
  define s where "s = bucket_at r k C now"
  define t1 where "t1 = refill C (tb_rate params (rp_Window params)) (Seconds (time_Sub now (tb_last s))) (tb_tokens s)"
  have Cp: "0 < C" using True C by (simp add: tb_capacity_pos)
  then have Cf: "float64_of C = of_int C" using C(2) by (intro float64_of_small) simp
  have sb: "bucket_ok s C" using ok Cp by (simp add: s_def bucket_at_ok)
  have R: "0 \<le> tb_rate params (rp_Window params)" using True W by (intro tb_rate_nonneg) auto
  have t1: "0 \<le> t1" "t1 \<le> of_int C" "fl64 t1 = t1" using refill_ok [OF sb R] by (simp_all add: t1_def Cf)
  have ls: "tb_last b \<le> tb_last s" "tb_last s \<le> now" "tb_tokens s = tb_tokens b"
    using b by (auto simp: s_def bucket_at_def split: option.splits)
  have in64: "in_int64 (now - tb_last s)" using ls b(3) by (auto simp: int64_bounds)
  have "t1 \<le> tb_tokens s + rate_slack * (of_int (rp_Limit params) * of_int (now - tb_last s) / of_int (rp_Window params)) + of_int C / 2 ^ 53"
    unfolding t1_def time_Sub_id [OF in64] using True W ls(2) in64 sb
    by (intro refill_gain) (auto simp: bucket_ok_def Cf)
  also have "\<dots> \<le> tb_tokens b + rate_slack * (of_int (rp_Limit params) * of_int (now - tb_last b) / of_int (rp_Window params)) + of_int C / 2 ^ 53"
    unfolding ls(3) using ls True W by (intro add_mono mult_left_mono divide_right_mono) (auto simp: rate_slack_def)
  finally have gain: "t1 \<le> tb_tokens b + rate_slack * (of_int (rp_Limit params) * of_int (now - tb_last b) / of_int (rp_Window params)) + of_int C / 2 ^ 53" .
  obtain d where d: "execTokenBucketLocked now r k params cost = (Inr d, r\<lparr>rd_tokenBuckets := gm_put k
      \<lparr>tb_tokens = (if float64_of cost \<le> t1 then fl64 (t1 - float64_of cost) else t1), tb_last = now\<rparr> (rd_tokenBuckets r)\<rparr>)"
    "de_Allowed d = (float64_of cost \<le> t1)"
    using tb_exec [of r cost params k now] True W(1) unfolding Let_def C(1) [symmetric] s_def [symmetric] t1_def [symmetric] by blast
  have r': "a = (float64_of cost \<le> t1)" "gm_get (rd_tokenBuckets r') k =
      Some \<lparr>tb_tokens = (if a then fl64 (t1 - float64_of cost) else t1), tb_last = now\<rparr>"
    using st d by auto
  have "buckets_ok r' k C" using tb_exec_ok [OF _ W, of r k now cost _ r'] ok C(1) st d by auto
  moreover have "a \<Longrightarrow> of_int cost + fl64 (t1 - float64_of cost) = t1"
    using r'(1) True t1 C(2) by (intro take_exact) auto
  ultimately show ?thesis using r' gain by (cases a) auto
qed

lemma bucket_run:
  assumes "bucket_calm k params t0 t1 ops" "C = tb_capacity params" "C < 2 ^ 53" "0 < C" "0 < rp_Limit params"
    "0 < rp_Window params" "in_int64 (rp_Window params)" "buckets_ok r k C"
    and "b = bucket_at r k C t0" "t0 \<le> tb_last b" "tb_last b \<le> t1" "t1 - t0 \<le> max_int64"
    and "\<forall>op \<in> set ops. is_bucket k op \<longrightarrow> tb_last b \<le> cmd_now op"
  shows "of_int (bucket_spent k (fst (run_ops redis_step ops r))) \<le> tb_tokens b
     + rate_slack * (of_int (rp_Limit params) * of_int (t1 - tb_last b) / of_int (rp_Window params))
     + of_int (int (length (filter (is_bucket k) ops))) * (of_int C / 2 ^ 53)"
  using assms
proof (induction ops arbitrary: r b)
  case Nil
  have "0 \<le> rate_slack * (of_int (rp_Limit params) * of_int (t1 - tb_last b) / of_int (rp_Window params))"
    using Nil.prems(5,6,11) by (intro mult_nonneg_nonneg divide_nonneg_nonneg) (auto simp: rate_slack_def)
  moreover have "bucket_ok b C" using Nil.prems bucket_at_ok by blast
  ultimately show ?case by (simp add: bucket_spent_def bucket_ok_def)
next
  case (Cons op ops)
  obtain a r1 where st: "redis_step op r = (a, r1)" by fastforce
  have sp: "bucket_spent k (fst (run_ops redis_step (op # ops) r)) =
    (if a \<and> is_bucket k op then cmd_cost op else 0) + bucket_spent k (fst (run_ops redis_step ops r1))"
    using st by (simp add: run_ops_Cons bucket_spent_def del: run_ops.simps redis_step.simps)
  have cl: "bucket_calm k params t0 t1 ops" using Cons.prems(1) by (auto simp: bucket_calm_def split: if_splits)
  show ?case
  proof (cases "is_bucket k op")
    case False
    then have g: "gm_get (rd_tokenBuckets r1) k = gm_get (rd_tokenBuckets r) k" using bucket_frame [of k op r] st by simp
    then have "buckets_ok r1 k C" "b = bucket_at r1 k C t0" using Cons.prems(8,9) by (simp_all add: buckets_ok_def bucket_at_def)
    from Cons.IH [OF cl Cons.prems(2-7) this Cons.prems(10-12)] Cons.prems(13) sp False show ?thesis by simp
  next
    case True
    then obtain p cost now where o: "op = RExec opTokenBucket k p cost now" by (rule is_bucketE)
    have p: "p = params" "t0 \<le> now" "now \<le> t1" "tb_last b \<le> now"
      using Cons.prems(1,13) o by (auto simp: bucket_calm_def)
    have later: "\<forall>op' \<in> set ops. is_bucket k op' \<longrightarrow> now \<le> cmd_now op'"
      using Cons.prems(1) o by (auto simp: bucket_calm_def)
    have len: "of_int (int (length (filter (is_bucket k) (op # ops)))) * (real_of_int C / 2 ^ 53) =
      of_int C / 2 ^ 53 + of_int (int (length (filter (is_bucket k) ops))) * (of_int C / 2 ^ 53)"
      using True by (simp add: algebra_simps)
    have "now - tb_last b \<le> max_int64" using p Cons.prems(10,12) by linarith
    from tb_step_gain [OF Cons.prems(8,2,3,6,7,9) p(4) this p(2), of cost a r1] st o p(1)
    consider (refused) "\<not> a" "r1 = r" | (ran) s' where "buckets_ok r1 k C" "gm_get (rd_tokenBuckets r1) k = Some s'" "tb_last s' = now"
      "(if a then of_int cost else 0) + tb_tokens s' \<le> tb_tokens b
        + rate_slack * (of_int (rp_Limit params) * of_int (now - tb_last b) / of_int (rp_Window params)) + of_int C / 2 ^ 53"
      by auto
    then show ?thesis
    proof cases
      case refused
      have "0 \<le> real_of_int C / 2 ^ 53" using Cons.prems(4) by simp
      moreover have "of_int (bucket_spent k (fst (run_ops redis_step ops r))) \<le> tb_tokens b
         + rate_slack * (of_int (rp_Limit params) * of_int (t1 - tb_last b) / of_int (rp_Window params))
         + of_int (int (length (filter (is_bucket k) ops))) * (of_int C / 2 ^ 53)"
        using Cons.IH [OF cl Cons.prems(2-12)] Cons.prems(13) by simp
      ultimately show ?thesis unfolding sp len using refused by (simp only: if_False simp_thms)
    next
      case ran
      have bb: "s' = bucket_at r1 k C t0" using ran(2) by (simp add: bucket_at_def)
      have IH: "of_int (bucket_spent k (fst (run_ops redis_step ops r1))) \<le> tb_tokens s'
         + rate_slack * (of_int (rp_Limit params) * of_int (t1 - now) / of_int (rp_Window params))
         + of_int (int (length (filter (is_bucket k) ops))) * (of_int C / 2 ^ 53)"
        using Cons.IH [OF cl Cons.prems(2-7) ran(1) bb _ _ Cons.prems(12)] p(2,3) later ran(3) by simp
      have split: "rate_slack * (of_int (rp_Limit params) * of_int (t1 - tb_last b) / of_int (rp_Window params)) =
        rate_slack * (of_int (rp_Limit params) * of_int (now - tb_last b) / of_int (rp_Window params))
        + rate_slack * (of_int (rp_Limit params) * of_int (t1 - now) / of_int (rp_Window params))"
        by (simp add: distrib_left [symmetric] add_divide_distrib [symmetric])
      show ?thesis unfolding sp split len using IH ran(4) o by (cases a) auto
    qed
  qed
qed

section \<open>Properties\<close>

text \<open>C12 (safety). The token bucket keeps its rate in IEEE double precision: over any run of the store
  between times \<open>t0\<close> and \<open>t1\<close> that makes \<open>n\<close> calls on a key, the admitted costs sum to at most the
  capacity, plus the limit times the elapsed time over the window (up to a relative error of
  \<open>2 ^ (-49)\<close>), plus \<open>n\<close> rounding errors of \<open>capacity / 2 ^ 53\<close> each.\<close>

theorem token_bucket_rate_bound:
  assumes "bucket_calm k params t0 t1 ops" "t0 \<le> t1" "t1 - t0 \<le> max_int64"
    and "0 < rp_Limit params" "tb_capacity params < 2 ^ 53" "0 < rp_Window params" "rp_Window params \<le> max_int64"
  shows "of_int (bucket_spent k (fst (run_ops redis_step ops NewInMemoryRedis))) \<le>
     of_int (tb_capacity params)
     + (1 + 1 / 2 ^ 49) * (of_int (rp_Limit params) * of_int (t1 - t0) / of_int (rp_Window params))
     + of_int (int (length (filter (is_bucket k) ops))) * (of_int (tb_capacity params) / (2 ^ 53 :: real))"
proof -
  let ?C = "tb_capacity params" and ?b = "\<lparr>tb_tokens = float64_of (tb_capacity params), tb_last = t0\<rparr>"
  have C: "0 < ?C" using assms(4) by (rule tb_capacity_pos)
  have f: "float64_of ?C = of_int ?C" using C assms(5) by (intro float64_of_small) simp
  have "buckets_ok NewInMemoryRedis k ?C" "?b = bucket_at NewInMemoryRedis k ?C t0"
    by (simp_all add: buckets_ok_def bucket_at_def NewInMemoryRedis_def)
  moreover have "\<forall>op \<in> set ops. is_bucket k op \<longrightarrow> tb_last ?b \<le> cmd_now op" using assms(1) by (simp add: bucket_calm_def)
  ultimately have "of_int (bucket_spent k (fst (run_ops redis_step ops NewInMemoryRedis))) \<le> tb_tokens ?b
     + rate_slack * (of_int (rp_Limit params) * of_int (t1 - tb_last ?b) / of_int (rp_Window params))
     + of_int (int (length (filter (is_bucket k) ops))) * (of_int ?C / 2 ^ 53)"
    using assms C by (intro bucket_run) (simp_all add: int64_bounds bucket_at_def NewInMemoryRedis_def)
  then show ?thesis by (simp only: rate_slack_def f tbState.select_convs)
qed

theorem token_bucket_rate_bound_witness:
  "of_int (bucket_spent ''k'' (fst (run_ops redis_step (sample_cmds opTokenBucket) NewInMemoryRedis))) \<le>
     of_int (tb_capacity (sample_params 5 10))
     + (1 + 1 / 2 ^ 49) * (of_int (rp_Limit (sample_params 5 10)) * of_int (112 - 100) / of_int (rp_Window (sample_params 5 10)))
     + of_int (int (length (filter (is_bucket ''k'') (sample_cmds opTokenBucket)))) * (of_int (tb_capacity (sample_params 5 10)) / (2 ^ 53 :: real))"
  by (rule token_bucket_rate_bound)
    (simp_all add: bucket_calm_def sample_cmds_def sample_params_def tb_capacity_def max_int64_def)

lemma buckets_run_ok:
  assumes "\<forall>op \<in> set ops. is_bucket k op \<longrightarrow> (\<exists>p. cmd_params op = Some p \<and> tb_capacity p = C \<and> 0 < rp_Window p \<and> rp_Window p \<le> max_int64)"
    and "buckets_ok r k C"
  shows "buckets_ok (snd (run_ops redis_step ops r)) k C"
  using assms
proof (induction ops arbitrary: r)
  case (Cons op ops)
  have "buckets_ok (snd (redis_step op r)) k C"
  proof (cases "is_bucket k op")
    case False
    then show ?thesis using bucket_frame [of k op r] Cons.prems(2) by (simp add: buckets_ok_def)
  next
    case True
    then obtain p cost now where o: "op = RExec opTokenBucket k p cost now" by (rule is_bucketE)
    have p: "tb_capacity p = C" "0 < rp_Window p" "in_int64 (rp_Window p)"
      using Cons.prems(1) True o by (auto simp: int64_bounds)
    obtain res r' where "execTokenBucketLocked now r k p cost = (res, r')" by fastforce
    with tb_exec_ok [of r k p now cost res r'] p Cons.prems(2) o show ?thesis
      by (simp only: redis_step_snd) simp
  qed
  with Cons.IH Cons.prems(1) show ?case by (simp add: run_ops_Cons del: run_ops.simps redis_step.simps)
qed simp

lemma exec_healthy: "rd_healthy (snd (exec_kind kind now r k p c)) = rd_healthy r"
  by (cases kind) (simp_all add: execTokenBucketLocked_def execFixedWindowLocked_def execSlidingWindowLocked_def Let_def)

text \<open>C18 (bounds). Whatever the clock does (also backwards), a token bucket never holds less than nothing
  or more than its capacity, so the number of remaining tokens that a decision reports is
  between 0 and the capacity, and a cost above the capacity is never admitted.\<close>

theorem token_bucket_bounds:
  assumes "\<forall>op \<in> set ops. is_bucket k op \<longrightarrow> (\<exists>p. cmd_params op = Some p \<and> tb_capacity p = tb_capacity params \<and> 0 < rp_Window p \<and> rp_Window p \<le> max_int64)"
    and "tb_capacity params < 2 ^ 53" "0 < rp_Window params" "rp_Window params \<le> max_int64"
    and "execTokenBucketLocked now (snd (run_ops redis_step ops NewInMemoryRedis)) k params cost = (Inr d, r')"
  shows "0 \<le> de_Remaining d \<and> de_Remaining d \<le> tb_capacity params \<and> (de_Allowed d \<longrightarrow> cost \<le> tb_capacity params)"
proof -
  let ?r = "snd (run_ops redis_step ops NewInMemoryRedis)" and ?C = "tb_capacity params"
  have "buckets_ok NewInMemoryRedis k ?C" by (simp add: buckets_ok_def NewInMemoryRedis_def)
  then have ok: "buckets_ok ?r k ?C" using assms(1) by (rule buckets_run_ok [rotated])
  have ok': "buckets_ok r' k ?C" using tb_exec_ok [OF ok assms(3) _ assms(5)] assms(3,4) by (simp add: int64_bounds)
  have v: "rd_healthy ?r" "0 < cost" "0 < rp_Limit params"
    using assms(5) exec_refuses [of ?r cost params opTokenBucket now k] by auto
  have C: "0 < ?C" using v(3) by (rule tb_capacity_pos)
  have f: "float64_of ?C = of_int ?C" using C assms(2) by (intro float64_of_small) simp
  define s where "s = bucket_at ?r k ?C now"
  define t1 where "t1 = refill ?C (tb_rate params (rp_Window params)) (Seconds (time_Sub now (tb_last s))) (tb_tokens s)"
  define t2 where "t2 = (if float64_of cost \<le> t1 then fl64 (t1 - float64_of cost) else t1)"
  from tb_exec [OF v assms(3), of k now] assms(5)
  have d: "r' = ?r\<lparr>rd_tokenBuckets := gm_put k \<lparr>tb_tokens = t2, tb_last = now\<rparr> (rd_tokenBuckets ?r)\<rparr>"
    "de_Allowed d = (float64_of cost \<le> t1)" "de_Remaining d = int64_of_float (of_int \<lfloor>t2\<rfloor>)"
    unfolding Let_def s_def [symmetric] t1_def [symmetric] t2_def [symmetric] by auto
  have t2: "0 \<le> t2" "t2 \<le> of_int ?C" using ok' d(1) f by (auto simp: buckets_ok_def bucket_ok_def)
  then have fl: "0 \<le> \<lfloor>t2\<rfloor>" "\<lfloor>t2\<rfloor> \<le> ?C" by (auto simp: floor_le_iff)
  have "in_int64 ?C" using C assms(2) by (simp add: int64_bounds)
  then have "in_int64 \<lfloor>t2\<rfloor>" using fl by (rule in_int64_nonneg)
  with fl have "de_Remaining d = \<lfloor>t2\<rfloor>" by (simp add: d(3) int64_of_float_def trunc_real_def)
  moreover have "cost \<le> ?C" if "float64_of cost \<le> t1"
  proof (rule ccontr)
    assume c: "\<not> cost \<le> ?C"
    have "bucket_ok s ?C" using ok C by (simp add: s_def bucket_at_ok)
    moreover have "0 \<le> tb_rate params (rp_Window params)"
      using v(3) assms(3,4) by (intro tb_rate_nonneg) (auto simp: int64_bounds)
    ultimately have "t1 \<le> of_int ?C" unfolding t1_def f [symmetric] by (rule refill_ok(2))
    moreover have "of_int (?C + 1) \<le> float64_of cost"
      using c C assms(2) float64_of_mono [of "?C + 1" cost] float64_of_small [of "?C + 1"] by simp
    ultimately show False using that by simp
  qed
  ultimately show ?thesis using fl d(2) by simp
qed

theorem token_bucket_bounds_witness:
  "\<exists>d r'. execTokenBucketLocked 120 (snd (run_ops redis_step (sample_cmds opTokenBucket) NewInMemoryRedis)) ''k'' (sample_params 5 10) 1 = (Inr d, r')
     \<and> 0 \<le> de_Remaining d \<and> de_Remaining d \<le> tb_capacity (sample_params 5 10) \<and> (de_Allowed d \<longrightarrow> 1 \<le> tb_capacity (sample_params 5 10))"
proof -
  let ?r = "snd (run_ops redis_step (sample_cmds opTokenBucket) NewInMemoryRedis)"
  have "rd_healthy ?r"
    by (simp add: sample_cmds_def run_ops_Cons exec_healthy NewInMemoryRedis_def redis_step_snd
        del: run_ops.simps(2) redis_step.simps(1) exec_kind.simps)
  then obtain d r' where d: "execTokenBucketLocked 120 ?r ''k'' (sample_params 5 10) 1 = (Inr d, r')"
    using tb_exec [of ?r 1 "sample_params 5 10" "''k''" 120] by (auto simp: sample_params_def Let_def)
  from token_bucket_bounds [OF _ _ _ _ d] d show ?thesis
    by (simp add: sample_cmds_def sample_params_def tb_capacity_def max_int64_def del: run_ops.simps)
qed

end
