(* ===== verification/Limiter_Pool.thy ===== *)
theory Limiter_Pool
  imports Lru Rule_Cache Limiter
begin

text \<open>
  \<^verbatim>\<open>core/limiterpool.go\<close>: limiters cached per tenant and resource in shards of bounded size, pinned by
  handles, and closed after they leave the pool. Entries are reached from a shard's map, from
  handles and from the goroutines that wait to close them, so they live in a heap and are
  addressed by index. A shard's methods run under its mutex and are functions of the pool; the
  goroutines' waits and closes are separate steps of the machine at the end. \<open>le_closes\<close>
  counts the calls of the limiter's \<^verbatim>\<open>Close\<close>.
\<close>

section \<open>State\<close>

record LimiterPolicy =
  po_Shards :: int
  po_MaxEntriesShard :: int
  po_QuiesceWindow :: duration
  po_CloseTimeout :: duration

datatype LimiterEntryState = EntryActive | EntryQuiescing | EntryClosed

record LimiterEntry =
  le_lim :: redisLimiter
  le_state :: LimiterEntryState
  le_refs :: int64
  le_closes :: nat

record LimiterPoolShard =
  sh_m :: "(string, nat) gomap"
  sh_lru :: "LRUKeys option"

record LimiterPool =
  lp_heap :: "LimiterEntry list"
  lp_shards :: "LimiterPoolShard list"
  lp_policy :: LimiterPolicy
  lp_waiters :: "nat list"

text \<open>A handle: its entry, its limiter, and whether its \<^verbatim>\<open>once\<close> has run.\<close>

record LimiterHandle =
  lh_entry :: nat
  lh_lim :: redisLimiter
  lh_released :: bool

definition NewLimiterPool :: "LimiterPolicy \<Rightarrow> LimiterPool" where
  "NewLimiterPool policy =
     (let policy = (if po_Shards policy \<le> 0 then policy\<lparr>po_Shards := 16\<rparr> else policy);
          policy = (if po_MaxEntriesShard policy \<le> 0 then policy\<lparr>po_MaxEntriesShard := 1024\<rparr> else policy);
          policy = (if po_QuiesceWindow policy \<le> 0 then policy\<lparr>po_QuiesceWindow := 50 * Millisecond\<rparr> else policy);
          policy = (if po_CloseTimeout policy \<le> 0 then policy\<lparr>po_CloseTimeout := 2 * Second\<rparr> else policy)
      in \<lparr>lp_heap = [],
          lp_shards = replicate (nat (po_Shards policy))
             \<lparr>sh_m = [], sh_lru = Some (NewLRUKeys (po_MaxEntriesShard policy))\<rparr>,
          lp_policy = policy, lp_waiters = []\<rparr>)"

section \<open>Entries\<close>

definition newLimiterEntry :: "redisLimiter \<Rightarrow> LimiterEntry" where
  "newLimiterEntry l = \<lparr>le_lim = l, le_state = EntryActive, le_refs = 0, le_closes = 0\<rparr>"

definition entry_release :: "LimiterEntry \<Rightarrow> LimiterEntry" where
  "entry_release entry =
     (let refs = wrap64 (le_refs entry - 1) in
      if refs < 0 then entry\<lparr>le_refs := 0\<rparr> else entry\<lparr>le_refs := refs\<rparr>)"

definition closeLimiter :: "LimiterEntry \<Rightarrow> LimiterEntry" where
  "closeLimiter entry =
     (if le_state entry = EntryClosed then entry
      else entry\<lparr>le_state := EntryClosed, le_closes := Suc (le_closes entry)\<rparr>)"

text \<open>The limiter a handle pins; a nil handle has none.\<close>

fun LimiterHandle_Limiter :: "LimiterHandle option \<Rightarrow> redisLimiter option" where
  "LimiterHandle_Limiter None = None"
| "LimiterHandle_Limiter (Some h) = Some (lh_lim h)"

text \<open>\<^verbatim>\<open>Release\<close> on a handle that is not nil: the first call releases its entry. Every handle that
  \<^verbatim>\<open>Acquire\<close> makes has an entry.\<close>

definition LimiterHandle_Release :: "LimiterPool \<Rightarrow> LimiterHandle \<Rightarrow> LimiterPool \<times> LimiterHandle" where
  "LimiterHandle_Release pool h =
     (if lh_released h then (pool, h)
      else (pool\<lparr>lp_heap := modify (lh_entry h) entry_release (lp_heap pool)\<rparr>, h\<lparr>lh_released := True\<rparr>))"

section \<open>Eviction\<close>

text \<open>The loop over the evicted keys: an idle entry is closed at once, a pinned one is left to a
  goroutine.\<close>

fun evict_entries :: "string list \<Rightarrow> (string, nat) gomap \<times> LimiterEntry list \<times> nat list
      \<Rightarrow> (string, nat) gomap \<times> LimiterEntry list \<times> nat list" where
  "evict_entries [] st = st"
| "evict_entries (key # keys) (m, heap, waiters) =
     (case gm_get m key of
        None \<Rightarrow> evict_entries keys (m, heap, waiters)
      | Some e \<Rightarrow>
          if le_refs (heap ! e) = 0
          then evict_entries keys (gm_del key m, modify e closeLimiter heap, waiters)
          else evict_entries keys (gm_del key m, modify e (\<lambda>x. x\<lparr>le_state := EntryQuiescing\<rparr>) heap, waiters @ [e]))"

definition evictIfNeededLocked :: "LimiterPool \<Rightarrow> nat \<Rightarrow> LimiterPool" where
  "evictIfNeededLocked pool i =
     (let shard = lp_shards pool ! i;
          (evicted, lru') = LRU_EvictIfNeeded (sh_lru shard);
          shard1 = shard\<lparr>sh_lru := lru'\<rparr>
      in if length evicted = 0 then pool\<lparr>lp_shards := (lp_shards pool)[i := shard1]\<rparr>
         else
           let (m, heap, waiters) = evict_entries evicted (sh_m shard1, lp_heap pool, lp_waiters pool)
           in pool\<lparr>lp_shards := (lp_shards pool)[i := shard1\<lparr>sh_m := m\<rparr>], lp_heap := heap, lp_waiters := waiters\<rparr>)"

section \<open>Acquire and Cutover\<close>

definition shardFor :: "LimiterPool \<Rightarrow> string \<Rightarrow> string \<Rightarrow> nat option" where
  "shardFor pool tenantID resource =
     map_option nat (shardIndex tenantID resource (int (length (lp_shards pool))))"

text \<open>The part of \<^verbatim>\<open>Acquire\<close> under the shard's mutex.\<close>

definition acquire_locked ::
    "backend option \<Rightarrow> LimiterPool \<Rightarrow> nat \<Rightarrow> string \<Rightarrow> Rule
      \<Rightarrow> (go_error + LimiterHandle \<times> Rule) \<times> LimiterPool \<times> backend option" where
  "acquire_locked factory pool i key rule =
     (let shard = lp_shards pool ! i;
          active = (case gm_get (sh_m shard) key of
                      None \<Rightarrow> None
                    | Some e \<Rightarrow> if le_state (lp_heap pool ! e) = EntryActive then Some e else None)
      in case active of
           Some e \<Rightarrow>
             (Inr (\<lparr>lh_entry = e, lh_lim = le_lim (lp_heap pool ! e), lh_released = False\<rparr>, rule),
              pool\<lparr>lp_heap := modify e (\<lambda>x. x\<lparr>le_refs := wrap64 (le_refs x + 1)\<rparr>) (lp_heap pool),
                   lp_shards := (lp_shards pool)[i := shard\<lparr>sh_lru := LRU_Touch (sh_lru shard) key\<rparr>]\<rparr>,
              factory)
         | None \<Rightarrow>
             (case LimiterFactory_Create factory (Some rule) of
                (Inl err, factory1) \<Rightarrow> (Inl err, pool, factory1)
              | (Inr (limiter, params), factory1) \<Rightarrow>
                  let entry = (newLimiterEntry limiter)\<lparr>le_state := EntryActive, le_refs := 1\<rparr>;
                      (heap1, e) = alloc (lp_heap pool) entry;
                      shard1 = shard\<lparr>sh_m := gm_put key e (sh_m shard), sh_lru := LRU_Add (sh_lru shard) key\<rparr>;
                      pool1 = pool\<lparr>lp_heap := heap1, lp_shards := (lp_shards pool)[i := shard1]\<rparr>;
                      pool2 = evictIfNeededLocked pool1 i
                  in (Inr (\<lparr>lh_entry = e, lh_lim = limiter, lh_released = False\<rparr>, rule), pool2, factory1)))"

text \<open>\<^term>\<open>None\<close> is the run-time panic of the shard index.\<close>

fun Acquire ::
    "RuleCache option \<Rightarrow> backend option \<Rightarrow> LimiterPool option \<Rightarrow> string \<Rightarrow> string
      \<Rightarrow> ((go_error + LimiterHandle \<times> Rule) \<times> LimiterPool option \<times> backend option) option" where
  "Acquire (Some rc) factory (Some pool) tenantID resource =
     (case RuleCache_Get rc tenantID resource of
        None \<Rightarrow> Some (Inl (ErrorString ''rule not found''), Some pool, factory)
      | Some rule \<Rightarrow>
          (case shardFor pool tenantID resource of
             None \<Rightarrow> None
           | Some i \<Rightarrow>
               (case acquire_locked factory pool i (limiterPoolKey tenantID resource) rule of
                  (res, pool1, factory1) \<Rightarrow> Some (res, Some pool1, factory1))))"
| "Acquire rules factory pool tenantID resource =
     Some (Inl (ErrorString ''limiter pool is not initialized''), pool, factory)"

text \<open>\<^verbatim>\<open>Cutover\<close> up to the wait: the entry leaves the pool and the caller waits to close it.\<close>

definition cutover_locked :: "LimiterPool \<Rightarrow> nat \<Rightarrow> string \<Rightarrow> LimiterPool" where
  "cutover_locked pool i key =
     (let shard = lp_shards pool ! i in
      case gm_get (sh_m shard) key of
        None \<Rightarrow> pool
      | Some e \<Rightarrow>
          pool\<lparr>lp_heap := modify e (\<lambda>x. if le_state x \<noteq> EntryQuiescing then x\<lparr>le_state := EntryQuiescing\<rparr> else x) (lp_heap pool),
               lp_shards := (lp_shards pool)[i := shard\<lparr>sh_m := gm_del key (sh_m shard), sh_lru := LRU_Remove (sh_lru shard) key\<rparr>],
               lp_waiters := lp_waiters pool @ [e]\<rparr>)"

fun Cutover_detach :: "LimiterPool option \<Rightarrow> string \<Rightarrow> string \<Rightarrow> LimiterPool option option" where
  "Cutover_detach None tenantID resource = Some None"
| "Cutover_detach (Some pool) tenantID resource =
     (case shardFor pool tenantID resource of
        None \<Rightarrow> None
      | Some i \<Rightarrow> Some (Some (cutover_locked pool i (limiterPoolKey tenantID resource))))"

text \<open>The end of \<^verbatim>\<open>waitAndClose\<close> and of \<^verbatim>\<open>Cutover\<close>: a waiter whose wait is over (\<^verbatim>\<open>waitForEntry\<close>
  returns when no reference is left or the deadline has passed) closes its entry.\<close>

definition wait_over :: "LimiterPool \<Rightarrow> nat \<Rightarrow> bool \<Rightarrow> bool" where
  "wait_over pool e deadline_passed \<longleftrightarrow> \<not> le_refs (lp_heap pool ! e) > 0 \<or> deadline_passed"

definition waiter_close :: "LimiterPool \<Rightarrow> nat \<Rightarrow> LimiterPool" where
  "waiter_close pool e =
     pool\<lparr>lp_heap := modify e closeLimiter (lp_heap pool), lp_waiters := remove1 e (lp_waiters pool)\<rparr>"

section \<open>Invariant\<close>

text \<open>The places of the pool that hold an entry.\<close>

definition holders :: "LimiterPoolShard list \<Rightarrow> nat \<Rightarrow> (nat \<times> string) set" where
  "holders shards e = {(i, k). i < length shards \<and> gm_get (sh_m (shards ! i)) k = Some e}"

definition shard_ok :: "LimiterEntry list \<Rightarrow> nat \<Rightarrow> LimiterPoolShard \<Rightarrow> bool" where
  "shard_ok heap cap sh \<longleftrightarrow>
     gm_wf (sh_m sh) \<and> lru_ok (sh_lru sh) \<and> lru_cap (sh_lru sh) = cap
     \<and> set (lru_keys (sh_lru sh)) = dom (gm_get (sh_m sh))
     \<and> (\<forall>k e. gm_get (sh_m sh) k = Some e \<longrightarrow> e < length heap \<and> le_state (heap ! e) = EntryActive)"

definition pins :: "LimiterHandle list \<Rightarrow> nat \<Rightarrow> int" where
  "pins live e = int (length (filter (\<lambda>h. lh_entry h = e) live))"

text \<open>An entry's references are its live handles; it is closed at most once; and, as long as no wait
  has run into its deadline, it is not closed while a handle is alive.\<close>

definition entry_ok :: "bool \<Rightarrow> LimiterHandle list \<Rightarrow> nat \<Rightarrow> LimiterEntry \<Rightarrow> bool" where
  "entry_ok late live e x \<longleftrightarrow>
     le_refs x = pins live e \<and> le_closes x = (if le_state x = EntryClosed then 1 else 0)
     \<and> (\<not> late \<longrightarrow> le_state x = EntryClosed \<longrightarrow> le_refs x = 0)"

definition pool_cap :: "LimiterPool \<Rightarrow> nat" where
  "pool_cap pool = nat (po_MaxEntriesShard (lp_policy pool))"

definition unshared :: "LimiterPoolShard list \<Rightarrow> bool" where
  "unshared shards \<longleftrightarrow> (\<forall>e x y. x \<in> holders shards e \<longrightarrow> y \<in> holders shards e \<longrightarrow> x = y)"

definition pool_core :: "bool \<Rightarrow> LimiterPool \<Rightarrow> LimiterHandle list \<Rightarrow> bool" where
  "pool_core late pool live \<longleftrightarrow>
     0 < pool_cap pool
     \<and> (\<forall>i < length (lp_shards pool). shard_ok (lp_heap pool) (pool_cap pool) (lp_shards pool ! i))
     \<and> unshared (lp_shards pool)
     \<and> (\<forall>h \<in> set live. lh_entry h < length (lp_heap pool) \<and> \<not> lh_released h)
     \<and> (\<forall>e < length (lp_heap pool). entry_ok late live e (lp_heap pool ! e))
     \<and> (\<forall>e \<in> set (lp_waiters pool). e < length (lp_heap pool) \<and> holders (lp_shards pool) e = {})"

definition shards_bounded :: "LimiterPool \<Rightarrow> bool" where
  "shards_bounded pool \<longleftrightarrow>
     (\<forall>i < length (lp_shards pool). length (lru_keys (sh_lru (lp_shards pool ! i))) \<le> pool_cap pool)"

definition pool_inv :: "bool \<Rightarrow> LimiterPool \<Rightarrow> LimiterHandle list \<Rightarrow> bool" where
  "pool_inv late pool live \<longleftrightarrow>
     pool_core late pool live \<and> shards_bounded pool \<and> int (length live) \<le> max_int64"

lemma pins_nonneg [simp]: "0 \<le> pins live e"
  by (simp add: pins_def)

lemma pins_Cons [simp]: "pins (h # live) e = pins live e + (if lh_entry h = e then 1 else 0)"
  by (simp add: pins_def)

lemma pins_remove1: "h \<in> set live \<Longrightarrow> pins (remove1 h live) e = pins live e - (if lh_entry h = e then 1 else 0)"
  by (induction live) (auto simp: pins_def)

lemma pins_le: "pins live e \<le> int (length live)"
  by (simp add: pins_def)

text \<open>The holders of the entries after one shard's map changes.\<close>

lemma holders_update:
  "i < length shards \<Longrightarrow> holders (shards[i := sh]) e =
     {(j, k). j < length shards \<and> j \<noteq> i \<and> (j, k) \<in> holders shards e} \<union> {(i, k) |k. gm_get (sh_m sh) k = Some e}"
  by (auto simp: holders_def nth_list_update split: if_splits)

lemma holders_submap:
  assumes "i < length shards" "\<And>k v. gm_get (sh_m sh) k = Some v \<Longrightarrow> gm_get (sh_m (shards ! i)) k = Some v"
  shows "holders (shards[i := sh]) e \<subseteq> holders shards e"
  using assms by (auto simp: holders_update) (auto simp: holders_def)

section \<open>Eviction preserves the invariant\<close>

lemma closeLimiter_fields [simp]:
  "le_refs (closeLimiter x) = le_refs x" "le_lim (closeLimiter x) = le_lim x" "le_state (closeLimiter x) = EntryClosed"
  "le_state x \<noteq> EntryClosed \<Longrightarrow> le_closes (closeLimiter x) = Suc (le_closes x)"
  by (simp_all add: closeLimiter_def)

definition evicted_entry :: "LimiterEntry \<Rightarrow> LimiterEntry" where
  "evicted_entry x = (if le_refs x = 0 then closeLimiter x else x\<lparr>le_state := EntryQuiescing\<rparr>)"

lemma evict_entries_spec:
  assumes "evict_entries keys (m, heap, w) = (m', heap', w')" "distinct keys" "gm_wf m"
    and "\<forall>k k' e. gm_get m k = Some e \<longrightarrow> gm_get m k' = Some e \<longrightarrow> k = k'"
    and "\<forall>k e. gm_get m k = Some e \<longrightarrow> e < length heap"
  shows "gm_wf m' \<and> (\<forall>k. gm_get m' k = (if k \<in> set keys then None else gm_get m k)) \<and> length heap' = length heap
    \<and> (\<forall>e < length heap. heap' ! e = (if \<exists>k \<in> set keys. gm_get m k = Some e then evicted_entry (heap ! e) else heap ! e))
    \<and> set w' \<subseteq> set w \<union> {e. \<exists>k \<in> set keys. gm_get m k = Some e}"
  using assms
proof (induction keys arbitrary: m heap w)
  case Nil
  show ?case using Nil.prems(1,3) by simp
next
  case (Cons key keys)
  show ?case
  proof (cases "gm_get m key")
    case None
    then have e1: "(\<exists>k \<in> set (key # keys). gm_get m k = Some e) \<longleftrightarrow> (\<exists>k \<in> set keys. gm_get m k = Some e)"
      and e2: "(if k \<in> set (key # keys) then None else gm_get m k) = (if k \<in> set keys then None else gm_get m k)" for e k
      by simp_all
    from None Cons.prems(1) have "evict_entries keys (m, heap, w) = (m', heap', w')" by simp
    moreover have "distinct keys" using Cons.prems(2) by simp
    ultimately show ?thesis unfolding e1 e2 by (rule Cons.IH [OF _ _ Cons.prems(3-5)])
  next
    case (Some e)
    let ?m = "gm_del key m" and ?heap = "modify e evicted_entry heap"
    have h: "modify e closeLimiter heap = ?heap" if "le_refs (heap ! e) = 0"
      using that by (simp add: modify_def evicted_entry_def)
    have h2: "modify e (\<lambda>x. x\<lparr>le_state := EntryQuiescing\<rparr>) heap = ?heap" if "le_refs (heap ! e) \<noteq> 0"
      using that by (simp add: modify_def evicted_entry_def)
    define w1 where "w1 = (if le_refs (heap ! e) = 0 then w else w @ [e])"
    have w1: "evict_entries keys (?m, ?heap, w1) = (m', heap', w')"
      using Cons.prems(1) Some h h2 by (simp add: w1_def split: if_splits)
    have w2: "set w1 \<subseteq> insert e (set w)" by (auto simp: w1_def)
    have el: "e < length heap" using Cons.prems(5) Some by blast
    have del: "gm_get ?m k = Some x \<longleftrightarrow> k \<noteq> key \<and> gm_get m k = Some x" for k x by simp
    have p4: "\<forall>k k' x. gm_get ?m k = Some x \<longrightarrow> gm_get ?m k' = Some x \<longrightarrow> k = k'"
      using Cons.prems(4) unfolding del by blast
    have p5: "\<forall>k x. gm_get ?m k = Some x \<longrightarrow> x < length ?heap"
      using Cons.prems(5) unfolding del length_modify by blast
    have dk: "distinct keys" "key \<notin> set keys" using Cons.prems(2) by simp_all
    note IH' = Cons.IH [OF w1 dk(1) gm_wf_del [OF Cons.prems(3)] p4 p5, unfolded length_modify]
    note IH = conjunct1 [OF IH'] spec [OF conjunct1 [OF conjunct2 [OF IH']]] conjunct1 [OF conjunct2 [OF conjunct2 [OF IH']]]
      spec [OF conjunct1 [OF conjunct2 [OF conjunct2 [OF conjunct2 [OF IH']]]]] conjunct2 [OF conjunct2 [OF conjunct2 [OF conjunct2 [OF IH']]]]
    have eq: "(\<exists>k \<in> set keys. gm_get ?m k = Some x) \<longleftrightarrow> (\<exists>k \<in> set keys. gm_get m k = Some x)" for x
      using dk(2) by (intro bex_cong refl) (auto simp: del)
    have "k = key" if "gm_get m k = Some e" for k
      using Cons.prems(4) [THEN spec [of _ k], THEN spec [of _ key], THEN spec [of _ e]] that Some by simp
    then have ne: "\<not> (\<exists>k \<in> set keys. gm_get m k = Some e)" using dk(2) by auto
    have hp: "heap' ! x = (if \<exists>k \<in> set keys. gm_get m k = Some x then evicted_entry (?heap ! x) else ?heap ! x)"
      if "x < length heap" for x
      using mp [OF IH(4) that] unfolding eq .
    have hq: "heap' ! x = (if \<exists>k \<in> set (key # keys). gm_get m k = Some x then evicted_entry (heap ! x) else heap ! x)"
      if "x < length heap" for x
    proof (cases "x = e")
      case True
      then show ?thesis using hp [OF that] ne el Some by simp
    next
      case False
      then have "(\<exists>k \<in> set (key # keys). gm_get m k = Some x) \<longleftrightarrow> (\<exists>k \<in> set keys. gm_get m k = Some x)"
        using Some by auto
      then show ?thesis using hp [OF that] False by simp
    qed
    have wq: "set w' \<subseteq> set w \<union> {x. \<exists>k \<in> set (key # keys). gm_get m k = Some x}"
    proof
      fix x assume "x \<in> set w'"
      with IH(5) w2 have "x \<in> set w \<or> x = e \<or> (\<exists>k \<in> set keys. gm_get m k = Some x)" unfolding eq by auto
      then show "x \<in> set w \<union> {x. \<exists>k \<in> set (key # keys). gm_get m k = Some x}" using Some by auto
    qed
    have mq: "gm_get m' k = (if k \<in> set (key # keys) then None else gm_get m k)" for k
      unfolding IH(2) by simp
    show ?thesis by (intro conjI allI impI IH(1,3) wq) (rule mq, rule hq)
  qed
qed

lemma entry_ok_evicted:
  assumes "entry_ok late live e x" "le_state x = EntryActive"
  shows "entry_ok late live e (evicted_entry x)"
  using assms by (auto simp: entry_ok_def evicted_entry_def)

lemma unshared_submap:
  assumes "unshared shards" "i < length shards"
    and "\<And>k v. gm_get (sh_m sh) k = Some v \<Longrightarrow> gm_get (sh_m (shards ! i)) k = Some v"
  shows "unshared (shards[i := sh])"
  using assms(1) holders_submap [OF assms(2,3)] unfolding unshared_def by blast

text \<open>An entry of the shard that eviction touches leaves the pool.\<close>

lemma gone_holders:
  assumes "unshared shards" "i < length shards" "gm_get (sh_m (shards ! i)) k = Some e"
    and "\<And>k v. gm_get (sh_m sh) k = Some v \<Longrightarrow> gm_get (sh_m (shards ! i)) k = Some v"
    and "gm_get (sh_m sh) k = None"
  shows "holders (shards[i := sh]) e = {}"
proof -
  have "(i, k) \<in> holders shards e" using assms(2,3) by (simp add: holders_def)
  with assms(1) have "holders shards e \<subseteq> {(i, k)}" unfolding unshared_def by blast
  moreover have "(i, k) \<notin> holders (shards[i := sh]) e" using assms(2,5) by (simp add: holders_def)
  ultimately show ?thesis using holders_submap [OF assms(2,4)] by blast
qed

lemma shard_ok_heap:
  assumes "shard_ok heap cap sh" "length heap \<le> length heap'"
    and "\<And>k e. gm_get (sh_m sh) k = Some e \<Longrightarrow> le_state (heap' ! e) = le_state (heap ! e)"
  shows "shard_ok heap' cap sh"
proof -
  have "e < length heap' \<and> le_state (heap' ! e) = EntryActive" if "gm_get (sh_m sh) k = Some e" for k e
    using assms(1,2) assms(3) [OF that] that by (auto simp: shard_ok_def intro: less_le_trans)
  with assms(1) show ?thesis by (simp add: shard_ok_def)
qed

text \<open>The state of the pool after \<^term>\<open>evictIfNeededLocked\<close>, in one form for both branches.\<close>

lemma evict_form:
  assumes "LRU_EvictIfNeeded (sh_lru (lp_shards pool ! i)) = (ev, lru')"
    and "evict_entries ev (sh_m (lp_shards pool ! i), lp_heap pool, lp_waiters pool) = (m, heap, w)"
  shows "evictIfNeededLocked pool i =
    pool\<lparr>lp_shards := (lp_shards pool)[i := (lp_shards pool ! i)\<lparr>sh_lru := lru', sh_m := m\<rparr>], lp_heap := heap, lp_waiters := w\<rparr>"
  using assms by (auto simp: evictIfNeededLocked_def Let_def)
text \<open>Taking the keys \<open>ev\<close> out of one shard, with \<^term>\<open>evicted_entry\<close> on their entries.\<close>

lemma pool_core_evicted:
  fixes pool :: LimiterPool and i :: nat and m :: "(string, nat) gomap" and lru' :: "LRUKeys option"
  defines "sh \<equiv> lp_shards pool ! i"
  defines "sh' \<equiv> sh\<lparr>sh_lru := lru', sh_m := m\<rparr>"
  assumes core: "pool_core late pool live" and i: "i < length (lp_shards pool)"
    and m: "gm_wf m" "\<And>k. gm_get m k = (if k \<in> set ev then None else gm_get (sh_m sh) k)"
    and hl: "length heap = length (lp_heap pool)"
    and hp: "\<And>x. x < length heap \<Longrightarrow> heap ! x =
      (if \<exists>k \<in> set ev. gm_get (sh_m sh) k = Some x then evicted_entry (lp_heap pool ! x) else lp_heap pool ! x)"
    and w: "set w \<subseteq> set (lp_waiters pool) \<union> {e. \<exists>k \<in> set ev. gm_get (sh_m sh) k = Some e}"
    and lr: "lru_ok lru'" "lru_cap lru' = pool_cap pool" "set (lru_keys lru') = dom (gm_get m)"
  shows "pool_core late (pool\<lparr>lp_shards := (lp_shards pool)[i := sh'], lp_heap := heap, lp_waiters := w\<rparr>) live"
proof -
  let ?heap = "lp_heap pool" and ?shs = "(lp_shards pool)[i := sh']"
  have ok: "shard_ok ?heap (pool_cap pool) (lp_shards pool ! j)" if "j < length (lp_shards pool)" for j
    using core that by (simp add: pool_core_def)
  have un: "unshared (lp_shards pool)" using core by (simp add: pool_core_def)
  have sub: "gm_get (sh_m sh') k = Some v \<Longrightarrow> gm_get (sh_m (lp_shards pool ! i)) k = Some v" for k v
    by (simp add: sh'_def sh_def m(2) split: if_splits)
  have gone: "holders ?shs x = {}" if "k \<in> set ev" "gm_get (sh_m sh) k = Some x" for k x
    by (rule gone_holders [OF un i that(2) [unfolded sh_def] sub]) (simp_all add: sh'_def m(2) that)
  have keep: "heap ! x = ?heap ! x" if "x < length ?heap" "y \<in> holders ?shs x" for x y
    using hp [of x] gone that hl by auto
  have sok: "shard_ok heap (pool_cap pool) (?shs ! j)" if j: "j < length (lp_shards pool)" for j
  proof (rule shard_ok_heap)
    show s: "shard_ok ?heap (pool_cap pool) (?shs ! j)"
      using ok [OF j] i lr m by (cases "j = i") (auto simp: shard_ok_def sh'_def sh_def split: if_splits)
    show "le_state (heap ! x) = le_state (?heap ! x)" if g: "gm_get (sh_m (?shs ! j)) k = Some x" for k x
    proof -
      have "x < length ?heap" using s g by (simp add: shard_ok_def)
      moreover have "(j, k) \<in> holders ?shs x" using g j by (simp add: holders_def)
      ultimately show ?thesis by (simp add: keep)
    qed
  qed (simp add: hl)
  have eok: "entry_ok late live x (heap ! x)" if x: "x < length heap" for x
  proof -
    have a: "entry_ok late live x (?heap ! x)" using core x hl by (simp add: pool_core_def)
    have "le_state (?heap ! x) = EntryActive" if "gm_get (sh_m sh) k = Some x" for k
      using ok [OF i] that by (simp add: shard_ok_def sh_def)
    with a hp [OF x] show ?thesis by (auto simp: entry_ok_evicted)
  qed
  have wok: "x < length heap \<and> holders ?shs x = {}" if x: "x \<in> set w" for x
  proof (cases "x \<in> set (lp_waiters pool)")
    case True
    then have "x < length ?heap" "holders (lp_shards pool) x = {}" using core by (auto simp: pool_core_def)
    then show ?thesis using holders_submap [where e = x, OF i sub] hl by auto
  next
    case False
    with w x obtain k where "k \<in> set ev" "gm_get (sh_m sh) k = Some x" by blast
    moreover from this ok [OF i] have "x < length ?heap" by (simp add: shard_ok_def sh_def)
    ultimately show ?thesis using gone hl by auto
  qed
  show ?thesis
    using core sok eok wok unshared_submap [OF un i sub] hl by (auto simp: pool_core_def pool_cap_def)
qed

lemma evict_preserves:
  assumes core: "pool_core late pool live" and i: "i < length (lp_shards pool)"
    and ev: "LRU_EvictIfNeeded (sh_lru (lp_shards pool ! i)) = (ev, lru')"
  defines "pool' \<equiv> evictIfNeededLocked pool i"
  shows "pool_core late pool' live \<and> lp_policy pool' = lp_policy pool \<and> length (lp_heap pool') = length (lp_heap pool)
    \<and> (\<forall>j. j \<noteq> i \<longrightarrow> lp_shards pool' ! j = lp_shards pool ! j) \<and> length (lp_shards pool') = length (lp_shards pool)
    \<and> sh_lru (lp_shards pool' ! i) = lru'
    \<and> (\<forall>k. k \<notin> set ev \<longrightarrow> gm_get (sh_m (lp_shards pool' ! i)) k = gm_get (sh_m (lp_shards pool ! i)) k)"
proof -
  let ?sh = "lp_shards pool ! i"
  obtain m heap w where e: "evict_entries ev (sh_m ?sh, lp_heap pool, lp_waiters pool) = (m, heap, w)"
    by (metis prod_cases3)
  have p': "pool' = pool\<lparr>lp_shards := (lp_shards pool)[i := ?sh\<lparr>sh_lru := lru', sh_m := m\<rparr>], lp_heap := heap, lp_waiters := w\<rparr>"
    unfolding pool'_def by (rule evict_form [OF ev e])
  have ok: "shard_ok (lp_heap pool) (pool_cap pool) ?sh" using core i by (simp add: pool_core_def)
  then have lok: "lru_ok (sh_lru ?sh)" and wf: "gm_wf (sh_m ?sh)" and cap: "lru_cap (sh_lru ?sh) = pool_cap pool"
    and ks: "set (lru_keys (sh_lru ?sh)) = dom (gm_get (sh_m ?sh))"
    by (auto simp: shard_ok_def)
  note sp = lru.evict_split [OF lok ev] and lr = lru.evict [OF lok ev]
  have "unshared (lp_shards pool)" using core by (simp add: pool_core_def)
  then have inj: "\<forall>k k' e. gm_get (sh_m ?sh) k = Some e \<longrightarrow> gm_get (sh_m ?sh) k' = Some e \<longrightarrow> k = k'"
    using i unfolding unshared_def holders_def by fastforce
  have bd: "\<forall>k e. gm_get (sh_m ?sh) k = Some e \<longrightarrow> e < length (lp_heap pool)"
    using ok by (auto simp: shard_ok_def)
  note E = evict_entries_spec [OF e sp(4) wf inj bd]
  have m: "gm_wf m" "gm_get m k = (if k \<in> set ev then None else gm_get (sh_m ?sh) k)" for k using E by blast+
  have hl: "length heap = length (lp_heap pool)" using E by blast
  have d: "set (lru_keys lru') = dom (gm_get m)" using sp(1,2) ks by (auto simp: m(2) dom_def)
  have "pool_core late pool' live"
    unfolding p' by (rule pool_core_evicted [OF core i m hl]) (use E hl lr cap d in simp_all)
  then show ?thesis using i hl by (simp add: p' m(2))
qed
section \<open>The operations preserve the invariant\<close>

lemma new_entry_core:
  assumes core: "pool_core late pool live" and i: "i < length (lp_shards pool)"
    and fresh: "gm_get (sh_m (lp_shards pool ! i)) key = None"
    and x: "le_state x = EntryActive" "le_refs x = 1" "le_closes x = 0"
    and h: "lh_entry h = length (lp_heap pool)" "\<not> lh_released h"
  defines "sh \<equiv> lp_shards pool ! i"
  defines "sh' \<equiv> sh\<lparr>sh_m := gm_put key (length (lp_heap pool)) (sh_m sh), sh_lru := LRU_Add (sh_lru sh) key\<rparr>"
  shows "pool_core late (pool\<lparr>lp_heap := lp_heap pool @ [x], lp_shards := (lp_shards pool)[i := sh']\<rparr>) (h # live)"
proof -
  let ?n = "length (lp_heap pool)" and ?shs = "(lp_shards pool)[i := sh']"
  have ok: "shard_ok (lp_heap pool) (pool_cap pool) (lp_shards pool ! j)" if "j < length (lp_shards pool)" for j
    using core that by (simp add: pool_core_def)
  have lt: "e < ?n" if "y \<in> holders (lp_shards pool) e" for y e
    using ok that by (auto simp: holders_def shard_ok_def)
  have hold: "holders ?shs e = (if e = ?n then {(i, key)} else holders (lp_shards pool) e)" for e
  proof (rule set_eqI)
    fix y
    show "y \<in> holders ?shs e \<longleftrightarrow> y \<in> (if e = ?n then {(i, key)} else holders (lp_shards pool) e)"
      using i fresh lt [of y e] by (cases y) (auto simp: holders_def nth_list_update sh'_def sh_def)
  qed
  have un: "unshared ?shs" using core unfolding unshared_def hold pool_core_def by simp
  have sok: "shard_ok (lp_heap pool @ [x]) (pool_cap pool) (?shs ! j)" if j: "j < length (lp_shards pool)" for j
    using ok [OF j] x i lru.add [of "sh_lru sh" key]
    by (cases "j = i") (auto simp: shard_ok_def sh'_def sh_def nth_append less_Suc_eq)
  have none: "pins live ?n = 0" using core by (auto simp: pool_core_def pins_def filter_empty_conv)
  have eok: "entry_ok late (h # live) e ((lp_heap pool @ [x]) ! e)" if "e < Suc ?n" for e
    using core that x h none by (auto simp: pool_core_def entry_ok_def nth_append less_Suc_eq)
  show ?thesis using core un sok eok h hold by (auto simp: pool_core_def pool_cap_def less_Suc_eq)
qed

text \<open>An update of entries that are not cached, or that keeps the state of cached ones.\<close>

lemma pool_core_heap:
  assumes core: "pool_core late pool live" and hl: "length heap = length (lp_heap pool)"
    and st: "\<And>e y. y \<in> holders (lp_shards pool) e \<Longrightarrow> le_state (heap ! e) = le_state (lp_heap pool ! e)"
    and eok: "\<And>e. e < length heap \<Longrightarrow> entry_ok late' live' e (heap ! e)"
    and live: "\<And>h. h \<in> set live' \<Longrightarrow> lh_entry h < length heap \<and> \<not> lh_released h"
    and w: "set w \<subseteq> set (lp_waiters pool)"
  shows "pool_core late' (pool\<lparr>lp_heap := heap, lp_waiters := w\<rparr>) live'"
proof -
  have "shard_ok heap (pool_cap pool) (lp_shards pool ! j)" if "j < length (lp_shards pool)" for j
  proof (rule shard_ok_heap)
    show "shard_ok (lp_heap pool) (pool_cap pool) (lp_shards pool ! j)" using core that by (simp add: pool_core_def)
    show "le_state (heap ! e) = le_state (lp_heap pool ! e)" if "gm_get (sh_m (lp_shards pool ! j)) k = Some e" for k e
      using st [of "(j, k)"] that \<open>j < length (lp_shards pool)\<close> by (simp add: holders_def)
  qed (simp add: hl)
  with core hl eok live w show ?thesis by (auto simp: pool_core_def pool_cap_def)
qed

text \<open>A change of one shard's recency order.\<close>

lemma pool_core_touch:
  assumes "pool_core late pool live" "i < length (lp_shards pool)" "key \<in> dom (gm_get (sh_m (lp_shards pool ! i)))"
  shows "pool_core late (pool\<lparr>lp_shards := (lp_shards pool)[i := (lp_shards pool ! i)\<lparr>sh_lru := LRU_Touch (sh_lru (lp_shards pool ! i)) key\<rparr>]\<rparr>) live"
proof -
  let ?sh = "lp_shards pool ! i" and ?shs = "(lp_shards pool)[i := (lp_shards pool ! i)\<lparr>sh_lru := LRU_Touch (sh_lru (lp_shards pool ! i)) key\<rparr>]"
  have hold: "holders ?shs e = holders (lp_shards pool) e" for e
    using assms(2) by (auto simp: holders_update) (auto simp: holders_def)
  have "shard_ok (lp_heap pool) (pool_cap pool) (?shs ! j)" if "j < length (lp_shards pool)" for j
    using assms that lru.touch [of "sh_lru ?sh" key]
    by (cases "j = i") (auto simp: pool_core_def shard_ok_def)
  with assms(1) hold show ?thesis by (auto simp: pool_core_def pool_cap_def unshared_def)
qed

lemma touch_length:
  "lru_ok l \<Longrightarrow> key \<in> set (lru_keys l) \<Longrightarrow> length (lru_keys (LRU_Touch l key)) = length (lru_keys l)"
  using lru.touch [of l key] lru.keys_distinct [of l] length_remove1 [of key "lru_keys l"]
  by (auto simp: distinct_remove1_removeAll removeAll_filter_not_eq neq_commute dest: length_pos_if_in_set)
lemma core_shard:
  "pool_core late pool live \<Longrightarrow> i < length (lp_shards pool) \<Longrightarrow> shard_ok (lp_heap pool) (pool_cap pool) (lp_shards pool ! i)"
  by (simp add: pool_core_def)

lemma acquire_hit:
  assumes inv: "pool_inv late pool live" and i: "i < length (lp_shards pool)"
    and g: "gm_get (sh_m (lp_shards pool ! i)) key = Some e"
    and room: "int (length live) < max_int64"
    and acq: "acquire_locked factory pool i key rule = (res, pool', factory')"
  shows "\<exists>h. res = Inr (h, rule) \<and> lh_entry h = e \<and> lh_lim h = le_lim (lp_heap pool ! e) \<and> pool_inv late pool' (h # live)
    \<and> gm_get (sh_m (lp_shards pool' ! i)) key = Some e \<and> lh_lim h = le_lim (lp_heap pool' ! e) \<and> factory' = factory
    \<and> length (lp_heap pool') = length (lp_heap pool) \<and> length (lp_shards pool') = length (lp_shards pool)"
proof -
  let ?sh = "lp_shards pool ! i"
  let ?h = "\<lparr>lh_entry = e, lh_lim = le_lim (lp_heap pool ! e), lh_released = False\<rparr>"
  let ?f = "\<lambda>x. x\<lparr>le_refs := wrap64 (le_refs x + 1)\<rparr>"
  let ?p1 = "pool\<lparr>lp_shards := (lp_shards pool)[i := ?sh\<lparr>sh_lru := LRU_Touch (sh_lru ?sh) key\<rparr>]\<rparr>"
  from inv have core: "pool_core late pool live" and bd: "shards_bounded pool" by (auto simp: pool_inv_def)
  from core_shard [OF core i] g have e: "e < length (lp_heap pool)" "le_state (lp_heap pool ! e) = EntryActive"
    and l: "lru_ok (sh_lru ?sh)" "key \<in> set (lru_keys (sh_lru ?sh))" by (auto simp: shard_ok_def)
  have r: "wrap64 (pins live e + 1) = pins live e + 1"
    using pins_le [of live e] pins_nonneg [of live e] room by (intro wrap64_id) (simp add: in_int64_def min_int64_def)
  have c1: "pool_core late ?p1 live" by (rule pool_core_touch [OF core i]) (use g in auto)
  have "pool_core late (?p1\<lparr>lp_heap := modify e ?f (lp_heap pool), lp_waiters := lp_waiters pool\<rparr>) (?h # live)"
  proof (rule pool_core_heap [OF c1])
    show "le_state (modify e ?f (lp_heap pool) ! x) = le_state (lp_heap ?p1 ! x)" for x
      by (cases "x = e") (use e in simp_all)
    show "entry_ok late (?h # live) x (modify e ?f (lp_heap pool) ! x)" if "x < length (modify e ?f (lp_heap pool))" for x
      using core that e r by (cases "x = e") (auto simp: pool_core_def entry_ok_def)
    show "lh_entry y < length (modify e ?f (lp_heap pool)) \<and> \<not> lh_released y" if "y \<in> set (?h # live)" for y
      using core that e by (auto simp: pool_core_def)
  qed simp_all
  moreover have p': "pool' = ?p1\<lparr>lp_heap := modify e ?f (lp_heap pool), lp_waiters := lp_waiters pool\<rparr>"
    and "res = Inr (?h, rule)" "factory' = factory"
    using acq g e by (auto simp: acquire_locked_def Let_def)
  moreover have "shards_bounded pool'"
    using bd i touch_length [OF l] unfolding p' by (auto simp: shards_bounded_def pool_cap_def nth_list_update)
  ultimately show ?thesis using g i e room by (simp add: pool_inv_def)
qed

lemma acquire_miss:
  assumes inv: "pool_inv late pool live" and i: "i < length (lp_shards pool)"
    and g: "gm_get (sh_m (lp_shards pool ! i)) key = None"
    and room: "int (length live) < max_int64"
    and cr: "LimiterFactory_Create factory (Some rule) = (Inr (limiter, params), factory1)"
    and acq: "acquire_locked factory pool i key rule = (res, pool', factory')"
  shows "\<exists>h. res = Inr (h, rule) \<and> lh_entry h = length (lp_heap pool) \<and> lh_lim h = limiter \<and> pool_inv late pool' (h # live)
    \<and> gm_get (sh_m (lp_shards pool' ! i)) key = Some (lh_entry h) \<and> factory' = factory1
    \<and> length (lp_heap pool') = Suc (length (lp_heap pool)) \<and> length (lp_shards pool') = length (lp_shards pool)"
proof -
  let ?sh = "lp_shards pool ! i" and ?n = "length (lp_heap pool)"
  let ?x = "\<lparr>le_lim = limiter, le_state = EntryActive, le_refs = 1, le_closes = 0\<rparr>"
  let ?h = "\<lparr>lh_entry = ?n, lh_lim = limiter, lh_released = False\<rparr>"
  let ?sh1 = "?sh\<lparr>sh_m := gm_put key ?n (sh_m ?sh), sh_lru := LRU_Add (sh_lru ?sh) key\<rparr>"
  let ?p1 = "pool\<lparr>lp_heap := lp_heap pool @ [?x], lp_shards := (lp_shards pool)[i := ?sh1]\<rparr>"
  from inv have core: "pool_core late pool live" and bd: "shards_bounded pool" by (auto simp: pool_inv_def)
  have c1: "pool_core late ?p1 (?h # live)" by (rule new_entry_core [OF core i g]) simp_all
  have out: "res = Inr (?h, rule)" "pool' = evictIfNeededLocked ?p1 i" "factory' = factory1"
    using acq g cr by (auto simp: acquire_locked_def Let_def newLimiterEntry_def)
  obtain ev lru' where ev: "LRU_EvictIfNeeded (LRU_Add (sh_lru ?sh) key) = (ev, lru')" by fastforce
  have i1: "i < length (lp_shards ?p1)" using i by simp
  have ev1: "LRU_EvictIfNeeded (sh_lru (lp_shards ?p1 ! i)) = (ev, lru')" using ev i by simp
  note E = evict_preserves [OF c1 i1 ev1, folded out(2)]
  from core_shard [OF core i] have l: "lru_ok (sh_lru ?sh)" "lru_cap (sh_lru ?sh) = pool_cap pool"
    by (auto simp: shard_ok_def)
  have l1: "lru_ok (LRU_Add (sh_lru ?sh) key)" "lru_cap (LRU_Add (sh_lru ?sh) key) = pool_cap pool"
    using lru.add [OF l(1), of key] l by auto
  have cap: "0 < lru_cap (sh_lru ?sh)" using core l by (simp add: pool_core_def)
  have kv: "key \<notin> set ev" by (rule lru.added_survives(2) [OF l(1) cap ev])
  have cap': "pool_cap pool' = pool_cap pool" using E by (simp add: pool_cap_def)
  have "length (lru_keys lru') \<le> pool_cap pool" using lru.evict_split(3) [OF l1(1) ev] l1(2) by simp
  then have "length (lru_keys (sh_lru (lp_shards pool' ! j))) \<le> pool_cap pool" if "j < length (lp_shards pool)" for j
    using E bd that i by (cases "j = i") (auto simp: shards_bounded_def)
  then have "shards_bounded pool'" using E cap' by (simp add: shards_bounded_def)
  then show ?thesis using E out kv i room by (simp add: pool_inv_def)
qed
lemma release_preserves:
  assumes inv: "pool_inv late pool live" and h: "h \<in> set live" and rel: "LimiterHandle_Release pool h = (pool', h')"
  shows "pool_inv late pool' (remove1 h live) \<and> lh_released h'"
proof -
  from inv have core: "pool_core late pool live" and bd: "shards_bounded pool" and n: "int (length live) \<le> max_int64"
    by (auto simp: pool_inv_def)
  let ?e = "lh_entry h" and ?heap = "modify (lh_entry h) entry_release (lp_heap pool)"
  from core h have e: "?e < length (lp_heap pool)" "\<not> lh_released h" by (auto simp: pool_core_def)
  have p': "pool' = pool\<lparr>lp_heap := ?heap, lp_waiters := lp_waiters pool\<rparr>" "h' = h\<lparr>lh_released := True\<rparr>"
    using rel e by (auto simp: LimiterHandle_Release_def)
  have ok: "entry_ok late live x (lp_heap pool ! x)" if "x < length (lp_heap pool)" for x
    using core that by (simp add: pool_core_def)
  have "h \<in> set (filter (\<lambda>k. lh_entry k = ?e) live)" using h by simp
  then have p0: "0 < pins live ?e" unfolding pins_def by (metis length_pos_if_in_set of_nat_0_less_iff)
  then have fit: "wrap64 (pins live ?e - 1) = pins live ?e - 1"
    using pins_le [of live ?e] n by (intro wrap64_id) (simp add: in_int64_def min_int64_def)
  have "pool_core late (pool\<lparr>lp_heap := ?heap, lp_waiters := lp_waiters pool\<rparr>) (remove1 h live)"
  proof (rule pool_core_heap [OF core])
    show "le_state (?heap ! x) = le_state (lp_heap pool ! x)" for x
      using e by (cases "x = ?e") (simp_all add: entry_release_def Let_def)
    show "entry_ok late (remove1 h live) x (?heap ! x)" if "x < length ?heap" for x
      using ok [of x] that e p0 fit
      by (cases "x = ?e") (auto simp: entry_ok_def entry_release_def Let_def pins_remove1 [OF h])
    show "lh_entry y < length ?heap \<and> \<not> lh_released y" if "y \<in> set (remove1 h live)" for y
      using core that notin_set_remove1 [of y live h] by (auto simp: pool_core_def)
  qed simp_all
  moreover have "int (length (remove1 h live)) \<le> max_int64" using n h by (simp add: length_remove1)
  ultimately show ?thesis using bd p' by (simp add: pool_inv_def shards_bounded_def pool_cap_def)
qed

lemma cutover_preserves:
  assumes inv: "pool_inv late pool live" and i: "i < length (lp_shards pool)"
  shows "pool_inv late (cutover_locked pool i key) live"
proof (cases "gm_get (sh_m (lp_shards pool ! i)) key")
  case None
  then show ?thesis using inv by (simp add: cutover_locked_def)
next
  case (Some e)
  let ?sh = "lp_shards pool ! i"
  let ?sh' = "?sh\<lparr>sh_m := gm_del key (sh_m ?sh), sh_lru := LRU_Remove (sh_lru ?sh) key\<rparr>"
  let ?f = "\<lambda>x. if le_state x \<noteq> EntryQuiescing then x\<lparr>le_state := EntryQuiescing\<rparr> else x"
  let ?heap = "modify e ?f (lp_heap pool)" and ?shs = "(lp_shards pool)[i := ?sh']"
  from inv have core: "pool_core late pool live" and bd: "shards_bounded pool" and n: "int (length live) \<le> max_int64"
    by (auto simp: pool_inv_def)
  have un: "unshared (lp_shards pool)" using core by (simp add: pool_core_def)
  have sub: "gm_get (sh_m ?sh') k = Some v \<Longrightarrow> gm_get (sh_m ?sh) k = Some v" for k v by (simp split: if_splits)
  have gone: "holders ?shs e = {}" by (rule gone_holders [OF un i Some sub]) simp_all
  have hs: "holders ?shs x \<subseteq> holders (lp_shards pool) x" for x by (rule holders_submap [OF i sub])
  have un': "unshared ?shs" by (rule unshared_submap [OF un i sub])
  note si = core_shard [OF core i]
  have l: "lru_ok (sh_lru ?sh)" and e: "e < length (lp_heap pool)" "le_state (lp_heap pool ! e) = EntryActive"
    using si Some by (auto simp: shard_ok_def)
  note lr = lru.remove [OF l, of key]
  have sok: "shard_ok ?heap (pool_cap pool) (?shs ! j)" if j: "j < length (lp_shards pool)" for j
  proof (rule shard_ok_heap)
    show s: "shard_ok (lp_heap pool) (pool_cap pool) (?shs ! j)"
      using core_shard [OF core j] lr i by (cases "j = i") (auto simp: shard_ok_def split: if_splits)
    show "le_state (?heap ! x) = le_state (lp_heap pool ! x)" if g: "gm_get (sh_m (?shs ! j)) k = Some x" for k x
    proof -
      have "(j, k) \<in> holders ?shs x" using g j by (simp add: holders_def)
      then show ?thesis using gone by (cases "x = e") auto
    qed
  qed simp
  have "entry_ok late live x (?heap ! x)" if "x < length (lp_heap pool)" for x
    using core that e by (cases "x = e") (auto simp: pool_core_def entry_ok_def)
  moreover have "holders ?shs x = {}" if "x \<in> insert e (set (lp_waiters pool))" for x
    using core that gone hs [of x] by (auto simp: pool_core_def)
  ultimately have "pool_core late (cutover_locked pool i key) live"
    using core sok e un' Some by (auto simp: pool_core_def pool_cap_def cutover_locked_def Let_def)
  moreover have "length (lru_keys (LRU_Remove (sh_lru ?sh) key)) \<le> length (lru_keys (sh_lru ?sh))" using lr by simp
  then have "shards_bounded (cutover_locked pool i key)"
    using bd i Some by (auto simp: shards_bounded_def pool_cap_def cutover_locked_def Let_def nth_list_update intro: le_trans)
  ultimately show ?thesis using n by (simp add: pool_inv_def)
qed

lemma close_preserves:
  assumes inv: "pool_inv late pool live" and e: "e \<in> set (lp_waiters pool)"
    and wait: "wait_over pool e expired" and late': "late' \<longleftrightarrow> late \<or> le_refs (lp_heap pool ! e) > 0"
  shows "pool_inv late' (waiter_close pool e) live"
proof -
  from inv have core: "pool_core late pool live" and bd: "shards_bounded pool" and n: "int (length live) \<le> max_int64"
    by (auto simp: pool_inv_def)
  from core e have el: "e < length (lp_heap pool)" "holders (lp_shards pool) e = {}" by (auto simp: pool_core_def)
  have ok: "entry_ok late live x (lp_heap pool ! x)" if "x < length (lp_heap pool)" for x
    using core that by (simp add: pool_core_def)
  have "pool_core late' (waiter_close pool e) live"
    unfolding waiter_close_def
  proof (rule pool_core_heap [OF core])
    show "le_state (modify e closeLimiter (lp_heap pool) ! x) = le_state (lp_heap pool ! x)"
      if "y \<in> holders (lp_shards pool) x" for x y
      using that el by (cases "x = e") auto
    show "entry_ok late' live x (modify e closeLimiter (lp_heap pool) ! x)" if "x < length (modify e closeLimiter (lp_heap pool))" for x
      using ok [of x] that el late'
      by (cases "x = e") (auto simp: entry_ok_def closeLimiter_def not_less dest: order.antisym [OF _ pins_nonneg])
    show "lh_entry h < length (modify e closeLimiter (lp_heap pool)) \<and> \<not> lh_released h" if "h \<in> set live" for h
      using core that by (auto simp: pool_core_def)
  qed (simp_all add: set_remove1_subset)
  then show ?thesis using bd n by (simp add: pool_inv_def shards_bounded_def pool_cap_def waiter_close_def)
qed
section \<open>The pool as a machine\<close>

text \<open>
  A run interleaves acquisitions (with whatever the rule cache and the factory are at that moment),
  releases of live handles, cutovers, and the ends of the waits. \<open>late\<close> records that a wait ran into
  its deadline while its entry was pinned. The number of live handles is bounded by the width of
  the reference count.
\<close>

record pool_run =
  pr_pool :: LimiterPool
  pr_live :: "LimiterHandle list"
  pr_late :: bool

inductive pool_step :: "pool_run \<Rightarrow> pool_run \<Rightarrow> bool" where
  acquired: "Acquire (Some rc) factory (Some (pr_pool s)) t r = Some (Inr (h, rule), Some pool', factory')
    \<Longrightarrow> int (length (pr_live s)) < max_int64
    \<Longrightarrow> pool_step s (s\<lparr>pr_pool := pool', pr_live := h # pr_live s\<rparr>)"
| refused: "Acquire (Some rc) factory (Some (pr_pool s)) t r = Some (Inl err, Some pool', factory')
    \<Longrightarrow> pool_step s (s\<lparr>pr_pool := pool'\<rparr>)"
| released: "h \<in> set (pr_live s) \<Longrightarrow> LimiterHandle_Release (pr_pool s) h = (pool', h')
    \<Longrightarrow> pool_step s (s\<lparr>pr_pool := pool', pr_live := remove1 h (pr_live s)\<rparr>)"
| detached: "Cutover_detach (Some (pr_pool s)) t r = Some (Some pool') \<Longrightarrow> pool_step s (s\<lparr>pr_pool := pool'\<rparr>)"
| closed: "e \<in> set (lp_waiters (pr_pool s)) \<Longrightarrow> wait_over (pr_pool s) e expired
    \<Longrightarrow> pool_step s (s\<lparr>pr_pool := waiter_close (pr_pool s) e,
                         pr_late := (pr_late s \<or> le_refs (lp_heap (pr_pool s) ! e) > 0)\<rparr>)"

definition pool_start :: "LimiterPolicy \<Rightarrow> pool_run" where
  "pool_start policy = \<lparr>pr_pool = NewLimiterPool policy, pr_live = [], pr_late = False\<rparr>"

definition run_inv :: "pool_run \<Rightarrow> bool" where
  "run_inv s \<longleftrightarrow> pool_inv (pr_late s) (pr_pool s) (pr_live s) \<and> 0 < length (lp_shards (pr_pool s))"

lemma run_inv_start: "run_inv (pool_start policy)"
proof -
  have "lru_ok (Some (NewLRUKeys m))" "lru_keys (Some (NewLRUKeys m)) = []" "lru_cap (Some (NewLRUKeys m)) = nat m" for m
    by (simp_all add: lru_ok_def lru_inv_New lru_keys_def lru_cap_def) (simp_all add: NewLRUKeys_def)
  then show ?thesis
    by (auto simp: run_inv_def pool_start_def NewLimiterPool_def Let_def pool_inv_def pool_core_def pool_cap_def
        shards_bounded_def shard_ok_def unshared_def holders_def max_int64_def)
qed

lemma shardFor_bound:
  "shardFor pool t r = Some i \<Longrightarrow> 0 < length (lp_shards pool) \<Longrightarrow> i < length (lp_shards pool)"
  using shardIndex_range [of "int (length (lp_shards pool))" t r] by (auto simp: shardFor_def)

text \<open>A successful \<^term>\<open>Acquire\<close>: a hit shares the cached entry, a miss creates and caches one.\<close>

lemma Acquire_success:
  assumes acq: "Acquire (Some rc) factory (Some pool) t r = Some (Inr (h, rule), Some pool', factory')"
    and inv: "pool_inv late pool live" "0 < length (lp_shards pool)" "int (length live) < max_int64"
  obtains i where "shardFor pool t r = Some i" "i < length (lp_shards pool)" "RuleCache_Get rc t r = Some rule"
    "pool_inv late pool' (h # live)" "length (lp_shards pool') = length (lp_shards pool)"
    "gm_get (sh_m (lp_shards pool' ! i)) (limiterPoolKey t r) = Some (lh_entry h)"
    "case gm_get (sh_m (lp_shards pool ! i)) (limiterPoolKey t r) of
       Some e \<Rightarrow> lh_entry h = e \<and> lh_lim h = le_lim (lp_heap pool ! e) \<and> factory' = factory
     | None \<Rightarrow> lh_entry h = length (lp_heap pool)
         \<and> (\<exists>params. LimiterFactory_Create factory (Some rule) = (Inr (lh_lim h, params), factory'))"
proof -
  let ?k = "limiterPoolKey t r"
  from acq obtain i where i: "shardFor pool t r = Some i" "RuleCache_Get rc t r = Some rule"
    and l: "acquire_locked factory pool i ?k rule = (Inr (h, rule), pool', factory')"
    by (auto simp: acquire_locked_def Let_def split: option.splits prod.splits sum.splits)
  note b = shardFor_bound [OF i(1) inv(2)]
  show thesis
  proof (cases "gm_get (sh_m (lp_shards pool ! i)) ?k")
    case (Some e)
    from acquire_hit [OF inv(1) b Some inv(3) l] i b Some show thesis by (intro that) auto
  next
    case None
    then obtain limiter params where c: "LimiterFactory_Create factory (Some rule) = (Inr (limiter, params), factory')"
      using l by (auto simp: acquire_locked_def Let_def split: prod.splits sum.splits)
    from acquire_miss [OF inv(1) b None inv(3) c l] i b None c show thesis by (intro that) auto
  qed
qed

lemma Acquire_failure:
  assumes "Acquire (Some rc) factory (Some pool) t r = Some (Inl err, Some pool', factory')"
  shows "pool' = pool"
  using assms by (auto simp: acquire_locked_def Let_def split: option.splits prod.splits sum.splits)

lemma Cutover_success:
  assumes "Cutover_detach (Some pool) t r = Some (Some pool')" "pool_inv late pool live" "0 < length (lp_shards pool)"
  shows "pool_inv late pool' live \<and> length (lp_shards pool') = length (lp_shards pool)"
proof -
  from assms(1) obtain i where i: "shardFor pool t r = Some i" and p: "pool' = cutover_locked pool i (limiterPoolKey t r)"
    by (auto split: option.splits)
  from cutover_preserves [OF assms(2) shardFor_bound [OF i assms(3)]] show ?thesis
    unfolding p by (simp add: cutover_locked_def Let_def split: option.split)
qed

lemma run_inv_step: "pool_step s s' \<Longrightarrow> run_inv s \<Longrightarrow> run_inv s'"
proof (induction rule: pool_step.induct)
  case (acquired rc factory s t r h rule pool' factory')
  then have inv: "pool_inv (pr_late s) (pr_pool s) (pr_live s)" "0 < length (lp_shards (pr_pool s))"
    by (simp_all add: run_inv_def)
  from Acquire_success [OF acquired(1) inv acquired(2)]
  have "pool_inv (pr_late s) pool' (h # pr_live s) \<and> length (lp_shards pool') = length (lp_shards (pr_pool s))" by metis
  with inv(2) show ?case by (simp add: run_inv_def del: length_greater_0_conv)
next
  case (refused rc factory s t r err pool' factory')
  from Acquire_failure [OF refused(1)] refused(2) show ?case by (simp add: run_inv_def)
next
  case (released h s pool' h')
  have "length (lp_shards pool') = length (lp_shards (pr_pool s))"
    using released(2) by (auto simp: LimiterHandle_Release_def split: if_splits)
  moreover have "pool_inv (pr_late s) (pr_pool s) (pr_live s)" using released(3) by (simp add: run_inv_def)
  note release_preserves [OF this released(1,2)]
  ultimately show ?case using released(3) by (simp add: run_inv_def del: length_greater_0_conv)
next
  case (detached s t r pool')
  then have inv: "pool_inv (pr_late s) (pr_pool s) (pr_live s)" "0 < length (lp_shards (pr_pool s))"
    by (simp_all add: run_inv_def)
  from Cutover_success [OF detached(1) inv] inv(2) show ?case by (simp add: run_inv_def del: length_greater_0_conv)
next
  case (closed e s expired)
  then show ?case using close_preserves by (auto simp: run_inv_def waiter_close_def)
qed

lemma run_inv_reachable: "pool_step\<^sup>*\<^sup>* (pool_start policy) s \<Longrightarrow> run_inv s"
  by (induction rule: rtranclp_induct) (auto simp: run_inv_start run_inv_step)
section \<open>Properties\<close>

text \<open>C9. In every reachable state of the pool an entry's reference count is the number of live handles on it,
  its limiter has been closed at most once, exactly when the entry is in state Closed, and as long as no wait for
  the handles has timed out, no live handle's limiter is closed.\<close>

theorem limiter_pool_lifecycle:
  assumes "pool_step\<^sup>*\<^sup>* (pool_start policy) s" "e < length (lp_heap (pr_pool s))"
  shows "let x = lp_heap (pr_pool s) ! e in
     le_refs x = pins (pr_live s) e \<and> le_closes x \<le> 1 \<and> (le_closes x = 1 \<longleftrightarrow> le_state x = EntryClosed)
     \<and> (\<not> pr_late s \<longrightarrow> 0 < pins (pr_live s) e \<longrightarrow> le_closes x = 0)"
proof -
  from run_inv_reachable [OF assms(1)] assms(2)
  have "entry_ok (pr_late s) (pr_live s) e (lp_heap (pr_pool s) ! e)"
    by (simp add: run_inv_def pool_inv_def pool_core_def)
  then show ?thesis by (auto simp: entry_ok_def Let_def)
qed

text \<open>C10. In every reachable state a shard holds at most its configured number of entries, its recency list tracks
  exactly the cached keys, and every cached entry is Active: no Quiescing or Closed entry can be acquired.\<close>

theorem limiter_pool_bounded:
  assumes "pool_step\<^sup>*\<^sup>* (pool_start policy) s" "i < length (lp_shards (pr_pool s))"
  shows "let sh = lp_shards (pr_pool s) ! i in
     gm_len (sh_m sh) \<le> po_MaxEntriesShard (lp_policy (pr_pool s))
     \<and> set (lru_keys (sh_lru sh)) = gm_keys (sh_m sh) \<and> distinct (lru_keys (sh_lru sh))
     \<and> (\<forall>k e. gm_get (sh_m sh) k = Some e \<longrightarrow> le_state (lp_heap (pr_pool s) ! e) = EntryActive)"
proof -
  let ?p = "pr_pool s" and ?sh = "lp_shards (pr_pool s) ! i"
  from run_inv_reachable [OF assms(1)] have core: "pool_core (pr_late s) ?p (pr_live s)" and bd: "shards_bounded ?p"
    by (auto simp: run_inv_def pool_inv_def)
  note ok = core_shard [OF core assms(2)]
  then have ks: "set (lru_keys (sh_lru ?sh)) = dom (gm_get (sh_m ?sh))" and d: "distinct (lru_keys (sh_lru ?sh))"
    and wf: "gm_wf (sh_m ?sh)"
    using lru.keys_distinct [of "sh_lru ?sh"] by (auto simp: shard_ok_def)
  have "length (sh_m ?sh) = length (lru_keys (sh_lru ?sh))"
    using gm_len_card [OF wf] distinct_card [OF d] ks by simp
  moreover have "length (lru_keys (sh_lru ?sh)) \<le> pool_cap ?p" using bd assms(2) by (simp add: shards_bounded_def)
  moreover have "0 < pool_cap ?p" using core by (simp add: pool_core_def)
  ultimately have "gm_len (sh_m ?sh) \<le> po_MaxEntriesShard (lp_policy ?p)" by (simp add: pool_cap_def)
  with ok ks d show ?thesis by (auto simp: shard_ok_def gm_keys_dom)
qed

lemma cutover_absent:
  assumes "pool_inv late pool live" "i < length (lp_shards pool)"
  shows "gm_get (sh_m (lp_shards (cutover_locked pool i key) ! i)) key = None"
    "length (lp_shards (cutover_locked pool i key)) = length (lp_shards pool)"
  using assms(2) by (simp_all add: cutover_locked_def Let_def split: option.split)

text \<open>C27. After a \<^term>\<open>Cutover_detach\<close> the next \<^term>\<open>Acquire\<close> of that tenant and resource serves a limiter built from the
  rule the cache holds then, and caches it under its key: no limiter of an older rule survives a cutover.\<close>

theorem limiter_pool_cutover_fresh:
  assumes "pool_step\<^sup>*\<^sup>* (pool_start policy) s" "int (length (pr_live s)) < max_int64"
    and "Cutover_detach (Some (pr_pool s)) t r = Some (Some pool1)"
    and "Acquire (Some rc) factory (Some pool1) t r = Some (Inr (h, rule), Some pool2, factory')"
  shows "RuleCache_Get rc t r = Some rule \<and> lh_entry h = length (lp_heap pool1)
     \<and> (\<exists>params. LimiterFactory_Create factory (Some rule) = (Inr (lh_lim h, params), factory'))
     \<and> (\<exists>i. shardFor pool2 t r = Some i \<and> gm_get (sh_m (lp_shards pool2 ! i)) (limiterPoolKey t r) = Some (lh_entry h))"
proof -
  from run_inv_reachable [OF assms(1)] have inv: "pool_inv (pr_late s) (pr_pool s) (pr_live s)" "0 < length (lp_shards (pr_pool s))"
    by (auto simp: run_inv_def)
  from assms(3) obtain i where i: "shardFor (pr_pool s) t r = Some i"
    and p1: "pool1 = cutover_locked (pr_pool s) i (limiterPoolKey t r)" by (auto split: option.splits)
  note b = shardFor_bound [OF i inv(2)]
  note c = Cutover_success [OF assms(3) inv]
  have same: "shardFor p t r = Some i" if "length (lp_shards p) = length (lp_shards (pr_pool s))" for p
    using i that by (simp add: shardFor_def)
  have inv1: "pool_inv (pr_late s) pool1 (pr_live s)" "0 < length (lp_shards pool1)" using c inv(2) by simp_all
  have none: "gm_get (sh_m (lp_shards pool1 ! i)) (limiterPoolKey t r) = None"
    unfolding p1 by (rule cutover_absent [OF inv(1) b])
  show ?thesis
  proof (rule Acquire_success [OF assms(4) inv1 assms(2)])
    fix j
    assume j: "shardFor pool1 t r = Some j" and g: "RuleCache_Get rc t r = Some rule"
      and l: "length (lp_shards pool2) = length (lp_shards pool1)"
      and k: "gm_get (sh_m (lp_shards pool2 ! j)) (limiterPoolKey t r) = Some (lh_entry h)"
      and cs: "case gm_get (sh_m (lp_shards pool1 ! j)) (limiterPoolKey t r) of
         Some e \<Rightarrow> lh_entry h = e \<and> lh_lim h = le_lim (lp_heap pool1 ! e) \<and> factory' = factory
       | None \<Rightarrow> lh_entry h = length (lp_heap pool1)
           \<and> (\<exists>params. LimiterFactory_Create factory (Some rule) = (Inr (lh_lim h, params), factory'))"
    have "j = i" using same [of pool1] c j by simp
    moreover have "shardFor pool2 t r = Some i" using same [of pool2] c l by simp
    ultimately show ?thesis using g k cs none by simp
  qed
qed
section \<open>A sample run\<close>

text \<open>One shard of one entry: acquiring a second key evicts the first, which is still pinned.\<close>

definition run_acquire :: "RuleCache \<Rightarrow> backend option \<Rightarrow> string \<Rightarrow> string \<Rightarrow> pool_run \<Rightarrow> pool_run" where
  "run_acquire rc factory t r s =
     (case Acquire (Some rc) factory (Some (pr_pool s)) t r of
        Some (Inr (h, rule), Some pool', factory') \<Rightarrow> s\<lparr>pr_pool := pool', pr_live := h # pr_live s\<rparr>
      | _ \<Rightarrow> s)"

lemma run_acquire_reachable:
  "int (length (pr_live s)) < max_int64 \<Longrightarrow> pool_step\<^sup>*\<^sup>* s (run_acquire rc factory t r s)"
  by (auto simp: run_acquire_def split: option.split prod.split sum.split simp del: Acquire.simps intro!: r_into_rtranclp acquired)

definition sample_policy :: LimiterPolicy where
  "sample_policy = \<lparr>po_Shards = 1, po_MaxEntriesShard = 1, po_QuiesceWindow = 0, po_CloseTimeout = 0\<rparr>"

definition sample_rules :: RuleCache where
  "sample_rules = foldl RuleCache_UpsertIfNewer NewRuleCache
     (map Some [sample_rule ''t'' ''a'' 5 1, sample_rule ''t'' ''b'' 6 1])"

definition sample_run :: pool_run where
  "sample_run = run_acquire sample_rules (Some sample_backend) ''t'' ''b''
     (run_acquire sample_rules (Some sample_backend) ''t'' ''a'' (pool_start sample_policy))"

definition newer_rules :: RuleCache where
  "newer_rules = RuleCache_UpsertIfNewer sample_rules (Some (sample_rule ''t'' ''b'' 9 2))"

lemma get_a: "RuleCache_Get sample_rules ''t'' ''a'' = Some (sample_rule ''t'' ''a'' 5 1)" by code_simp

lemma get_b: "RuleCache_Get sample_rules ''t'' ''b'' = Some (sample_rule ''t'' ''b'' 6 1)" by code_simp

lemma get_newer: "RuleCache_Get newer_rules ''t'' ''b'' = Some (sample_rule ''t'' ''b'' 9 2)" by code_simp

lemma normalize_fixed: "normalizeAlgorithm ''fixed_window'' = Inr limiterFixedWindow" by code_simp

lemma sample_rule_Limit: "ru_Limit (sample_rule t r l v) = l" by (simp add: sample_rule_def)

lemma sample_creates:
  "t \<noteq> [] \<Longrightarrow> r \<noteq> [] \<Longrightarrow> 0 < l \<Longrightarrow> LimiterFactory_Create (Some sample_backend) (Some (sample_rule t r l v)) =
     (Inr (fixed_limiter (params_of_rule (sample_rule t r l v)), params_of_rule (sample_rule t r l v)), Some sample_backend)"
  by (simp add: sample_rule_def sample_backend_def normalize_fixed fixed_limiter_def Let_def)

lemma sample_start:
  "pool_start sample_policy = \<lparr>pr_pool = \<lparr>lp_heap = [], lp_shards = [\<lparr>sh_m = [], sh_lru = Some (NewLRUKeys 1)\<rparr>],
     lp_policy = \<lparr>po_Shards = 1, po_MaxEntriesShard = 1, po_QuiesceWindow = 50 * Millisecond, po_CloseTimeout = 2 * Second\<rparr>,
     lp_waiters = []\<rparr>, pr_live = [], pr_late = False\<rparr>"
  by (simp add: pool_start_def NewLimiterPool_def sample_policy_def)

declare LimiterFactory_Create.simps [simp del]

lemmas sample_eval = run_acquire_def get_a get_b get_newer shardFor_def shardIndex_def sample_start acquire_locked_def
  sample_creates newLimiterEntry_def evictIfNeededLocked_def NewLRUKeys_def limiterPoolKey_def sep_def Let_def
  list_Back_def list_Remove_def modify_def list_MoveToFront_def

lemma sample_run_reachable: "pool_step\<^sup>*\<^sup>* (pool_start sample_policy) sample_run"
proof -
  let ?s = "run_acquire sample_rules (Some sample_backend) ''t'' ''a'' (pool_start sample_policy)"
  have "pool_step\<^sup>*\<^sup>* (pool_start sample_policy) ?s"
    by (rule run_acquire_reachable) (simp add: pool_start_def max_int64_def)
  moreover have "length (pr_live ?s) = 1" by (simp add: sample_eval)
  then have "pool_step\<^sup>*\<^sup>* ?s sample_run"
    unfolding sample_run_def by (intro run_acquire_reachable) (simp add: max_int64_def)
  ultimately show ?thesis by simp
qed

lemma sample_run_values:
  "length (lp_heap (pr_pool sample_run)) = 2" "length (lp_shards (pr_pool sample_run)) = 1"
  "le_state (lp_heap (pr_pool sample_run) ! 0) = EntryQuiescing" "lp_waiters (pr_pool sample_run) = [0]"
  "length (pr_live sample_run) = 2"
  by (simp_all add: sample_run_def sample_eval)

theorem limiter_pool_lifecycle_witness:
  "0 < length (lp_heap (pr_pool sample_run)) \<and> le_state (lp_heap (pr_pool sample_run) ! 0) = EntryQuiescing
   \<and> (let x = lp_heap (pr_pool sample_run) ! 0 in
     le_refs x = pins (pr_live sample_run) 0 \<and> le_closes x \<le> 1 \<and> (le_closes x = 1 \<longleftrightarrow> le_state x = EntryClosed)
     \<and> (\<not> pr_late sample_run \<longrightarrow> 0 < pins (pr_live sample_run) 0 \<longrightarrow> le_closes x = 0))"
proof (intro conjI)
  show l: "0 < length (lp_heap (pr_pool sample_run))" using sample_run_values(1) by simp
  show "le_state (lp_heap (pr_pool sample_run) ! 0) = EntryQuiescing"
    by (rule sample_run_values)
  show "let x = lp_heap (pr_pool sample_run) ! 0 in
     le_refs x = pins (pr_live sample_run) 0 \<and> le_closes x \<le> 1 \<and> (le_closes x = 1 \<longleftrightarrow> le_state x = EntryClosed)
     \<and> (\<not> pr_late sample_run \<longrightarrow> 0 < pins (pr_live sample_run) 0 \<longrightarrow> le_closes x = 0)"
    by (rule limiter_pool_lifecycle [OF sample_run_reachable l])
qed

theorem limiter_pool_bounded_witness:
  "0 < length (lp_shards (pr_pool sample_run)) \<and> (let sh = lp_shards (pr_pool sample_run) ! 0 in
     gm_len (sh_m sh) \<le> po_MaxEntriesShard (lp_policy (pr_pool sample_run))
     \<and> set (lru_keys (sh_lru sh)) = gm_keys (sh_m sh) \<and> distinct (lru_keys (sh_lru sh))
     \<and> (\<forall>k e. gm_get (sh_m sh) k = Some e \<longrightarrow> le_state (lp_heap (pr_pool sample_run) ! e) = EntryActive))"
  using limiter_pool_bounded [OF sample_run_reachable, of 0] sample_run_values(2) by simp

text \<open>A rule changed behind the pool's back: the cached limiter keeps the old limit until a cutover.\<close>

definition acquired_limits :: "RuleCache \<Rightarrow> LimiterPool option \<Rightarrow> (int64 \<times> int64) option" where
  "acquired_limits rc pool =
     (case Acquire (Some rc) (Some sample_backend) pool ''t'' ''b'' of
        Some (Inr (h, rule), pool', factory') \<Rightarrow> Some (rp_Limit (rl_params (lh_lim h)), ru_Limit rule)
      | _ \<Rightarrow> None)"

lemma acquire_serves_old_limiter: "acquired_limits newer_rules (Some (pr_pool sample_run)) = Some (6, 9)"
  by (simp add: acquired_limits_def sample_run_def sample_eval fixed_limiter_def params_of_rule_def sample_rule_Limit)

definition sample_cutover :: "LimiterPool" where
  "sample_cutover = the (the (Cutover_detach (Some (pr_pool sample_run)) ''t'' ''b''))"

definition sample_acquired :: "(go_error + LimiterHandle \<times> Rule) \<times> LimiterPool option \<times> backend option" where
  "sample_acquired = the (Acquire (Some newer_rules) (Some sample_backend) (Some sample_cutover) ''t'' ''b'')"

definition sample_handle :: LimiterHandle where "sample_handle = fst (projr (fst sample_acquired))"

theorem limiter_pool_cutover_fresh_witness:
  "RuleCache_Get newer_rules ''t'' ''b'' = Some (sample_rule ''t'' ''b'' 9 2) \<and> lh_entry sample_handle = length (lp_heap sample_cutover)
     \<and> (\<exists>params. LimiterFactory_Create (Some sample_backend) (Some (sample_rule ''t'' ''b'' 9 2)) =
          (Inr (lh_lim sample_handle, params), snd (snd sample_acquired)))
     \<and> (\<exists>i. shardFor (the (fst (snd sample_acquired))) ''t'' ''b'' = Some i
          \<and> gm_get (sh_m (lp_shards (the (fst (snd sample_acquired))) ! i)) (limiterPoolKey ''t'' ''b'') = Some (lh_entry sample_handle))"
proof (rule limiter_pool_cutover_fresh [OF sample_run_reachable])
  show "int (length (pr_live sample_run)) < max_int64" by (simp add: sample_run_values max_int64_def)
  show "Cutover_detach (Some (pr_pool sample_run)) ''t'' ''b'' = Some (Some sample_cutover)"
    by (simp add: sample_cutover_def sample_run_def sample_eval)
  show "Acquire (Some newer_rules) (Some sample_backend) (Some sample_cutover) ''t'' ''b'' =
    Some (Inr (sample_handle, sample_rule ''t'' ''b'' 9 2), Some (the (fst (snd sample_acquired))), snd (snd sample_acquired))"
    by (simp add: sample_handle_def sample_acquired_def sample_cutover_def sample_run_def sample_eval cutover_locked_def)
qed
end
