(* ===== verification/In_Flight.thy ===== *)
theory In_Flight
  imports Go_Base
begin

text \<open>
  \<^verbatim>\<open>core/drain.go\<close>: the count of requests in flight and the signal that they have drained. The
  methods are given twice: as functions, which is how a caller that runs alone sees them, and as
  programs of atomic accesses, one step per load, store or channel operation, which is how
  concurrent callers see them. Closing a closed channel panics (\<^term>\<open>None\<close>).
\<close>

section \<open>The methods\<close>

record InFlight =
  if_n :: int64
  if_closed :: bool
  if_ch :: bool

definition NewInFlight :: InFlight where
  "NewInFlight = \<lparr>if_n = 0, if_closed = False, if_ch = False\<rparr>"

definition close_ch :: "InFlight \<Rightarrow> InFlight option" where
  "close_ch f = (if if_ch f then None else Some (f\<lparr>if_ch := True\<rparr>))"

definition add_n :: "int64 \<Rightarrow> InFlight \<Rightarrow> InFlight" where
  "add_n d f = f\<lparr>if_n := wrap64 (if_n f + d)\<rparr>"

fun InFlight_Begin :: "InFlight option \<Rightarrow> bool \<times> InFlight option" where
  "InFlight_Begin None = (False, None)"
| "InFlight_Begin (Some f) =
     (if if_closed f then (False, Some f)
      else let f1 = add_n 1 f in
           if if_closed f1 then (False, Some (add_n (-1) f1)) else (True, Some f1))"

fun InFlight_End :: "InFlight option \<Rightarrow> InFlight option option" where
  "InFlight_End None = Some None"
| "InFlight_End (Some f) =
     (let f1 = add_n (-1) f in
      if if_n f1 = 0 \<and> if_closed f1 then map_option Some (close_ch f1) else Some (Some f1))"

fun InFlight_Close :: "InFlight option \<Rightarrow> InFlight option option" where
  "InFlight_Close None = Some None"
| "InFlight_Close (Some f) =
     (if if_closed f then Some (Some f)
      else let f1 = f\<lparr>if_closed := True\<rparr> in
           if if_n f1 = 0 then map_option Some (close_ch f1) else Some (Some f1))"

text \<open>\<^verbatim>\<open>Wait\<close>: \<open>ctx_err\<close> is the error of a context that is done; when both channels are ready the
  runtime picks one; the outer \<^term>\<open>None\<close> is a wait that has not ended.\<close>

fun InFlight_Wait :: "InFlight option \<Rightarrow> go_error option \<Rightarrow> bool \<Rightarrow> go_error option option" where
  "InFlight_Wait None ctx_err pick = Some None"
| "InFlight_Wait (Some f) ctx_err pick =
     (case ctx_err of
        None \<Rightarrow> if if_ch f then Some None else None
      | Some err \<Rightarrow> if if_ch f \<and> pick then Some None else Some (Some err))"

section \<open>One caller at a time\<close>

text \<open>A history of method calls by requests that end once: \<open>active\<close> requests are between \<^verbatim>\<open>Begin\<close> and
  \<^verbatim>\<open>End\<close>.\<close>

datatype drain_op = OpBegin | OpEnd | OpClose

fun drain_step :: "InFlight \<times> nat \<Rightarrow> drain_op \<Rightarrow> (InFlight \<times> nat) option" where
  "drain_step (f, active) OpBegin =
     (case InFlight_Begin (Some f) of (ok, f') \<Rightarrow> Some (the f', if ok then Suc active else active))"
| "drain_step (f, active) OpEnd =
     (if active = 0 then Some (f, active) else map_option (\<lambda>f'. (the f', active - 1)) (InFlight_End (Some f)))"
| "drain_step (f, active) OpClose = map_option (\<lambda>f'. (the f', active)) (InFlight_Close (Some f))"

fun drain_run :: "drain_op list \<Rightarrow> InFlight \<times> nat \<Rightarrow> (InFlight \<times> nat) option" where
  "drain_run [] s = Some s"
| "drain_run (op # ops) s = (case drain_step s op of None \<Rightarrow> None | Some s' \<Rightarrow> drain_run ops s')"

definition drain_ok :: "InFlight \<times> nat \<Rightarrow> bool" where
  "drain_ok = (\<lambda>(f, active). if_n f = int active \<and> (if_ch f \<longleftrightarrow> if_closed f \<and> active = 0))"

lemma drain_step_ok:
  assumes "drain_ok (f, active)" "int active < max_int64"
  shows "\<exists>s'. drain_step (f, active) op = Some s' \<and> drain_ok s' \<and> snd s' \<le> Suc active
     \<and> (if_closed f \<longrightarrow> if_closed (fst s') \<and> snd s' \<le> active)"
proof -
  have w: "wrap64 (int active + 1) = int active + 1" "0 < active \<Longrightarrow> wrap64 (int active - 1) = int active - 1"
    using assms(2) by (auto intro!: wrap64_id simp: in_int64_def min_int64_def)
  show ?thesis
    using assms w by (cases op) (auto simp: drain_ok_def add_n_def close_ch_def Let_def)
qed

lemma drain_run_ok:
  assumes "drain_ok s" "int (snd s + length ops) < max_int64"
  shows "\<exists>s'. drain_run ops s = Some s' \<and> drain_ok s' \<and> (if_closed (fst s) \<longrightarrow> if_closed (fst s') \<and> snd s' \<le> snd s)"
  using assms
proof (induction ops arbitrary: s)
  case (Cons op ops)
  obtain f active where s: "s = (f, active)" by (cases s)
  from Cons.prems drain_step_ok [of f active op] obtain s1 where s1: "drain_step s op = Some s1" "drain_ok s1"
    "snd s1 \<le> Suc active" "if_closed f \<longrightarrow> if_closed (fst s1) \<and> snd s1 \<le> active"
    unfolding s by auto
  from Cons.IH [OF s1(2)] Cons.prems(2) s1(3) obtain s' where "drain_run ops s1 = Some s'" "drain_ok s'"
    "if_closed (fst s1) \<longrightarrow> if_closed (fst s') \<and> snd s' \<le> snd s1"
    unfolding s by auto
  then show ?case using s1 unfolding s by auto
qed simp

section \<open>Concurrent callers\<close>

text \<open>The program counters of a request (\<^verbatim>\<open>Begin\<close>, the work, \<^verbatim>\<open>End\<close>) and of a shutdown (\<^verbatim>\<open>Close\<close>).
  A request that was admitted stands at \<open>Working\<close> until its \<^verbatim>\<open>End\<close>.\<close>

datatype pc =
    BeginLoad | BeginAdd | BeginRecheck | BeginUndo | Refused
  | Working | EndAdd | EndLoad | EndCloseCh | Ended
  | CloseCAS | CloseLoad | CloseCh | Closed

fun access :: "InFlight \<Rightarrow> pc \<Rightarrow> (InFlight \<times> pc) option" where
  "access f BeginLoad = Some (f, if if_closed f then Refused else BeginAdd)"
| "access f BeginAdd = Some (add_n 1 f, BeginRecheck)"
| "access f BeginRecheck = Some (f, if if_closed f then BeginUndo else Working)"
| "access f BeginUndo = Some (add_n (-1) f, Refused)"
| "access f Working = Some (f, EndAdd)"
| "access f EndAdd = (let f1 = add_n (-1) f in Some (f1, if if_n f1 = 0 then EndLoad else Ended))"
| "access f EndLoad = Some (f, if if_closed f then EndCloseCh else Ended)"
| "access f EndCloseCh = map_option (\<lambda>f1. (f1, Ended)) (close_ch f)"
| "access f CloseCAS = (if if_closed f then Some (f, Closed) else Some (f\<lparr>if_closed := True\<rparr>, CloseLoad))"
| "access f CloseLoad = Some (f, if if_n f = 0 then CloseCh else Closed)"
| "access f CloseCh = map_option (\<lambda>f1. (f1, Closed)) (close_ch f)"
| "access f Refused = Some (f, Refused)"
| "access f Ended = Some (f, Ended)"
| "access f Closed = Some (f, Closed)"

text \<open>A schedule names the thread that makes the next access.\<close>

fun run_sched :: "nat list \<Rightarrow> InFlight \<times> pc list \<Rightarrow> (InFlight \<times> pc list) option" where
  "run_sched [] s = Some s"
| "run_sched (i # is) (f, pcs) =
     (if i < length pcs
      then (case access f (pcs ! i) of None \<Rightarrow> None | Some (f', p) \<Rightarrow> run_sched is (f', pcs[i := p]))
      else run_sched is (f, pcs))"

text \<open>A thread that runs alone behaves as the function.\<close>

lemma begin_alone:
  "\<exists>n. run_sched (replicate n 0) (f, [BeginLoad]) =
     Some (the (snd (InFlight_Begin (Some f))), [if fst (InFlight_Begin (Some f)) then Working else Refused])"
  by (cases "if_closed f") (rule exI [of _ 1], simp, rule exI [of _ 3], simp add: Let_def numeral_3_eq_3 add_n_def)

lemma end_alone:
  "\<exists>n. map_option (Some \<circ> fst) (run_sched (replicate n 0) (f, [EndAdd])) = InFlight_End (Some f)
     \<and> (\<forall>s. run_sched (replicate n 0) (f, [EndAdd]) = Some s \<longrightarrow> snd s = [Ended])"
  by (rule exI [of _ 3]) (auto simp: Let_def numeral_3_eq_3 add_n_def close_ch_def split: option.splits)

lemma close_alone:
  "\<exists>n. map_option (Some \<circ> fst) (run_sched (replicate n 0) (f, [CloseCAS])) = InFlight_Close (Some f)
     \<and> (\<forall>s. run_sched (replicate n 0) (f, [CloseCAS]) = Some s \<longrightarrow> snd s = [Closed])"
  by (rule exI [of _ 3]) (auto simp: Let_def numeral_3_eq_3 close_ch_def split: option.splits)

section \<open>What holds under concurrency\<close>

definition counted :: "pc \<Rightarrow> bool" where
  "counted p \<longleftrightarrow> p \<in> {BeginRecheck, BeginUndo, Working, EndAdd}"

definition at_work :: "pc \<Rightarrow> bool" where
  "at_work p \<longleftrightarrow> p \<in> {Working, EndAdd}"

definition tally :: "pc list \<Rightarrow> int" where
  "tally pcs = int (length (filter counted pcs))"

lemma tally_update:
  assumes "i < length pcs"
  shows "tally (pcs[i := p]) = tally pcs + (if counted p then 1 else 0) - (if counted (pcs ! i) then 1 else 0)"
proof -
  have "length (filter counted (pcs[i := p])) + (if counted (pcs ! i) then 1 else 0) =
        length (filter counted pcs) + (if counted p then 1 else 0)"
    using assms
  proof (induction pcs arbitrary: i)
    case (Cons q pcs)
    then show ?case by (cases i) auto
  qed simp
  then show ?thesis by (auto simp: tally_def)
qed

lemma tally_bounds: "0 \<le> tally pcs" "tally pcs \<le> int (length pcs)"
  by (simp_all add: tally_def)

lemma tally_wrap:
  assumes "int (length pcs) < max_int64" "x \<in> {tally pcs, tally pcs + 1, tally pcs - 1}"
  shows "wrap64 x = x"
  using assms tally_bounds [of pcs] by (intro wrap64_id) (auto simp: in_int64_def min_int64_def)

lemma access_counts:
  assumes "access f p = Some (f', p')" "if_n f = tally pcs" "int (length pcs) < max_int64" "if_ch f \<longrightarrow> if_closed f"
    and "p = CloseCh \<or> p = EndCloseCh \<or> p = CloseLoad \<longrightarrow> if_closed f"
  shows "if_n f' = tally pcs + (if counted p' then 1 else 0) - (if counted p then 1 else 0)
     \<and> (if_ch f' \<longrightarrow> if_closed f') \<and> (if_closed f \<longrightarrow> if_closed f')
     \<and> (p' = CloseCh \<or> p' = EndCloseCh \<or> p' = CloseLoad \<longrightarrow> if_closed f')
     \<and> (if_closed f \<longrightarrow> at_work p' \<longrightarrow> at_work p)"
proof -
  have w: "wrap64 (tally pcs + 1) = tally pcs + 1" "wrap64 (tally pcs - 1) = tally pcs - 1"
    using assms(3) by (auto intro: tally_wrap)
  show ?thesis
    using assms(1,2,4,5) w
    by (cases p) (auto simp: counted_def at_work_def add_n_def close_ch_def Let_def split: if_split_asm)
qed

definition sched_ok :: "InFlight \<times> pc list \<Rightarrow> bool" where
  "sched_ok = (\<lambda>(f, pcs). if_n f = tally pcs \<and> (if_ch f \<longrightarrow> if_closed f)
     \<and> (\<forall>p \<in> set pcs. p = CloseCh \<or> p = EndCloseCh \<or> p = CloseLoad \<longrightarrow> if_closed f))"

lemma run_sched_ok:
  assumes "run_sched is (f, pcs) = Some (f', pcs')" "sched_ok (f, pcs)" "int (length pcs) < max_int64"
  shows "sched_ok (f', pcs') \<and> length pcs' = length pcs
     \<and> (if_closed f \<longrightarrow> if_closed f' \<and> (\<forall>j < length pcs. at_work (pcs' ! j) \<longrightarrow> at_work (pcs ! j)))"
  using assms
proof (induction "is" arbitrary: f pcs)
  case (Cons i "is")
  show ?case
  proof (cases "i < length pcs")
    case False
    with Cons show ?thesis by simp
  next
    case True
    with Cons.prems(1) obtain f1 p where a: "access f (pcs ! i) = Some (f1, p)"
      and r: "run_sched is (f1, pcs[i := p]) = Some (f', pcs')"
      by (auto split: option.splits)
    have m: "pcs ! i \<in> set pcs" using True by simp
    from Cons.prems(2) m have pre: "if_n f = tally pcs" "if_ch f \<longrightarrow> if_closed f"
      "pcs ! i = CloseCh \<or> pcs ! i = EndCloseCh \<or> pcs ! i = CloseLoad \<longrightarrow> if_closed f"
      by (auto simp: sched_ok_def)
    note c = access_counts [OF a pre(1) Cons.prems(3) pre(2,3)]
    have "sched_ok (f1, pcs[i := p])"
      using c Cons.prems(2) by (auto simp: sched_ok_def tally_update [OF True] dest!: subsetD [OF set_update_subset_insert])
    from Cons.IH [OF r this] Cons.prems(3) have ih: "sched_ok (f', pcs')" "length pcs' = length pcs"
      "if_closed f1 \<longrightarrow> if_closed f' \<and> (\<forall>j < length pcs. at_work (pcs' ! j) \<longrightarrow> at_work (pcs[i := p] ! j))"
      by auto
    have "at_work (pcs ! j)" if "if_closed f" "j < length pcs" "at_work (pcs' ! j)" for j
      using ih(3) c that True by (cases "j = i") auto
    with ih c show ?thesis by auto
  qed
qed simp

section \<open>Properties\<close>

text \<open>C30. Called one at a time, by requests that end once, the methods never close the channel twice; after every
  history of calls the count is the number of requests between Begin and End, the channel is closed exactly when the tracker
  is closed and no request is left, and from the Close on no request is at_work.\<close>

theorem drain_sequential:
  assumes "int (length ops + length ops') < max_int64"
  shows "\<exists>f n f' n'. drain_run ops (NewInFlight, 0) = Some (f, n) \<and> if_n f = int n \<and> (if_ch f \<longleftrightarrow> if_closed f \<and> n = 0)
     \<and> drain_run ops' (f, n) = Some (f', n') \<and> (if_closed f \<longrightarrow> if_closed f' \<and> n' \<le> n)"
proof -
  have i: "drain_ok (NewInFlight, 0)" by (simp add: drain_ok_def NewInFlight_def)
  have len: "snd s \<le> n + length ops" if "drain_run ops (g, n) = Some s" for s g n and ops :: "drain_op list"
    using that
  proof (induction ops arbitrary: g n)
    case (Cons op ops)
    then obtain g1 n1 where s1: "drain_step (g, n) op = Some (g1, n1)" "drain_run ops (g1, n1) = Some s"
      by (auto split: option.splits)
    have "n1 \<le> Suc n" using s1(1) by (cases op) (auto split: prod.splits if_splits)
    with Cons.IH [OF s1(2)] show ?case by simp
  qed auto
  from drain_run_ok [OF i, of ops] assms obtain f n where r: "drain_run ops (NewInFlight, 0) = Some (f, n)" "drain_ok (f, n)" by auto
  with len [OF r(1)] assms drain_run_ok [OF r(2), of ops'] show ?thesis by (auto simp: drain_ok_def)
qed

theorem drain_sequential_witness:
  "\<exists>f n f' n'. drain_run [OpBegin, OpBegin, OpClose] (NewInFlight, 0) = Some (f, n) \<and> if_n f = int n
     \<and> (if_ch f \<longleftrightarrow> if_closed f \<and> n = 0)
     \<and> drain_run [OpBegin, OpEnd, OpEnd] (f, n) = Some (f', n') \<and> (if_closed f \<longrightarrow> if_closed f' \<and> n' \<le> n)"
  by (rule drain_sequential) (simp add: max_int64_def)

text \<open>C31. Under every interleaving of the atomic accesses of requests and shutdowns that has not panicked, the count is
  the number of requests that have registered and not ended, the channel is closed only after Close, and once the tracker is
  closed no further request is at_work.\<close>

theorem drain_concurrent:
  assumes "\<forall>p \<in> set pcs. p = BeginLoad \<or> p = CloseCAS" "int (length pcs) < max_int64"
    and "run_sched s1 (NewInFlight, pcs) = Some (f, pcs1)" "run_sched s2 (f, pcs1) = Some (f', pcs2)"
  shows "if_n f = int (length (filter counted pcs1)) \<and> (if_ch f \<longrightarrow> if_closed f)
     \<and> (if_closed f \<longrightarrow> if_closed f' \<and> (\<forall>j < length pcs. at_work (pcs2 ! j) \<longrightarrow> at_work (pcs1 ! j)))"
proof -
  have "filter counted pcs = []" using assms(1) by (auto simp: filter_empty_conv counted_def)
  then have i: "sched_ok (NewInFlight, pcs)" using assms(1) by (auto simp: sched_ok_def tally_def NewInFlight_def)
  note r = run_sched_ok [OF assms(3) i assms(2)]
  then have "sched_ok (f, pcs1)" "int (length pcs1) < max_int64" using assms(2) by auto
  from run_sched_ok [OF assms(4) this] r show ?thesis by (auto simp: sched_ok_def tally_def)
qed

theorem drain_concurrent_witness:
  "if_n \<lparr>if_n = 1, if_closed = True, if_ch = False\<rparr> = int (length (filter counted [Closed, Working, Refused]))
   \<and> if_closed \<lparr>if_n = 0, if_closed = True, if_ch = True\<rparr> \<and> \<not> at_work ([Closed, Ended, Refused] ! 2)"
proof -
  have "run_sched [1, 1, 1, 0, 0, 2] (NewInFlight, [CloseCAS, BeginLoad, BeginLoad]) =
      Some (\<lparr>if_n = 1, if_closed = True, if_ch = False\<rparr>, [Closed, Working, Refused])"
    and "run_sched [1, 1, 1, 1] (\<lparr>if_n = 1, if_closed = True, if_ch = False\<rparr>, [Closed, Working, Refused]) =
      Some (\<lparr>if_n = 0, if_closed = True, if_ch = True\<rparr>, [Closed, Ended, Refused])"
    by (simp_all add: NewInFlight_def add_n_def close_ch_def Let_def wrap64_def numeral_eq_Suc)
  from drain_concurrent [OF _ _ this] show ?thesis by (simp add: max_int64_def at_work_def)
qed

section \<open>What does not hold under concurrency\<close>

text \<open>
  \<^verbatim>\<open>End\<close> and \<^verbatim>\<open>Close\<close> can both see a count of zero and a closed tracker, and both close the channel:
  the second one panics.
\<close>

lemma drain_double_close:
  "run_sched [1, 1, 1, 1, 1, 0, 0, 0, 1, 1] (NewInFlight, [CloseCAS, BeginLoad]) = None"
  by (simp add: NewInFlight_def add_n_def close_ch_def Let_def wrap64_def numeral_eq_Suc)

text \<open>A \<^verbatim>\<open>Begin\<close> that takes its registration back after \<^verbatim>\<open>Close\<close> has read the count leaves a drained
  tracker unsignalled: every thread is finished and \<^verbatim>\<open>Wait\<close> has nothing to wait for but its context.\<close>

lemma drain_lost_wakeup:
  "run_sched [1, 1, 0, 0, 1, 1] (NewInFlight, [CloseCAS, BeginLoad]) =
     Some (\<lparr>if_n = 0, if_closed = True, if_ch = False\<rparr>, [Closed, Refused])"
  by (simp add: NewInFlight_def add_n_def close_ch_def Let_def wrap64_def numeral_eq_Suc)

text \<open>An \<^verbatim>\<open>End\<close> that saw a count of zero before another request began signals the drain while that
  request is still at work, and the request's own \<^verbatim>\<open>End\<close> panics.\<close>

lemma drain_premature_signal:
  "run_sched [1, 1, 1, 1, 1, 2, 2, 2, 0, 0, 1, 1] (NewInFlight, [CloseCAS, BeginLoad, BeginLoad]) =
     Some (\<lparr>if_n = 1, if_closed = True, if_ch = True\<rparr>, [Closed, Ended, Working])
   \<and> run_sched [2, 2, 2, 2] (\<lparr>if_n = 1, if_closed = True, if_ch = True\<rparr>, [Closed, Ended, Working]) = None"
  by (simp add: NewInFlight_def add_n_def close_ch_def Let_def wrap64_def numeral_eq_Suc)
end
