(* ===== verification/Coalescer.thy ===== *)
theory Coalescer
  imports Fnv Core_Models
begin

text \<open>
  \<^verbatim>\<open>core/coalescer.go\<close>: concurrent calls with the same key share one execution. An entry is reached from a
  shard's map, from its leader and from the followers that wait on it, so entries live in a heap;
  \<open>co_key\<close> is the key an entry was made for, which the code does not store. \<^verbatim>\<open>Do\<close> is given in its
  two critical sections, as a function for a caller that is not interrupted, and as a machine
  whose steps interleave many callers.
\<close>

section \<open>State\<close>

type_synonym outcome = "Decision option \<times> go_error option"

record coalesced =
  co_done :: bool
  co_created :: time
  co_result :: outcome
  co_key :: string

record Coalescer =
  cl_heap :: "coalesced list"
  cl_shards :: "(string, nat) gomap list"
  cl_ttl :: duration

definition NewCoalescer :: "int \<Rightarrow> duration \<Rightarrow> Coalescer" where
  "NewCoalescer shards ttl =
     (let shards = (if shards \<le> 0 then 64 else shards);
          ttl = (if ttl \<le> 0 then 10 * Millisecond else ttl)
      in \<lparr>cl_heap = [], cl_shards = replicate (nat shards) [], cl_ttl = ttl\<rparr>)"

definition coalescer_shardFor :: "Coalescer \<Rightarrow> string \<Rightarrow> nat option" where
  "coalescer_shardFor c key = map_option nat (coalescerShardIndex key (int (length (cl_shards c))))"

section \<open>Do\<close>

datatype turn = Lead nat | Follow nat

text \<open>The first critical section: \<open>now\<close> is read by \<^verbatim>\<open>time.Since\<close>, \<open>created\<close> for a new entry.\<close>

definition Do_enter :: "time \<Rightarrow> time \<Rightarrow> Coalescer \<Rightarrow> nat \<Rightarrow> string \<Rightarrow> turn \<times> Coalescer" where
  "Do_enter now created c i key =
     (let fresh = (let (heap, e) = alloc (cl_heap c) \<lparr>co_done = False, co_created = created, co_result = (None, None), co_key = key\<rparr>
                   in (Lead e, c\<lparr>cl_heap := heap, cl_shards := (cl_shards c)[i := gm_put key e (cl_shards c ! i)]\<rparr>))
      in case gm_get (cl_shards c ! i) key of
           Some existing \<Rightarrow>
             if time_Sub now (co_created (cl_heap c ! existing)) \<le> cl_ttl c then (Follow existing, c) else fresh
         | None \<Rightarrow> fresh)"

text \<open>The leader publishes its result and then, in the second critical section, removes its entry
  unless a later leader has replaced it.\<close>

definition Do_publish :: "Coalescer \<Rightarrow> nat \<Rightarrow> outcome \<Rightarrow> Coalescer" where
  "Do_publish c e r = c\<lparr>cl_heap := modify e (\<lambda>x. x\<lparr>co_result := r, co_done := True\<rparr>) (cl_heap c)\<rparr>"

definition Do_leave :: "Coalescer \<Rightarrow> nat \<Rightarrow> string \<Rightarrow> nat \<Rightarrow> Coalescer" where
  "Do_leave c i key e =
     (if gm_get (cl_shards c ! i) key = Some e
      then c\<lparr>cl_shards := (cl_shards c)[i := gm_del key (cl_shards c ! i)]\<rparr> else c)"

text \<open>
  \<^verbatim>\<open>Do\<close> for a leader that is not interleaved with others. \<open>await e\<close> is what a follower of entry \<open>e\<close>
  gets: the result published there, or the error of its context. \<open>fn\<close> acts on the state \<open>s\<close> that
  the callback captures. \<^term>\<open>None\<close> is the panic of the shard index.
\<close>

definition Do :: "time \<Rightarrow> time \<Rightarrow> (nat \<Rightarrow> outcome) \<Rightarrow> Coalescer option \<Rightarrow> string \<Rightarrow> ('s \<Rightarrow> outcome \<times> 's) \<Rightarrow> 's
      \<Rightarrow> (outcome \<times> Coalescer option \<times> 's) option" where
  "Do now created await c_ptr key fn s =
     (case c_ptr of
        None \<Rightarrow> (case fn s of (r, s') \<Rightarrow> Some (r, None, s'))
      | Some c \<Rightarrow>
          if length (cl_shards c) = 0 \<or> cl_ttl c \<le> 0 then (case fn s of (r, s') \<Rightarrow> Some (r, Some c, s'))
          else
            (case coalescer_shardFor c key of
               None \<Rightarrow> None
             | Some i \<Rightarrow>
                 (case Do_enter now created c i key of
                    (Follow e, c1) \<Rightarrow> Some (await e, Some c1, s)
                  | (Lead e, c1) \<Rightarrow>
                      (case fn s of (r, s') \<Rightarrow> Some (r, Some (Do_leave (Do_publish c1 e r) i key e), s')))))"

section \<open>Interleaved calls\<close>

text \<open>
  A caller stands before \<^verbatim>\<open>Do\<close>, is a leader that executes \<^verbatim>\<open>fn\<close>, a leader that has published, a follower
  that arrived at some time and waits, or is done: with the result of its own execution, with the
  shared result of an entry, or with the error of its context. \<open>cr_calls\<close> records the executions of
  \<^verbatim>\<open>fn\<close> and what they returned.
\<close>

datatype caller =
    Before string
  | Leading nat string
  | Published nat string outcome
  | Waiting nat string time
  | Led nat string outcome
  | Shared nat string time outcome
  | Gave_up string

record co_run =
  cr_c :: Coalescer
  cr_callers :: "caller list"
  cr_clock :: time
  cr_calls :: "(nat \<times> string \<times> outcome) list"

inductive co_step :: "co_run \<Rightarrow> co_run \<Rightarrow> bool" where
  enter_lead: "t < length (cr_callers s) \<Longrightarrow> cr_callers s ! t = Before key \<Longrightarrow> coalescer_shardFor (cr_c s) key = Some i
    \<Longrightarrow> cr_clock s \<le> now \<Longrightarrow> now \<le> created \<Longrightarrow> Do_enter now created (cr_c s) i key = (Lead e, c')
    \<Longrightarrow> co_step s (s\<lparr>cr_c := c', cr_callers := (cr_callers s)[t := Leading e key], cr_clock := created\<rparr>)"
| enter_follow: "t < length (cr_callers s) \<Longrightarrow> cr_callers s ! t = Before key \<Longrightarrow> coalescer_shardFor (cr_c s) key = Some i
    \<Longrightarrow> cr_clock s \<le> now \<Longrightarrow> Do_enter now created (cr_c s) i key = (Follow e, c')
    \<Longrightarrow> co_step s (s\<lparr>cr_c := c', cr_callers := (cr_callers s)[t := Waiting e key now], cr_clock := now\<rparr>)"
| publish: "t < length (cr_callers s) \<Longrightarrow> cr_callers s ! t = Leading e key
    \<Longrightarrow> co_step s (s\<lparr>cr_c := Do_publish (cr_c s) e r, cr_callers := (cr_callers s)[t := Published e key r],
                       cr_calls := (e, key, r) # cr_calls s\<rparr>)"
| leave: "t < length (cr_callers s) \<Longrightarrow> cr_callers s ! t = Published e key r \<Longrightarrow> coalescer_shardFor (cr_c s) key = Some i
    \<Longrightarrow> co_step s (s\<lparr>cr_c := Do_leave (cr_c s) i key e, cr_callers := (cr_callers s)[t := Led e key r]\<rparr>)"
| wake: "t < length (cr_callers s) \<Longrightarrow> cr_callers s ! t = Waiting e key arrived \<Longrightarrow> co_done (cl_heap (cr_c s) ! e)
    \<Longrightarrow> co_step s (s\<lparr>cr_callers := (cr_callers s)[t := Shared e key arrived (co_result (cl_heap (cr_c s) ! e))]\<rparr>)"
| cancel: "t < length (cr_callers s) \<Longrightarrow> cr_callers s ! t = Waiting e key arrived
    \<Longrightarrow> co_step s (s\<lparr>cr_callers := (cr_callers s)[t := Gave_up key]\<rparr>)"
| tick: "cr_clock s \<le> now \<Longrightarrow> co_step s (s\<lparr>cr_clock := now\<rparr>)"

definition co_start :: "int \<Rightarrow> duration \<Rightarrow> string list \<Rightarrow> time \<Rightarrow> co_run" where
  "co_start shards ttl keys now =
     \<lparr>cr_c = NewCoalescer shards ttl, cr_callers = map Before keys, cr_clock = now, cr_calls = []\<rparr>"

section \<open>Invariant\<close>

definition owns :: "caller \<Rightarrow> nat \<Rightarrow> string \<Rightarrow> bool" where
  "owns t e key \<longleftrightarrow> t = Leading e key \<or> (\<exists>r. t = Published e key r)"

text \<open>What the map of its shard holds for a key.\<close>

definition cached :: "Coalescer \<Rightarrow> string \<Rightarrow> nat \<Rightarrow> bool" where
  "cached c key e \<longleftrightarrow> (\<exists>i < length (cl_shards c). coalescer_shardFor c key = Some i \<and> gm_get (cl_shards c ! i) key = Some e)"

definition stale :: "co_run \<Rightarrow> nat \<Rightarrow> bool" where
  "stale s e \<longleftrightarrow> cl_ttl (cr_c s) < cr_clock s - co_created (cl_heap (cr_c s) ! e)"

fun caller_ok :: "co_run \<Rightarrow> caller \<Rightarrow> bool" where
  "caller_ok s (Before key) \<longleftrightarrow> True"
| "caller_ok s (Leading e key) \<longleftrightarrow> e < length (cl_heap (cr_c s)) \<and> \<not> co_done (cl_heap (cr_c s) ! e)
     \<and> (cached (cr_c s) key e \<or> stale s e)"
| "caller_ok s (Published e key r) \<longleftrightarrow> (e, key, r) \<in> set (cr_calls s)"
| "caller_ok s (Waiting e key a) \<longleftrightarrow> e < length (cl_heap (cr_c s)) \<and> co_key (cl_heap (cr_c s) ! e) = key
     \<and> time_Sub a (co_created (cl_heap (cr_c s) ! e)) \<le> cl_ttl (cr_c s)"
| "caller_ok s (Led e key r) \<longleftrightarrow> (e, key, r) \<in> set (cr_calls s)"
| "caller_ok s (Shared e key a r) \<longleftrightarrow> (e, key, r) \<in> set (cr_calls s) \<and> e < length (cl_heap (cr_c s))
     \<and> time_Sub a (co_created (cl_heap (cr_c s) ! e)) \<le> cl_ttl (cr_c s)"
| "caller_ok s (Gave_up key) \<longleftrightarrow> True"

definition entries_ok :: "co_run \<Rightarrow> bool" where
  "entries_ok s \<longleftrightarrow> (\<forall>e < length (cl_heap (cr_c s)). let x = cl_heap (cr_c s) ! e in
     co_created x \<le> cr_clock s \<and> (co_done x \<longrightarrow> (e, co_key x, co_result x) \<in> set (cr_calls s)))"

definition maps_ok :: "co_run \<Rightarrow> bool" where
  "maps_ok s \<longleftrightarrow> (\<forall>i < length (cl_shards (cr_c s)). \<forall>k e. gm_get (cl_shards (cr_c s) ! i) k = Some e \<longrightarrow>
     coalescer_shardFor (cr_c s) k = Some i \<and> e < length (cl_heap (cr_c s)) \<and> co_key (cl_heap (cr_c s) ! e) = k
     \<and> (\<exists>t < length (cr_callers s). owns (cr_callers s ! t) e k))"

definition owners_ok :: "co_run \<Rightarrow> bool" where
  "owners_ok s \<longleftrightarrow> (\<forall>t < length (cr_callers s). \<forall>e k. owns (cr_callers s ! t) e k \<longrightarrow>
     e < length (cl_heap (cr_c s)) \<and> co_key (cl_heap (cr_c s) ! e) = k
     \<and> (\<forall>t' < length (cr_callers s). \<forall>k'. owns (cr_callers s ! t') e k' \<longrightarrow> t' = t))"

definition co_inv :: "co_run \<Rightarrow> bool" where
  "co_inv s \<longleftrightarrow> 0 < cl_ttl (cr_c s) \<and> cl_shards (cr_c s) \<noteq> [] \<and> entries_ok s \<and> maps_ok s \<and> owners_ok s
     \<and> (\<forall>t < length (cr_callers s). caller_ok s (cr_callers s ! t))"

lemma owns_simps [simp]:
  "\<not> owns (Before k) e key" "owns (Leading e' k) e key \<longleftrightarrow> e = e' \<and> key = k" "owns (Published e' k r) e key \<longleftrightarrow> e = e' \<and> key = k"
  "\<not> owns (Waiting e' k a) e key" "\<not> owns (Led e' k r) e key" "\<not> owns (Shared e' k a r) e key" "\<not> owns (Gave_up k) e key"
  by (auto simp: owns_def)

lemma co_shardFor_bound:
  "coalescer_shardFor c key = Some i \<Longrightarrow> cl_shards c \<noteq> [] \<Longrightarrow> i < length (cl_shards c)"
  using coalescerShardIndex_range [of "int (length (cl_shards c))" key] by (auto simp: coalescer_shardFor_def)

lemma shardFor_shape [simp]:
  "coalescer_shardFor (c\<lparr>cl_heap := heap\<rparr>) key = coalescer_shardFor c key"
  "length shs = length (cl_shards c) \<Longrightarrow> coalescer_shardFor (c\<lparr>cl_shards := shs\<rparr>) key = coalescer_shardFor c key"
  by (simp_all add: coalescer_shardFor_def)

text \<open>A caller that a step leaves alone stays well-formed.\<close>

lemma caller_ok_frame:
  assumes "caller_ok s t" "cl_ttl (cr_c s') = cl_ttl (cr_c s)" "length (cl_heap (cr_c s)) \<le> length (cl_heap (cr_c s'))"
    and "\<And>e. e < length (cl_heap (cr_c s)) \<Longrightarrow> co_created (cl_heap (cr_c s') ! e) = co_created (cl_heap (cr_c s) ! e)
           \<and> co_key (cl_heap (cr_c s') ! e) = co_key (cl_heap (cr_c s) ! e)"
    and "set (cr_calls s) \<subseteq> set (cr_calls s')"
    and "\<And>e key. t = Leading e key \<Longrightarrow> \<not> co_done (cl_heap (cr_c s') ! e) \<and> (cached (cr_c s') key e \<or> stale s' e)"
  shows "caller_ok s' t"
  using assms by (cases t) auto

lemma stale_mono:
  assumes "stale s e" "cr_clock s \<le> cr_clock s'" "cl_ttl (cr_c s') = cl_ttl (cr_c s)"
    and "co_created (cl_heap (cr_c s') ! e) = co_created (cl_heap (cr_c s) ! e)"
  shows "stale s' e"
  using assms by (simp add: stale_def)

text \<open>What \<^term>\<open>Do_enter\<close> does in each case.\<close>

lemma Do_enter_lead:
  assumes "Do_enter now created c i key = (Lead e, c')"
  shows "e = length (cl_heap c)"
    and "c' = c\<lparr>cl_heap := cl_heap c @ [\<lparr>co_done = False, co_created = created, co_result = (None, None), co_key = key\<rparr>],
                cl_shards := (cl_shards c)[i := gm_put key e (cl_shards c ! i)]\<rparr>"
    and "gm_get (cl_shards c ! i) key = Some e0 \<Longrightarrow> cl_ttl c < time_Sub now (co_created (cl_heap c ! e0))"
  using assms by (auto simp: Do_enter_def Let_def split: option.splits if_splits)

lemma Do_enter_follow:
  assumes "Do_enter now created c i key = (Follow e, c')"
  shows "c' = c" and "gm_get (cl_shards c ! i) key = Some e" and "time_Sub now (co_created (cl_heap c ! e)) \<le> cl_ttl c"
  using assms by (auto simp: Do_enter_def Let_def split: option.splits if_splits)

lemma time_Sub_gt: "0 < d \<Longrightarrow> d < time_Sub a b \<Longrightarrow> d < a - b"
  by (auto simp: time_Sub_def min_int64_def max_def min_def split: if_splits)

lemma inv_parts:
  assumes "co_inv s"
  shows "0 < cl_ttl (cr_c s)" "cl_shards (cr_c s) \<noteq> []" "entries_ok s" "maps_ok s" "owners_ok s"
    "t < length (cr_callers s) \<Longrightarrow> caller_ok s (cr_callers s ! t)"
  using assms by (auto simp: co_inv_def)

lemma owner_update:
  assumes "\<exists>t' < length cs. owns (cs ! t') x k" "owns (cs ! t) x k \<Longrightarrow> owns p x k"
  shows "\<exists>t' < length cs. owns (cs[t := p] ! t') x k"
proof -
  from assms(1) obtain t' where t': "t' < length cs" "owns (cs ! t') x k" by blast
  then have "owns (cs[t := p] ! t') x k" using assms(2) by (cases "t' = t") auto
  with t'(1) show ?thesis by blast
qed

lemma callers_update:
  assumes "caller_ok s' p" "\<And>t'. t' < length cs \<Longrightarrow> t' \<noteq> t \<Longrightarrow> caller_ok s' (cs ! t')"
  shows "\<forall>t' < length (cs[t := p]). caller_ok s' (cs[t := p] ! t')"
proof (intro allI impI)
  fix t' assume "t' < length (cs[t := p])"
  with assms show "caller_ok s' (cs[t := p] ! t')" by (cases "t' = t") auto
qed

lemma owners_update:
  assumes "owners_ok s" "length (cl_heap (cr_c s)) \<le> length (cl_heap c')"
    and "\<And>e. e < length (cl_heap (cr_c s)) \<Longrightarrow> co_key (cl_heap c' ! e) = co_key (cl_heap (cr_c s) ! e)"
    and "\<And>e k. owns p e k \<Longrightarrow> owns (cr_callers s ! t) e k"
  shows "owners_ok (s\<lparr>cr_c := c', cr_callers := (cr_callers s)[t := p], cr_clock := now, cr_calls := calls\<rparr>)"
proof -
  have bwd: "owns (cr_callers s ! t') e k" if "t' < length (cr_callers s)" "owns ((cr_callers s)[t := p] ! t') e k" for t' e k
    using that assms(4) by (cases "t' = t") auto
  show ?thesis
    unfolding owners_ok_def
  proof (intro allI impI, goal_cases)
    case (1 t' e k)
    then have ow: "t' < length (cr_callers s)" "owns (cr_callers s ! t') e k" using bwd by auto
    with assms(1) have "e < length (cl_heap (cr_c s))" "co_key (cl_heap (cr_c s) ! e) = k"
      "\<forall>t2 < length (cr_callers s). \<forall>k'. owns (cr_callers s ! t2) e k' \<longrightarrow> t2 = t'"
      unfolding owners_ok_def by blast+
    with assms(2,3) show ?case by (auto dest: bwd)
  qed
qed

lemma co_inv_enter_lead:
  assumes inv: "co_inv s" and t: "t < length (cr_callers s)" "cr_callers s ! t = Before key"
    and i: "coalescer_shardFor (cr_c s) key = Some i" and now: "cr_clock s \<le> now" "now \<le> created"
    and d: "Do_enter now created (cr_c s) i key = (Lead e, c')"
  shows "co_inv (s\<lparr>cr_c := c', cr_callers := (cr_callers s)[t := Leading e key], cr_clock := created\<rparr>)" (is "co_inv ?s'")
proof -
  let ?c = "cr_c s"
  note P = inv_parts [OF inv] and D = Do_enter_lead [OF d]
  have il: "i < length (cl_shards ?c)" by (rule co_shardFor_bound [OF i P(2)])
  have E: "entries_ok ?s'" using P(3) now by (force simp: entries_ok_def D Let_def nth_append less_Suc_eq)
  have M: "maps_ok ?s'"
    unfolding maps_ok_def
  proof (intro allI impI, goal_cases)
    case (1 j k x)
    then have j: "j < length (cl_shards ?c)" by (simp add: D(2))
    show ?case
    proof (cases "j = i \<and> k = key")
      case True
      with 1 il i t show ?thesis by (auto simp: D intro!: exI [of _ t])
    next
      case False
      with 1 j have g: "gm_get (cl_shards ?c ! j) k = Some x" by (cases "j = i") (auto simp: D(2))
      with P(4) j have m: "coalescer_shardFor ?c k = Some j" "x < length (cl_heap ?c)" "co_key (cl_heap ?c ! x) = k"
        "\<exists>t' < length (cr_callers s). owns (cr_callers s ! t') x k" unfolding maps_ok_def by blast+
      from owner_update [OF m(4), of t "Leading e key"] t m(1-3) show ?thesis by (simp add: D nth_append)
    qed
  qed
  have O: "owners_ok ?s'"
  proof -
    have lt: "x < length (cl_heap ?c)" if "t' < length (cr_callers s)" "owns (cr_callers s ! t') x k" for t' x k
      using P(5) that unfolding owners_ok_def by blast
    have un: "t1 = t2 \<and> co_key (cl_heap ?c ! x) = k"
      if "t1 < length (cr_callers s)" "owns (cr_callers s ! t1) x k" "t2 < length (cr_callers s)" "owns (cr_callers s ! t2) x k'" for t1 t2 x k k'
      using P(5) that unfolding owners_ok_def by blast
    show ?thesis
      using t by (auto simp: owners_ok_def D nth_append nth_list_update split: if_splits dest: lt un)
  qed
  have C: "caller_ok ?s' (cr_callers s ! t')" if "t' < length (cr_callers s)" for t'
  proof (rule caller_ok_frame [OF P(6) [OF that]])
    fix x k assume l: "cr_callers s ! t' = Leading x k"
    with P(6) [OF that] have x: "x < length (cl_heap ?c)" "\<not> co_done (cl_heap ?c ! x)" "cached ?c k x \<or> stale s x" by auto
    have "stale ?s' x" if "stale s x" by (rule stale_mono [OF that]) (insert now x D, simp_all add: nth_append)
    moreover have "cached c' k x \<or> stale ?s' x" if c: "cached ?c k x"
    proof (cases "k = key")
      case True
      with c i have "gm_get (cl_shards ?c ! i) key = Some x" by (auto simp: cached_def)
      from time_Sub_gt [OF P(1) D(3) [OF this]] now x show ?thesis by (simp add: stale_def D(2) nth_append)
    next
      case False
      from c obtain j where j: "j < length (cl_shards ?c)" "coalescer_shardFor ?c k = Some j" "gm_get (cl_shards ?c ! j) k = Some x"
        by (auto simp: cached_def)
      with False have "cached c' k x" by (cases "j = i") (auto simp: cached_def D(2))
      then show ?thesis ..
    qed
    ultimately show "\<not> co_done (cl_heap (cr_c ?s') ! x) \<and> (cached (cr_c ?s') k x \<or> stale ?s' x)"
      using x by (auto simp: D nth_append)
  qed (simp_all add: D nth_append)
  have "caller_ok ?s' (Leading e key)" using il i by (auto simp: D cached_def nth_append)
  then show ?thesis using P(1,2) E M O callers_update [OF _ C, of "Leading e key" t] by (simp add: co_inv_def D)
qed
text \<open>Steps that leave the coalescer alone: a caller that owns nothing moves to a state that owns
  nothing, and the clock may advance.\<close>

lemma co_inv_quiet:
  assumes inv: "co_inv s" and p: "\<And>x k. \<not> owns p x k" and old: "\<And>x k. t < length (cr_callers s) \<Longrightarrow> \<not> owns (cr_callers s ! t) x k"
    and ok: "caller_ok (s\<lparr>cr_callers := (cr_callers s)[t := p], cr_clock := now\<rparr>) p" and now: "cr_clock s \<le> now"
  shows "co_inv (s\<lparr>cr_callers := (cr_callers s)[t := p], cr_clock := now\<rparr>)" (is "co_inv ?s'")
proof -
  note P = inv_parts [OF inv]
  have "entries_ok ?s'" using P(3) now by (force simp: entries_ok_def Let_def)
  moreover have "maps_ok ?s'"
    unfolding maps_ok_def
  proof (intro allI impI, goal_cases)
    case (1 j k x)
    with P(4) have m: "coalescer_shardFor (cr_c s) k = Some j" "x < length (cl_heap (cr_c s))" "co_key (cl_heap (cr_c s) ! x) = k"
      "\<exists>t' < length (cr_callers s). owns (cr_callers s ! t') x k" unfolding maps_ok_def by auto
    from m(4) obtain t' where t': "t' < length (cr_callers s)" "owns (cr_callers s ! t') x k" by blast
    then have "t' \<noteq> t" using old by auto
    with t' have "owns ((cr_callers s)[t := p] ! t') x k" by simp
    with t' m show ?case by auto
  qed
  moreover have "owners_ok (s\<lparr>cr_c := cr_c s, cr_callers := (cr_callers s)[t := p], cr_clock := now, cr_calls := cr_calls s\<rparr>)"
    by (rule owners_update [OF P(5)]) (simp_all add: p)
  moreover have "caller_ok ?s' (cr_callers s ! t')" if "t' < length (cr_callers s)" for t'
  proof (rule caller_ok_frame [OF P(6) [OF that]])
    fix x k assume "cr_callers s ! t' = Leading x k"
    with P(6) [OF that] now show "\<not> co_done (cl_heap (cr_c ?s') ! x) \<and> (cached (cr_c ?s') k x \<or> stale ?s' x)"
      by (auto simp: stale_def)
  qed simp_all
  ultimately show ?thesis using P(1,2) callers_update [OF ok, of "cr_callers s" t] by (simp add: co_inv_def)
qed

lemma co_inv_publish:
  assumes inv: "co_inv s" and t: "t < length (cr_callers s)" "cr_callers s ! t = Leading e key"
  shows "co_inv (s\<lparr>cr_c := Do_publish (cr_c s) e r, cr_callers := (cr_callers s)[t := Published e key r],
                   cr_calls := (e, key, r) # cr_calls s\<rparr>)" (is "co_inv ?s'")
proof -
  note P = inv_parts [OF inv]
  from P(6) [OF t(1)] t(2) have e: "e < length (cl_heap (cr_c s))" by simp
  have key: "co_key (cl_heap (cr_c s) ! e) = key" and un: "\<And>t' k. t' < length (cr_callers s) \<Longrightarrow> owns (cr_callers s ! t') e k \<Longrightarrow> t' = t"
    using P(5) t unfolding owners_ok_def by (auto; metis owns_simps(2))+
  have "entries_ok ?s'"
    unfolding entries_ok_def
  proof (intro allI impI, goal_cases)
    case (1 x)
    then show ?case using P(3) e key by (cases "x = e") (auto simp: entries_ok_def Let_def Do_publish_def)
  qed
  moreover have "maps_ok ?s'"
    unfolding maps_ok_def
  proof (intro allI impI, goal_cases)
    case (1 j k x)
    with P(4) have m: "coalescer_shardFor (cr_c s) k = Some j" "x < length (cl_heap (cr_c s))" "co_key (cl_heap (cr_c s) ! x) = k"
      "\<exists>t' < length (cr_callers s). owns (cr_callers s ! t') x k" unfolding maps_ok_def by (auto simp: Do_publish_def)
    from owner_update [OF m(4), of t "Published e key r"] t m(1-3) show ?case
      by (cases "x = e") (simp_all add: Do_publish_def)
  qed
  moreover have "owners_ok (s\<lparr>cr_c := Do_publish (cr_c s) e r, cr_callers := (cr_callers s)[t := Published e key r],
      cr_clock := cr_clock s, cr_calls := (e, key, r) # cr_calls s\<rparr>)"
    by (rule owners_update [OF P(5)]) (insert t, simp_all add: Do_publish_def nth_modify)
  moreover have "caller_ok ?s' (cr_callers s ! t')" if t': "t' < length (cr_callers s)" "t' \<noteq> t" for t'
  proof (rule caller_ok_frame [OF P(6) [OF t'(1)]])
    fix x k assume l: "cr_callers s ! t' = Leading x k"
    have "x \<noteq> e" using un [OF t'(1), of k] l t'(2) by auto
    with P(6) [OF t'(1)] l show "\<not> co_done (cl_heap (cr_c ?s') ! x) \<and> (cached (cr_c ?s') k x \<or> stale ?s' x)"
      by (auto simp: stale_def cached_def Do_publish_def)
  qed (auto simp: Do_publish_def nth_modify)
  ultimately show ?thesis
    using P(1,2) callers_update [of ?s' "Published e key r" "cr_callers s" t] by (simp add: co_inv_def Do_publish_def)
qed

lemma co_inv_leave:
  assumes inv: "co_inv s" and t: "t < length (cr_callers s)" "cr_callers s ! t = Published e key r"
    and i: "coalescer_shardFor (cr_c s) key = Some i"
  shows "co_inv (s\<lparr>cr_c := Do_leave (cr_c s) i key e, cr_callers := (cr_callers s)[t := Led e key r]\<rparr>)" (is "co_inv ?s'")
proof -
  note P = inv_parts [OF inv]
  have il: "i < length (cl_shards (cr_c s))" by (rule co_shardFor_bound [OF i P(2)])
  have un: "\<And>t' k. t' < length (cr_callers s) \<Longrightarrow> owns (cr_callers s ! t') e k \<Longrightarrow> t' = t"
    using P(5) t unfolding owners_ok_def by (metis owns_simps(3))
  have heap: "cl_heap (Do_leave (cr_c s) i key e) = cl_heap (cr_c s)" and ttl: "cl_ttl (Do_leave (cr_c s) i key e) = cl_ttl (cr_c s)"
    and len: "length (cl_shards (Do_leave (cr_c s) i key e)) = length (cl_shards (cr_c s))"
    and sf: "coalescer_shardFor (Do_leave (cr_c s) i key e) k = coalescer_shardFor (cr_c s) k" for k
    by (simp_all add: Do_leave_def)
  have get: "gm_get (cl_shards (Do_leave (cr_c s) i key e) ! j) k = Some x \<longleftrightarrow>
      gm_get (cl_shards (cr_c s) ! j) k = Some x \<and> (j = i \<and> k = key \<longrightarrow> x \<noteq> e)" if "j < length (cl_shards (cr_c s))" for j k x
    using that by (cases "j = i") (auto simp: Do_leave_def)
  have "entries_ok ?s'" using P(3) by (simp add: entries_ok_def heap)
  moreover have "maps_ok ?s'"
    unfolding maps_ok_def
  proof (intro allI impI, goal_cases)
    case (1 j k x)
    then have j: "j < length (cl_shards (cr_c s))" by (simp add: len)
    with 1 have g: "gm_get (cl_shards (cr_c s) ! j) k = Some x" "j = i \<and> k = key \<longrightarrow> x \<noteq> e" using get by auto
    with P(4) j have m: "coalescer_shardFor (cr_c s) k = Some j" "x < length (cl_heap (cr_c s))" "co_key (cl_heap (cr_c s) ! x) = k"
      "\<exists>t' < length (cr_callers s). owns (cr_callers s ! t') x k" unfolding maps_ok_def by blast+
    have "\<not> owns (cr_callers s ! t) x k" using g(2) m(1) i t(2) by auto
    then have "\<exists>t' < length (cr_callers s). owns ((cr_callers s)[t := Led e key r] ! t') x k"
      by (intro owner_update [OF m(4)]) simp
    with m show ?case by (simp add: heap sf)
  qed
  moreover have "owners_ok (s\<lparr>cr_c := Do_leave (cr_c s) i key e, cr_callers := (cr_callers s)[t := Led e key r],
      cr_clock := cr_clock s, cr_calls := cr_calls s\<rparr>)"
    by (rule owners_update [OF P(5)]) (simp_all add: heap)
  moreover have "caller_ok ?s' (cr_callers s ! t')" if t': "t' < length (cr_callers s)" "t' \<noteq> t" for t'
  proof (rule caller_ok_frame [OF P(6) [OF t'(1)]])
    fix x k assume l: "cr_callers s ! t' = Leading x k"
    have "x \<noteq> e" using un [OF t'(1), of k] l t'(2) by auto
    then have "cached (cr_c s) k x \<Longrightarrow> cached (Do_leave (cr_c s) i key e) k x" by (auto simp: cached_def len sf get)
    with P(6) [OF t'(1)] l show "\<not> co_done (cl_heap (cr_c ?s') ! x) \<and> (cached (cr_c ?s') k x \<or> stale ?s' x)"
      by (auto simp: stale_def heap ttl)
  qed (simp_all add: heap ttl)
  moreover have "caller_ok ?s' (Led e key r)" using P(6) [OF t(1)] t(2) by simp
  ultimately show ?thesis
    using P(1,2) callers_update [of ?s' "Led e key r" "cr_callers s" t] len by (auto simp: co_inv_def ttl)
qed

lemma co_inv_step: "co_step s s' \<Longrightarrow> co_inv s \<Longrightarrow> co_inv s'"
proof (induction rule: co_step.induct)
  case (enter_lead t s key i now created e c')
  then show ?case by (intro co_inv_enter_lead)
next
  case (enter_follow t s key i now created e c')
  note P = inv_parts [OF enter_follow(6)] and D = Do_enter_follow [OF enter_follow(5)]
  have "i < length (cl_shards (cr_c s))" by (rule co_shardFor_bound [OF enter_follow(3) P(2)])
  with P(4) D(2) have "e < length (cl_heap (cr_c s))" "co_key (cl_heap (cr_c s) ! e) = key" unfolding maps_ok_def by blast+
  then show ?case using enter_follow(1,2,4) D co_inv_quiet [OF enter_follow(6), of "Waiting e key now" t now] by simp
next
  case (publish t s e key r)
  then show ?case by (intro co_inv_publish)
next
  case (leave t s e key r i)
  then show ?case by (intro co_inv_leave)
next
  case (wake t s e key arrived)
  note P = inv_parts [OF wake(4)]
  from P(6) [OF wake(1)] wake(2) have w: "e < length (cl_heap (cr_c s))" "co_key (cl_heap (cr_c s) ! e) = key"
    "time_Sub arrived (co_created (cl_heap (cr_c s) ! e)) \<le> cl_ttl (cr_c s)" by auto
  with P(3) wake(3) have "(e, key, co_result (cl_heap (cr_c s) ! e)) \<in> set (cr_calls s)" by (auto simp: entries_ok_def Let_def)
  with w wake(1,2) co_inv_quiet [OF wake(4), of "Shared e key arrived (co_result (cl_heap (cr_c s) ! e))" t "cr_clock s"]
  show ?case by simp
next
  case (cancel t s e key arrived)
  then show ?case using co_inv_quiet [OF cancel(3), of "Gave_up key" t "cr_clock s"] by simp
next
  case (tick s now)
  then show ?case using co_inv_quiet [OF tick(2), of "Gave_up []" "length (cr_callers s)" now] by (simp add: list_update_beyond)
qed

lemma co_inv_start: "co_inv (co_start shards ttl keys now)"
  by (auto simp: co_inv_def co_start_def NewCoalescer_def Let_def entries_ok_def maps_ok_def owners_ok_def Millisecond_def)

lemma co_inv_reachable: "co_step\<^sup>*\<^sup>* (co_start shards ttl keys now) s \<Longrightarrow> co_inv s"
  by (induction rule: rtranclp_induct) (auto simp: co_inv_start co_inv_step)
section \<open>Properties\<close>

text \<open>C29. A caller that shares a result gets exactly what an execution of the callback for the same key returned,
  and it arrived within the time to live of that execution's entry.\<close>

theorem coalescer_shares_result:
  assumes "co_step\<^sup>*\<^sup>* (co_start shards ttl keys now) s" "t < length (cr_callers s)" "cr_callers s ! t = Shared e key a r"
  shows "(e, key, r) \<in> set (cr_calls s) \<and> time_Sub a (co_created (cl_heap (cr_c s) ! e)) \<le> cl_ttl (cr_c s)"
  using inv_parts(6) [OF co_inv_reachable [OF assms(1)] assms(2)] assms(3) by simp

text \<open>C28. Of the executions under way for one key at most one is younger than the time to live, and the coalescer
  does not leak: when no call is executing or about to leave, every shard's map is empty.\<close>

theorem coalescer_one_young_leader:
  assumes "co_step\<^sup>*\<^sup>* (co_start shards ttl keys now) s"
  shows "(\<forall>t < length (cr_callers s). \<forall>t' < length (cr_callers s). \<forall>e e' k. t \<noteq> t' \<longrightarrow> cr_callers s ! t = Leading e k \<longrightarrow>
      cr_callers s ! t' = Leading e' k \<longrightarrow> stale s e \<or> stale s e')
    \<and> ((\<forall>t < length (cr_callers s). \<forall>e k. \<not> owns (cr_callers s ! t) e k) \<longrightarrow> (\<forall>m \<in> set (cl_shards (cr_c s)). m = []))"
proof (intro conjI allI impI ballI)
  note inv = co_inv_reachable [OF assms] and P = inv_parts [OF co_inv_reachable [OF assms]]
  fix t t' e e' k
  assume t: "t < length (cr_callers s)" "t' < length (cr_callers s)" "t \<noteq> t'" "cr_callers s ! t = Leading e k" "cr_callers s ! t' = Leading e' k"
  have "e \<noteq> e'" using P(5) t unfolding owners_ok_def by (metis owns_simps(2))
  moreover have "cached (cr_c s) k e \<or> stale s e" "cached (cr_c s) k e' \<or> stale s e'" using P(6) t by fastforce+
  ultimately show "stale s e \<or> stale s e'" by (auto simp: cached_def)
next
  note P = inv_parts [OF co_inv_reachable [OF assms]]
  fix m assume none: "\<forall>t < length (cr_callers s). \<forall>e k. \<not> owns (cr_callers s ! t) e k" and "m \<in> set (cl_shards (cr_c s))"
  then obtain i where i: "i < length (cl_shards (cr_c s))" "m = cl_shards (cr_c s) ! i" by (metis in_set_conv_nth)
  have "gm_get m k = None" for k using P(4) none i unfolding maps_ok_def by (metis not_Some_eq)
  then show "m = []" by (cases m) (auto split: if_splits dest: spec, metis option.distinct(1))
qed

text \<open>A run of two callers with the same key: one leads, the other joins five nanoseconds later.\<close>

definition sample_outcome :: outcome where
  "sample_outcome = (None, Some (ErrorString ''store down''))"

definition sample_co :: "nat \<Rightarrow> co_run" where
  "sample_co n =
     (let s0 = co_start 1 10 [''k'', ''k''] 0;
          s1 = s0\<lparr>cr_c := snd (Do_enter 0 0 (cr_c s0) 0 ''k''), cr_callers := [Leading 0 ''k'', Before ''k''], cr_clock := 0\<rparr>;
          s2 = s1\<lparr>cr_callers := [Leading 0 ''k'', Waiting 0 ''k'' 5], cr_clock := 5\<rparr>;
          s3 = s2\<lparr>cr_c := Do_publish (cr_c s2) 0 sample_outcome, cr_callers := [Published 0 ''k'' sample_outcome, Waiting 0 ''k'' 5],
                  cr_calls := [(0, ''k'', sample_outcome)]\<rparr>;
          s4 = s3\<lparr>cr_callers := [Published 0 ''k'' sample_outcome, Shared 0 ''k'' 5 sample_outcome]\<rparr>;
          s5 = s4\<lparr>cr_c := Do_leave (cr_c s4) 0 ''k'' 0, cr_callers := [Led 0 ''k'' sample_outcome, Shared 0 ''k'' 5 sample_outcome]\<rparr>
      in [s0, s1, s2, s3, s4, s5] ! n)"

lemmas sample_co_eval = sample_co_def co_start_def NewCoalescer_def Let_def Do_enter_def Do_publish_def Do_leave_def coalescer_shardFor_def
  coalescerShardIndex_def time_Sub_def min_int64_def max_int64_def modify_def Millisecond_def

lemma sample_co_steps:
  "co_step (sample_co 0) (sample_co 1)" "co_step (sample_co 1) (sample_co 2)"
  "co_step (sample_co 2) (sample_co 3)" "co_step (sample_co 3) (sample_co 4)" "co_step (sample_co 4) (sample_co 5)"
proof -
  show "co_step (sample_co 0) (sample_co 1)"
    using enter_lead [of 0 "sample_co 0" "''k''" 0 0 0 0 "cr_c (sample_co 1)"] by (simp add: sample_co_eval)
  show "co_step (sample_co 1) (sample_co 2)"
    using enter_follow [of 1 "sample_co 1" "''k''" 0 5 5 0 "cr_c (sample_co 2)"] by (simp add: sample_co_eval)
  show "co_step (sample_co 2) (sample_co 3)"
    using publish [of 0 "sample_co 2" 0 "''k''" sample_outcome] by (simp add: sample_co_eval)
  show "co_step (sample_co 3) (sample_co 4)"
    using wake [of 1 "sample_co 3" 0 "''k''" 5] by (simp add: sample_co_eval numeral_eq_Suc)
  show "co_step (sample_co 4) (sample_co 5)"
    using leave [of 0 "sample_co 4" 0 "''k''" sample_outcome 0] by (simp add: sample_co_eval numeral_eq_Suc)
qed

lemma sample_co_reachable:
  "co_step\<^sup>*\<^sup>* (co_start 1 10 [''k'', ''k''] 0) (sample_co 4)" "co_step\<^sup>*\<^sup>* (co_start 1 10 [''k'', ''k''] 0) (sample_co 5)"
proof -
  have "sample_co 0 = co_start 1 10 [''k'', ''k''] 0" by (simp add: sample_co_def Let_def)
  with sample_co_steps(1-4) show r: "co_step\<^sup>*\<^sup>* (co_start 1 10 [''k'', ''k''] 0) (sample_co 4)"
    by (metis converse_rtranclp_into_rtranclp rtranclp.rtrancl_refl)
  from rtranclp.rtrancl_into_rtrancl [OF r sample_co_steps(5)]
  show "co_step\<^sup>*\<^sup>* (co_start 1 10 [''k'', ''k''] 0) (sample_co 5)" .
qed

theorem coalescer_shares_result_witness:
  "(0, ''k'', sample_outcome) \<in> set (cr_calls (sample_co 4))
   \<and> time_Sub 5 (co_created (cl_heap (cr_c (sample_co 4)) ! 0)) \<le> cl_ttl (cr_c (sample_co 4))"
  by (rule coalescer_shares_result [OF sample_co_reachable(1), of 1]) (simp_all add: sample_co_def co_start_def Let_def numeral_eq_Suc)

theorem coalescer_one_young_leader_witness:
  "length (cr_callers (sample_co 5)) = 2 \<and> set (cl_shards (cr_c (sample_co 5))) \<subseteq> {[]}"
proof -
  have "cr_callers (sample_co 5) = [Led 0 ''k'' sample_outcome, Shared 0 ''k'' 5 sample_outcome]"
    by (simp add: sample_co_def Let_def numeral_eq_Suc)
  with coalescer_one_young_leader [OF sample_co_reachable(2)] show ?thesis by (auto simp: less_Suc_eq)
qed

end
