(* ===== verification/Batch.thy ===== *)
theory Batch
  imports Core_Models "HOL-Library.Multiset"
begin

text \<open>
  \<^verbatim>\<open>core/batchplanner.go\<close>: a batch is split into groups of requests with the same tenant and resource, in
  slices taken from three pools. A slice that may be nil is an option. A pooled slice is empty and
  owned by the pool, so its backing array is not shared with a plan that is in use; which pooled
  slice \<^verbatim>\<open>sync.Pool\<close> returns, if any, is the argument \<open>pick\<close>. The main fact is that the loop with its
  index map computes a simple reference grouping, whatever the pools held.
\<close>

section \<open>Pools\<close>

type_synonym 'a slice = "'a list option"

record 'a slice_pool = sp_pool :: "'a list list"

definition pool_get :: "'a slice_pool option \<Rightarrow> nat option \<Rightarrow> 'a slice \<times> 'a slice_pool option" where
  "pool_get p pick =
     (case p of
        None \<Rightarrow> (None, None)
      | Some p \<Rightarrow>
          (case take_nth pick (sp_pool p) of
             (Some value, rest) \<Rightarrow> (Some (take 0 value), Some (p\<lparr>sp_pool := rest\<rparr>))
           | (None, rest) \<Rightarrow> (None, Some (p\<lparr>sp_pool := rest\<rparr>))))"

definition pool_put :: "'a slice_pool option \<Rightarrow> 'a slice \<Rightarrow> 'a slice_pool option" where
  "pool_put p s =
     (case (p, s) of
        (Some p, Some s) \<Rightarrow> Some (p\<lparr>sp_pool := take 0 s # sp_pool p\<rparr>)
      | _ \<Rightarrow> p)"

type_synonym IndexPool = "nat slice_pool"
type_synonym KeyPool = "ByteSlice option slice_pool"
type_synonym CostPool = "int64 slice_pool"

definition NewIndexPool :: IndexPool where "NewIndexPool = \<lparr>sp_pool = []\<rparr>"
definition NewKeyPool :: KeyPool where "NewKeyPool = \<lparr>sp_pool = []\<rparr>"
definition NewCostPool :: CostPool where "NewCostPool = \<lparr>sp_pool = []\<rparr>"

definition IndexPool_Get :: "IndexPool option \<Rightarrow> nat option \<Rightarrow> nat slice \<times> IndexPool option" where
  "IndexPool_Get p pick = pool_get p pick"
definition IndexPool_Put :: "IndexPool option \<Rightarrow> nat slice \<Rightarrow> IndexPool option" where
  "IndexPool_Put p indexes = pool_put p indexes"
definition KeyPool_Get :: "KeyPool option \<Rightarrow> nat option \<Rightarrow> ByteSlice option slice \<times> KeyPool option" where
  "KeyPool_Get p pick = pool_get p pick"
definition KeyPool_Put :: "KeyPool option \<Rightarrow> ByteSlice option slice \<Rightarrow> KeyPool option" where
  "KeyPool_Put p ks = pool_put p ks"
definition CostPool_Get :: "CostPool option \<Rightarrow> nat option \<Rightarrow> int64 slice \<times> CostPool option" where
  "CostPool_Get p pick = pool_get p pick"
definition CostPool_Put :: "CostPool option \<Rightarrow> int64 slice \<Rightarrow> CostPool option" where
  "CostPool_Put p costs = pool_put p costs"

section \<open>The planner\<close>

record BatchPlanner =
  bp_indexPool :: "IndexPool option"
  bp_keyPool :: "KeyPool option"
  bp_costPool :: "CostPool option"

record BatchGroup =
  bg_TenantID :: string
  bg_Resource :: string
  bg_Indexes :: "nat slice"
  bg_Keys :: "ByteSlice option slice"
  bg_Costs :: "int64 slice"

record BatchPlan = pl_Groups :: "BatchGroup list"

definition or_new :: "'a \<Rightarrow> 'a option \<Rightarrow> 'a option" where
  "or_new new p = (case p of None \<Rightarrow> Some new | Some _ \<Rightarrow> p)"

definition NewBatchPlanner :: "IndexPool option \<Rightarrow> KeyPool option \<Rightarrow> CostPool option \<Rightarrow> BatchPlanner" where
  "NewBatchPlanner indexPool keyPool costPool =
     \<lparr>bp_indexPool = or_new NewIndexPool indexPool, bp_keyPool = or_new NewKeyPool keyPool,
      bp_costPool = or_new NewCostPool costPool\<rparr>"

definition newBatchPlanner :: BatchPlanner where
  "newBatchPlanner = \<lparr>bp_indexPool = Some NewIndexPool, bp_keyPool = Some NewKeyPool, bp_costPool = Some NewCostPool\<rparr>"

definition slice_append :: "'a slice \<Rightarrow> 'a \<Rightarrow> 'a slice" where
  "slice_append s x = Some ((case s of None \<Rightarrow> [] | Some xs \<Rightarrow> xs) @ [x])"

text \<open>A new group, with the slices the pools give for the picks of request \<open>i\<close>.\<close>

definition new_group :: "(nat option \<times> nat option \<times> nat option) \<Rightarrow> BatchPlanner \<Rightarrow> CheckLimitRequest \<Rightarrow> BatchGroup \<times> BatchPlanner" where
  "new_group picks bp req =
     (let (ip, kp, cp) = picks;
          (indexes, indexPool) = IndexPool_Get (bp_indexPool bp) ip;
          (ks, keyPool) = KeyPool_Get (bp_keyPool bp) kp;
          (costs, costPool) = CostPool_Get (bp_costPool bp) cp
      in (\<lparr>bg_TenantID = cr_TenantID req, bg_Resource = cr_Resource req, bg_Indexes = indexes, bg_Keys = ks, bg_Costs = costs\<rparr>,
          \<lparr>bp_indexPool = indexPool, bp_keyPool = keyPool, bp_costPool = costPool\<rparr>))"

definition group_add :: "nat \<Rightarrow> CheckLimitRequest \<Rightarrow> BatchGroup \<Rightarrow> BatchGroup" where
  "group_add i req g = g\<lparr>bg_Indexes := slice_append (bg_Indexes g) i, bg_Keys := slice_append (bg_Keys g) None,
     bg_Costs := slice_append (bg_Costs g) (cr_Cost req)\<rparr>"

type_synonym plan_state = "BatchPlanner \<times> (string, nat) gomap \<times> BatchGroup list"

definition plan_one :: "(nat \<Rightarrow> nat option \<times> nat option \<times> nat option) \<Rightarrow> nat \<Rightarrow> CheckLimitRequest option \<Rightarrow> plan_state \<Rightarrow> plan_state" where
  "plan_one picks i req_ptr = (\<lambda>(bp, groupIndex, groups).
     case req_ptr of
       None \<Rightarrow> (bp, groupIndex, groups)
     | Some req \<Rightarrow>
         let key = limiterPoolKey (cr_TenantID req) (cr_Resource req);
             (idx, bp1, groupIndex1, groups1) =
               (case gm_get groupIndex key of
                  Some idx \<Rightarrow> (idx, bp, groupIndex, groups)
                | None \<Rightarrow>
                    let idx = length groups; (g, bp1) = new_group (picks i) bp req
                    in (idx, bp1, gm_put key idx groupIndex, groups @ [g]))
         in (bp1, groupIndex1, modify idx (group_add i req) groups1))"

fun plan_loop :: "(nat \<Rightarrow> nat option \<times> nat option \<times> nat option) \<Rightarrow> nat \<Rightarrow> CheckLimitRequest option list \<Rightarrow> plan_state \<Rightarrow> plan_state" where
  "plan_loop picks i [] st = st"
| "plan_loop picks i (req # reqs) st = plan_loop picks (Suc i) reqs (plan_one picks i req st)"

definition Plan :: "(nat \<Rightarrow> nat option \<times> nat option \<times> nat option) \<Rightarrow> BatchPlanner option \<Rightarrow> CheckLimitRequest option list
      \<Rightarrow> BatchPlan \<times> BatchPlanner option" where
  "Plan picks bp_ptr reqs =
     (case bp_ptr of
        None \<Rightarrow> (\<lparr>pl_Groups = []\<rparr>, None)
      | Some bp \<Rightarrow>
          if length reqs = 0 then (\<lparr>pl_Groups = []\<rparr>, Some bp)
          else
            let bp1 = \<lparr>bp_indexPool = or_new NewIndexPool (bp_indexPool bp), bp_keyPool = or_new NewKeyPool (bp_keyPool bp),
                       bp_costPool = or_new NewCostPool (bp_costPool bp)\<rparr>;
                (bp2, groupIndex, groups) = plan_loop picks 0 reqs (bp1, [], [])
            in (\<lparr>pl_Groups = groups\<rparr>, Some bp2))"

text \<open>\<^verbatim>\<open>Release\<close> gives the slices of every group back and empties the plan.\<close>

definition release_group :: "BatchGroup \<Rightarrow> BatchPlanner \<Rightarrow> BatchPlanner" where
  "release_group g bp = bp\<lparr>bp_indexPool := IndexPool_Put (bp_indexPool bp) (bg_Indexes g),
     bp_keyPool := KeyPool_Put (bp_keyPool bp) (bg_Keys g), bp_costPool := CostPool_Put (bp_costPool bp) (bg_Costs g)\<rparr>"

definition Plan_Release :: "BatchPlanner option \<Rightarrow> BatchPlan option \<Rightarrow> BatchPlanner option \<times> BatchPlan option" where
  "Plan_Release bp_ptr plan_ptr =
     (case (bp_ptr, plan_ptr) of
        (Some bp, Some plan) \<Rightarrow> (Some (fold release_group (pl_Groups plan) bp), Some (plan\<lparr>pl_Groups := []\<rparr>))
      | _ \<Rightarrow> (bp_ptr, plan_ptr))"

section \<open>A reference grouping\<close>

type_synonym numbered_reqs = "(nat \<times> CheckLimitRequest) list"

fun numbered :: "nat \<Rightarrow> CheckLimitRequest option list \<Rightarrow> numbered_reqs" where
  "numbered i [] = []"
| "numbered i (None # reqs) = numbered (Suc i) reqs"
| "numbered i (Some req # reqs) = (i, req) # numbered (Suc i) reqs"

definition req_key :: "CheckLimitRequest \<Rightarrow> string" where
  "req_key req = limiterPoolKey (cr_TenantID req) (cr_Resource req)"

text \<open>The keys in order of first appearance, and the group of a key.\<close>

definition firsts :: "'a list \<Rightarrow> 'a list" where
  "firsts xs = rev (remdups (rev xs))"

definition members :: "numbered_reqs \<Rightarrow> string \<Rightarrow> numbered_reqs" where
  "members vs k = filter (\<lambda>(i, req). req_key req = k) vs"

definition ref_group :: "numbered_reqs \<Rightarrow> string \<Rightarrow> BatchGroup" where
  "ref_group vs k =
     \<lparr>bg_TenantID = cr_TenantID (snd (hd (members vs k))), bg_Resource = cr_Resource (snd (hd (members vs k))),
      bg_Indexes = Some (map fst (members vs k)), bg_Keys = Some (map (\<lambda>_. None) (members vs k)),
      bg_Costs = Some (map (cr_Cost \<circ> snd) (members vs k))\<rparr>"

definition ref_keys :: "numbered_reqs \<Rightarrow> string list" where
  "ref_keys vs = firsts (map (req_key \<circ> snd) vs)"

definition ref_groups :: "numbered_reqs \<Rightarrow> BatchGroup list" where
  "ref_groups vs = map (ref_group vs) (ref_keys vs)"

lemma firsts_snoc: "firsts (xs @ [x]) = (if x \<in> set xs then firsts xs else firsts xs @ [x])"
  by (simp add: firsts_def)

lemma firsts_distinct [simp]: "distinct (firsts xs)"
  by (simp add: firsts_def)

lemma firsts_set [simp]: "set (firsts xs) = set xs"
  by (simp add: firsts_def)

lemma firsts_Nil [simp]: "firsts [] = []"
  by (simp add: firsts_def)

lemma members_snoc: "members (vs @ [(i, req)]) k = members vs k @ (if req_key req = k then [(i, req)] else [])"
  by (simp add: members_def)

lemma members_Nil_iff: "members vs k = [] \<longleftrightarrow> k \<notin> set (ref_keys vs)"
  by (force simp: members_def ref_keys_def filter_empty_conv)

lemma ref_keys_snoc:
  "ref_keys (vs @ [(i, req)]) = (if req_key req \<in> set (ref_keys vs) then ref_keys vs else ref_keys vs @ [req_key req])"
  by (simp add: ref_keys_def firsts_snoc image_image)

lemma ref_group_other: "req_key req \<noteq> k \<Longrightarrow> ref_group (vs @ [(i, req)]) k = ref_group vs k"
  by (simp add: ref_group_def members_snoc)

lemma ref_group_same:
  "req_key req \<in> set (ref_keys vs) \<Longrightarrow> ref_group (vs @ [(i, req)]) (req_key req) = group_add i req (ref_group vs (req_key req))"
  using members_Nil_iff [of vs "req_key req"] by (simp add: ref_group_def group_add_def slice_append_def members_snoc)

text \<open>Whatever the pools hold, the slices of a new group are empty.\<close>

lemma pool_get_empty: "fst (pool_get p pick) \<in> {None, Some []}"
  by (auto simp: pool_get_def split: option.splits prod.splits)

lemma new_group_add:
  assumes "new_group picks bp req = (g, bp')"
  shows "group_add i req g = \<lparr>bg_TenantID = cr_TenantID req, bg_Resource = cr_Resource req, bg_Indexes = Some [i], bg_Keys = Some [None],
    bg_Costs = Some [cr_Cost req]\<rparr>"
proof -
  obtain ip kp cp where p: "picks = (ip, kp, cp)" by (cases picks)
  have "slice_append s x = Some [x]" if "s \<in> {None, Some []}" for s :: "'b slice" and x
    using that by (auto simp: slice_append_def)
  note e = this [OF pool_get_empty]
  show ?thesis using assms
    by (auto simp: new_group_def p Let_def group_add_def IndexPool_Get_def KeyPool_Get_def CostPool_Get_def case_prod_beta e)
qed

definition plan_ok :: "numbered_reqs \<Rightarrow> plan_state \<Rightarrow> bool" where
  "plan_ok vs = (\<lambda>(bp, groupIndex, groups). groups = ref_groups vs
     \<and> (\<forall>k idx. gm_get groupIndex k = Some idx \<longleftrightarrow> idx < length (ref_keys vs) \<and> ref_keys vs ! idx = k))"

lemma plan_one_ok:
  assumes "plan_ok vs (bp, gi, groups)"
  shows "plan_ok (vs @ [(i, req)]) (plan_one picks i (Some req) (bp, gi, groups))"
proof -
  let ?k = "req_key req" and ?vs = "vs @ [(i, req)]"
  from assms have g: "groups = ref_groups vs"
    and ix: "\<And>k idx. gm_get gi k = Some idx \<longleftrightarrow> idx < length (ref_keys vs) \<and> ref_keys vs ! idx = k" by (auto simp: plan_ok_def)
  have dk: "distinct (ref_keys vs)" by (simp add: ref_keys_def)
  show ?thesis
  proof (cases "gm_get gi ?k")
    case (Some idx)
    with ix have idx: "idx < length (ref_keys vs)" "ref_keys vs ! idx = ?k" by auto
    then have mem: "?k \<in> set (ref_keys vs)" by (metis nth_mem)
    have "modify idx (group_add i req) groups = ref_groups ?vs"
    proof (rule nth_equalityI)
      show "length (modify idx (group_add i req) groups) = length (ref_groups ?vs)"
        using mem by (simp add: g ref_groups_def ref_keys_snoc)
    next
      fix j assume "j < length (modify idx (group_add i req) groups)"
      then have j: "j < length (ref_keys vs)" by (simp add: g ref_groups_def)
      show "modify idx (group_add i req) groups ! j = ref_groups ?vs ! j"
      proof (cases "j = idx")
        case True
        with j idx mem show ?thesis by (simp add: g ref_groups_def ref_keys_snoc ref_group_same)
      next
        case False
        then have "ref_keys vs ! j \<noteq> ?k" using idx j dk by (metis nth_eq_iff_index_eq)
        with False j mem show ?thesis by (simp add: g ref_groups_def ref_keys_snoc ref_group_other)
      qed
    qed
    moreover have "plan_one picks i (Some req) (bp, gi, groups) = (bp, gi, modify idx (group_add i req) groups)"
      using Some by (simp add: plan_one_def Let_def req_key_def)
    ultimately show ?thesis using mem ix by (simp add: plan_ok_def ref_keys_snoc)
  next
    case None
    then have new: "?k \<notin> set (ref_keys vs)" using ix by (metis in_set_conv_nth not_Some_eq)
    obtain g' bp' where ng: "new_group (picks i) bp req = (g', bp')" by fastforce
    have m: "members vs ?k = []" using new members_Nil_iff by blast
    have "ref_group ?vs ?k = group_add i req g'"
      using new_group_add [OF ng, of i] by (simp add: ref_group_def members_snoc m)
    moreover have "map (ref_group ?vs) (ref_keys vs) = map (ref_group vs) (ref_keys vs)"
      using new by (auto intro!: ref_group_other)
    ultimately have "groups @ [group_add i req g'] = ref_groups ?vs"
      using new by (simp add: g ref_groups_def ref_keys_snoc)
    moreover have "length groups = length (ref_keys vs)" by (simp add: g ref_groups_def)
    moreover have "(if k = ?k then Some (length (ref_keys vs)) else gm_get gi k) = Some idx \<longleftrightarrow>
        idx < length (ref_keys ?vs) \<and> ref_keys ?vs ! idx = k" for k idx
      using new ix [of k idx] None by (cases "k = ?k") (auto simp: ref_keys_snoc nth_append less_Suc_eq)
    ultimately show ?thesis using None ng by (simp add: plan_one_def plan_ok_def Let_def req_key_def [symmetric])
  qed
qed

lemma plan_loop_ok:
  assumes "plan_ok vs st"
  shows "plan_ok (vs @ numbered i reqs) (plan_loop picks i reqs st)"
  using assms
proof (induction reqs arbitrary: vs i st)
  case (Cons r reqs)
  show ?case
  proof (cases r)
    case None
    with Cons show ?thesis by (simp add: plan_one_def case_prod_beta)
  next
    case (Some req)
    obtain bp gi groups where st: "st = (bp, gi, groups)" by (metis prod_cases3)
    from Cons.IH [OF plan_one_ok [OF Cons.prems [unfolded st], where i = i and req = req and picks = picks], of "Suc i"] Some st
    show ?thesis by simp
  qed
qed simp

lemma ref_plan:
  "pl_Groups (fst (Plan picks (Some bp) reqs)) = ref_groups (numbered 0 reqs)"
proof (cases "reqs = []")
  case True
  then show ?thesis by (simp add: Plan_def ref_groups_def ref_keys_def)
next
  case False
  let ?bp = "\<lparr>bp_indexPool = or_new NewIndexPool (bp_indexPool bp), bp_keyPool = or_new NewKeyPool (bp_keyPool bp),
     bp_costPool = or_new NewCostPool (bp_costPool bp)\<rparr>"
  obtain bp' gi groups where l: "plan_loop picks 0 reqs (?bp, [], []) = (bp', gi, groups)" by (metis prod_cases3)
  have "plan_ok [] (?bp, [], [])" by (simp add: plan_ok_def ref_groups_def ref_keys_def)
  from plan_loop_ok [OF this, of 0 reqs picks] False l show ?thesis by (simp add: Plan_def Let_def plan_ok_def)
qed
text \<open>Whatever its pools hold, the planner computes the reference grouping: one group for each tenant and resource, in
  order of first appearance, listing the positions and costs of its requests in order.\<close>

theorem batch_plan_reference:
  "pl_Groups (fst (Plan picks (Some bp) reqs)) = ref_groups (numbered 0 reqs)"
  by (rule ref_plan)

section \<open>The groups partition the batch\<close>

lemma members_partition:
  "distinct ks \<Longrightarrow> set (map (req_key \<circ> snd) vs) \<subseteq> set ks \<Longrightarrow> mset (concat (map (members vs) ks)) = mset vs"
proof (induction vs)
  case Nil
  show ?case by (induction ks) (auto simp: members_def)
next
  case (Cons v vs)
  have *: "mset (concat (map (members (v # vs)) ks)) =
      mset (concat (map (members vs) ks)) + replicate_mset (count_list ks (req_key (snd v))) v" for ks
    by (induction ks) (auto simp: members_def case_prod_beta)
  have "count_list ks (req_key (snd v)) = 1" 
    using Cons.prems distinct_count_atmost_1 [of ks] by (simp add: count_mset)
  with * [of ks] Cons show ?case by simp
qed

lemma ref_groups_partition: "mset (concat (map (the \<circ> bg_Indexes) (ref_groups vs))) = mset (map fst vs)"
proof -
  have "map (the \<circ> bg_Indexes) (ref_groups vs) = map (map fst \<circ> members vs) (ref_keys vs)"
    by (simp add: ref_groups_def ref_group_def o_def)
  then have "concat (map (the \<circ> bg_Indexes) (ref_groups vs)) = map fst (concat (map (members vs) (ref_keys vs)))"
    by (simp add: map_concat o_def)
  moreover have "mset (concat (map (members vs) (ref_keys vs))) = mset vs"
    by (rule members_partition) (simp_all add: ref_keys_def)
  ultimately show ?thesis by (simp add: mset_map)
qed

lemma numbered_nth: "(j, req) \<in> set (numbered i reqs) \<longleftrightarrow> i \<le> j \<and> j - i < length reqs \<and> reqs ! (j - i) = Some req"
proof (induction i reqs rule: numbered.induct)
  case (2 i reqs)
  then show ?case by (cases "j = i") (auto simp: nth_Cons' Suc_le_eq diff_Suc split: nat.splits)
next
  case (3 i req' reqs)
  then show ?case by (cases "j = i") (auto simp: nth_Cons' Suc_le_eq diff_Suc split: nat.splits)
qed simp

lemma numbered_distinct: "distinct (map fst (numbered i reqs))"
  by (induction i reqs rule: numbered.induct) (auto simp: numbered_nth)

lemma ref_group_members:
  assumes "k \<in> set (ref_keys vs)" "n < length (members vs k)"
  shows "members vs k ! n \<in> set vs \<and> req_key (snd (members vs k ! n)) = k \<and> hd (members vs k) \<in> set vs \<and> req_key (snd (hd (members vs k))) = k"
proof -
  have "members vs k ! n \<in> set (members vs k)" "hd (members vs k) \<in> set (members vs k)"
    using assms by (auto intro: hd_in_set)
  then show ?thesis by (auto simp: members_def)
qed

lemma plan_partition:
  assumes "\<forall>req. Some req \<in> set reqs \<longrightarrow> sep \<notin> set (cr_TenantID req)"
  shows "mset (concat (map (the \<circ> bg_Indexes) (pl_Groups (fst (Plan picks (Some bp) reqs))))) =
      mset (filter (\<lambda>i. reqs ! i \<noteq> None) [0..<length reqs])
    \<and> (\<forall>g \<in> set (pl_Groups (fst (Plan picks (Some bp) reqs))). length (the (bg_Costs g)) = length (the (bg_Indexes g))
        \<and> length (the (bg_Keys g)) = length (the (bg_Indexes g))
        \<and> (\<forall>n < length (the (bg_Indexes g)). \<exists>req. reqs ! (the (bg_Indexes g) ! n) = Some req
             \<and> cr_TenantID req = bg_TenantID g \<and> cr_Resource req = bg_Resource g \<and> the (bg_Costs g) ! n = cr_Cost req))"
proof (intro conjI ballI allI impI, unfold ref_plan)
  let ?vs = "numbered 0 reqs"
  have "set (map fst ?vs) = set (filter (\<lambda>i. reqs ! i \<noteq> None) [0..<length reqs])"
    by (auto simp: numbered_nth) (metis diff_zero fst_conv image_eqI numbered_nth zero_le)
  then have "mset (map fst ?vs) = mset (filter (\<lambda>i. reqs ! i \<noteq> None) [0..<length reqs])"
    by (subst set_eq_iff_mset_eq_distinct [symmetric]) (simp_all add: numbered_distinct)
  then show "mset (concat (map (the \<circ> bg_Indexes) (ref_groups ?vs))) = mset (filter (\<lambda>i. reqs ! i \<noteq> None) [0..<length reqs])"
    by (simp add: ref_groups_partition)
next
  let ?vs = "numbered 0 reqs"
  fix g assume "g \<in> set (ref_groups ?vs)"
  then obtain k where k: "k \<in> set (ref_keys ?vs)" and g: "g = ref_group ?vs k" by (auto simp: ref_groups_def)
  show "length (the (bg_Costs g)) = length (the (bg_Indexes g))" and "length (the (bg_Keys g)) = length (the (bg_Indexes g))"
    by (simp_all add: g ref_group_def)
  fix n assume n: "n < length (the (bg_Indexes g))"
  then have n': "n < length (members ?vs k)" by (simp add: g ref_group_def)
  note m = ref_group_members [OF k n']
  obtain i req where x: "members ?vs k ! n = (i, req)" by fastforce
  obtain j req0 where h: "hd (members ?vs k) = (j, req0)" by fastforce
  from m x h have "Some req \<in> set reqs" "Some req0 \<in> set reqs" "reqs ! i = Some req"
    by (auto simp: numbered_nth) (metis nth_mem)+
  moreover have "req_key req = req_key req0" using m x h by simp
  ultimately have "cr_TenantID req = cr_TenantID req0 \<and> cr_Resource req = cr_Resource req0"
    using assms limiterPoolKey_inj by (metis req_key_def)
  with \<open>reqs ! i = Some req\<close> x h n' show "\<exists>req. reqs ! (the (bg_Indexes g) ! n) = Some req
      \<and> cr_TenantID req = bg_TenantID g \<and> cr_Resource req = bg_Resource g \<and> the (bg_Costs g) ! n = cr_Cost req"
    by (simp add: g ref_group_def)
qed
text \<open>C32. When no tenant contains the separator byte, every request of a batch is planned exactly once, in a group of its own
  tenant and resource, beside its own cost.\<close>

theorem batch_plan_partition:
  assumes "\<forall>req. Some req \<in> set reqs \<longrightarrow> sep \<notin> set (cr_TenantID req)"
  shows "mset (concat (map (the \<circ> bg_Indexes) (pl_Groups (fst (Plan picks (Some bp) reqs))))) =
      mset (filter (\<lambda>i. reqs ! i \<noteq> None) [0..<length reqs])
    \<and> (\<forall>g \<in> set (pl_Groups (fst (Plan picks (Some bp) reqs))). length (the (bg_Costs g)) = length (the (bg_Indexes g))
        \<and> length (the (bg_Keys g)) = length (the (bg_Indexes g))
        \<and> (\<forall>n < length (the (bg_Indexes g)). \<exists>req. reqs ! (the (bg_Indexes g) ! n) = Some req
             \<and> cr_TenantID req = bg_TenantID g \<and> cr_Resource req = bg_Resource g \<and> the (bg_Costs g) ! n = cr_Cost req))"
  by (rule plan_partition [OF assms])

definition sample_req :: "string \<Rightarrow> string \<Rightarrow> int64 \<Rightarrow> CheckLimitRequest" where
  "sample_req t r cost = \<lparr>cr_TraceID = [], cr_TenantID = t, cr_UserID = ''u'', cr_Resource = r, cr_Cost = cost\<rparr>"

definition sample_batch :: "CheckLimitRequest option list" where
  "sample_batch = [Some (sample_req ''t'' ''a'' 1), None, Some (sample_req ''t'' ''b'' 2), Some (sample_req ''t'' ''a'' 3)]"

theorem batch_plan_partition_witness:
  "mset (concat (map (the \<circ> bg_Indexes) (pl_Groups (fst (Plan (\<lambda>_. (None, None, None)) (Some newBatchPlanner) sample_batch))))) =
      mset (filter (\<lambda>i. sample_batch ! i \<noteq> None) [0..<length sample_batch])
    \<and> list_all (\<lambda>g. length (the (bg_Costs g)) = length (the (bg_Indexes g)))
        (pl_Groups (fst (Plan (\<lambda>_. (None, None, None)) (Some newBatchPlanner) sample_batch)))"
proof -
  have "\<forall>req. Some req \<in> set sample_batch \<longrightarrow> sep \<notin> set (cr_TenantID req)" by (auto simp: sample_batch_def sample_req_def sep_def)
  from batch_plan_partition [OF this, of "\<lambda>_. (None, None, None)" newBatchPlanner] show ?thesis by (simp add: list_all_iff)
qed

text \<open>With the separator in the identifiers two tenants can share a group, and the second one is
  checked against the first one's rule.\<close>

lemma batch_plan_collision:
  "map bg_TenantID (pl_Groups (fst (Plan (\<lambda>_. (None, None, None)) (Some newBatchPlanner)
      [Some (sample_req ''t'' [CHR ''a'', sep, CHR ''b''] 1), Some (sample_req [CHR ''t'', sep, CHR ''a''] ''b'' 1)]))) = [''t'']"
  unfolding ref_plan
  by (simp add: ref_groups_def ref_group_def ref_keys_def firsts_def members_def req_key_def sample_req_def limiterPoolKey_def sep_def)

section \<open>Pooled slices carry nothing over\<close>

definition pools_clean :: "BatchPlanner \<Rightarrow> bool" where
  "pools_clean bp \<longleftrightarrow>
     (\<forall>p. bp_indexPool bp = Some p \<longrightarrow> set (sp_pool p) \<subseteq> {[]}) \<and> (\<forall>p. bp_keyPool bp = Some p \<longrightarrow> set (sp_pool p) \<subseteq> {[]})
     \<and> (\<forall>p. bp_costPool bp = Some p \<longrightarrow> set (sp_pool p) \<subseteq> {[]})"

definition clean :: "'a slice_pool option \<Rightarrow> bool" where
  "clean p \<longleftrightarrow> (\<forall>q. p = Some q \<longrightarrow> set (sp_pool q) \<subseteq> {[]})"

lemma pools_clean_iff: "pools_clean bp \<longleftrightarrow> clean (bp_indexPool bp) \<and> clean (bp_keyPool bp) \<and> clean (bp_costPool bp)"
  by (simp add: pools_clean_def clean_def)

lemma clean_put: "clean p \<Longrightarrow> clean (pool_put p s)"
  by (auto simp: clean_def pool_put_def split: option.splits)

lemma take_nth_subset: "take_nth pick xs = (v, rest) \<Longrightarrow> set rest \<subseteq> set xs"
  by (auto simp: take_nth_def split: option.splits if_splits dest: in_set_takeD in_set_dropD)

lemma clean_get: "clean p \<Longrightarrow> clean (snd (pool_get p pick))"
  by (fastforce simp: clean_def pool_get_def split: option.splits prod.splits dest: take_nth_subset)

lemma pools_clean_new: "pools_clean bp \<Longrightarrow> pools_clean (snd (new_group picks bp req))"
  by (cases picks) (simp add: pools_clean_iff new_group_def Let_def case_prod_beta clean_get IndexPool_Get_def KeyPool_Get_def CostPool_Get_def)

lemma pools_clean_plan:
  assumes "pools_clean bp"
  shows "pools_clean (the (snd (Plan picks (Some bp) reqs)))"
proof -
  have one: "pools_clean (fst (plan_one picks i r st))" if "pools_clean (fst st)" for i r st
    using that pools_clean_new [of "fst st" "picks i"]
    by (auto simp: plan_one_def Let_def case_prod_beta split: option.splits)
  have "pools_clean (fst (plan_loop picks i reqs st))" if "pools_clean (fst st)" for i st
    using that by (induction reqs arbitrary: i st) (simp_all add: one)
  moreover have "pools_clean \<lparr>bp_indexPool = or_new NewIndexPool (bp_indexPool bp), bp_keyPool = or_new NewKeyPool (bp_keyPool bp),
     bp_costPool = or_new NewCostPool (bp_costPool bp)\<rparr>"
    using assms by (auto simp: pools_clean_def or_new_def NewIndexPool_def NewKeyPool_def NewCostPool_def split: option.splits)
  ultimately show ?thesis using assms by (fastforce simp: Plan_def Let_def case_prod_beta)
qed

lemma pools_clean_release: "pools_clean bp \<Longrightarrow> pools_clean (the (fst (Plan_Release (Some bp) (Some plan))))"
proof -
  have "pools_clean bp \<Longrightarrow> pools_clean (fold release_group gs bp)" for gs
    by (induction gs arbitrary: bp)
      (simp_all add: pools_clean_iff release_group_def clean_put IndexPool_Put_def KeyPool_Put_def CostPool_Put_def)
  then show "pools_clean bp \<Longrightarrow> pools_clean (the (fst (Plan_Release (Some bp) (Some plan))))" by (simp add: Plan_Release_def)
qed
end
