(* ===== verification/Metrics.thy ===== *)
theory Metrics
  imports Go_Base
begin

text \<open>
  \<^verbatim>\<open>observability/metrics.go\<close>: named counters and latency summaries. Each method is one atomic update of
  each number it touches; the two \<^verbatim>\<open>sync.Map\<close>s are maps, and the compare-and-swap loop for the maximum
  stores the larger value, whatever the interference.
\<close>

record latencySummary =
  ls_count :: int64
  ls_totalNanos :: int64
  ls_maxNanos :: int64

record InMemoryMetrics =
  mt_counters :: "(string, int64) gomap"
  mt_latencies :: "(string, latencySummary) gomap"

definition NewInMemoryMetrics :: InMemoryMetrics where
  "NewInMemoryMetrics = \<lparr>mt_counters = [], mt_latencies = []\<rparr>"

text \<open>\<^verbatim>\<open>getCounter\<close> and \<^verbatim>\<open>getLatency\<close> store a zero value for a key they see for the first time; the empty key
  has none.\<close>

definition getCounter :: "InMemoryMetrics \<Rightarrow> string \<Rightarrow> int64 option \<times> InMemoryMetrics" where
  "getCounter m key =
     (if key = [] then (None, m)
      else case gm_get (mt_counters m) key of
        Some counter \<Rightarrow> (Some counter, m)
      | None \<Rightarrow> (Some 0, m\<lparr>mt_counters := gm_put key 0 (mt_counters m)\<rparr>))"

definition getLatency :: "InMemoryMetrics \<Rightarrow> string \<Rightarrow> latencySummary option \<times> InMemoryMetrics" where
  "getLatency m key =
     (if key = [] then (None, m)
      else case gm_get (mt_latencies m) key of
        Some entry \<Rightarrow> (Some entry, m)
      | None \<Rightarrow>
          let entry = \<lparr>ls_count = 0, ls_totalNanos = 0, ls_maxNanos = 0\<rparr>
          in (Some entry, m\<lparr>mt_latencies := gm_put key entry (mt_latencies m)\<rparr>))"

definition incCounter :: "InMemoryMetrics \<Rightarrow> string \<Rightarrow> InMemoryMetrics" where
  "incCounter m key =
     (case getCounter m key of
        (None, m1) \<Rightarrow> m1
      | (Some counter, m1) \<Rightarrow> m1\<lparr>mt_counters := gm_put key (wrap64 (counter + 1)) (mt_counters m1)\<rparr>)"

definition bars :: "string list \<Rightarrow> string" where
  "bars parts = concat (map (\<lambda>p. CHR ''|'' # p) parts)"

definition IncCheck :: "InMemoryMetrics option \<Rightarrow> string \<Rightarrow> string \<Rightarrow> string \<Rightarrow> InMemoryMetrics option" where
  "IncCheck m result algorithm region = map_option (\<lambda>m. incCounter m (''check'' @ bars [result, algorithm, region])) m"

definition IncFallback :: "InMemoryMetrics option \<Rightarrow> string \<Rightarrow> string \<Rightarrow> InMemoryMetrics option" where
  "IncFallback m reason region = map_option (\<lambda>m. incCounter m (''fallback'' @ bars [reason, region])) m"

definition IncRedisError :: "InMemoryMetrics option \<Rightarrow> string \<Rightarrow> string \<Rightarrow> InMemoryMetrics option" where
  "IncRedisError m op region = map_option (\<lambda>m. incCounter m (''redis_error'' @ bars [op, region])) m"

definition IncBatchItemError :: "InMemoryMetrics option \<Rightarrow> string \<Rightarrow> string \<Rightarrow> InMemoryMetrics option" where
  "IncBatchItemError m code region = map_option (\<lambda>m. incCounter m (''batch_error'' @ bars [code, region])) m"

definition IncCounter :: "InMemoryMetrics option \<Rightarrow> string \<Rightarrow> InMemoryMetrics option" where
  "IncCounter m key = map_option (\<lambda>m. incCounter m key) m"

definition ObserveLatency :: "InMemoryMetrics option \<Rightarrow> string \<Rightarrow> duration \<Rightarrow> string \<Rightarrow> InMemoryMetrics option" where
  "ObserveLatency m op d region =
     (case m of
        None \<Rightarrow> None
      | Some m \<Rightarrow>
          let key = ''latency'' @ bars [op, region] in
          (case getLatency m key of
             (None, m1) \<Rightarrow> Some m1
           | (Some entry, m1) \<Rightarrow>
               Some (m1\<lparr>mt_latencies := gm_put key
                 \<lparr>ls_count = wrap64 (ls_count entry + 1), ls_totalNanos = wrap64 (ls_totalNanos entry + d),
                  ls_maxNanos = (if d \<le> ls_maxNanos entry then ls_maxNanos entry else d)\<rparr> (mt_latencies m1)\<rparr>)))"

text \<open>\<^verbatim>\<open>Snapshot\<close>: the two sections of the result; a nil recorder exports neither.\<close>

record metrics_snapshot =
  sn_counters :: "(string, int64) gomap"
  sn_latencies :: "(string, (string, int64) gomap) gomap"

definition Snapshot :: "InMemoryMetrics option \<Rightarrow> metrics_snapshot option" where
  "Snapshot m =
     (case m of
        None \<Rightarrow> None
      | Some m \<Rightarrow> Some \<lparr>sn_counters = map (\<lambda>(k, counter). (k, counter)) (mt_counters m),
          sn_latencies = map (\<lambda>(k, entry). (k, [(''count'', ls_count entry), (''totalNanos'', ls_totalNanos entry),
                                                  (''maxNanos'', ls_maxNanos entry)])) (mt_latencies m)\<rparr>)"

section \<open>What is counted\<close>

datatype metric_call =
    CallCheck string string string
  | CallFallback string string
  | CallRedisError string string
  | CallBatchItemError string string
  | CallCounter string
  | CallLatency string duration string

fun metric_step :: "InMemoryMetrics option \<Rightarrow> metric_call \<Rightarrow> InMemoryMetrics option" where
  "metric_step m (CallCheck result algorithm region) = IncCheck m result algorithm region"
| "metric_step m (CallFallback reason region) = IncFallback m reason region"
| "metric_step m (CallRedisError op region) = IncRedisError m op region"
| "metric_step m (CallBatchItemError code region) = IncBatchItemError m code region"
| "metric_step m (CallCounter key) = IncCounter m key"
| "metric_step m (CallLatency op d region) = ObserveLatency m op d region"

text \<open>The counter a call increments, and the duration it adds to a summary.\<close>

fun counts :: "string \<Rightarrow> metric_call \<Rightarrow> bool" where
  "counts k (CallCheck result algorithm region) \<longleftrightarrow> k = ''check'' @ bars [result, algorithm, region]"
| "counts k (CallFallback reason region) \<longleftrightarrow> k = ''fallback'' @ bars [reason, region]"
| "counts k (CallRedisError op region) \<longleftrightarrow> k = ''redis_error'' @ bars [op, region]"
| "counts k (CallBatchItemError code region) \<longleftrightarrow> k = ''batch_error'' @ bars [code, region]"
| "counts k (CallCounter key) \<longleftrightarrow> k = key \<and> key \<noteq> []"
| "counts k (CallLatency op d region) \<longleftrightarrow> False"

fun observed :: "string \<Rightarrow> metric_call \<Rightarrow> duration option" where
  "observed k (CallLatency op d region) = (if k = ''latency'' @ bars [op, region] then Some d else None)"
| "observed k _ = None"

definition tally_of :: "string \<Rightarrow> metric_call list \<Rightarrow> int64 option" where
  "tally_of k calls = (let n = length (filter (counts k) calls) in if n = 0 then None else Some (wrap64 (int n)))"

definition summary_of :: "duration list \<Rightarrow> latencySummary option" where
  "summary_of ds = (if ds = [] then None else
     Some \<lparr>ls_count = wrap64 (int (length ds)), ls_totalNanos = wrap64 (sum_list ds), ls_maxNanos = Max (insert 0 (set ds))\<rparr>)"

lemma incCounter_get:
  "gm_get (mt_counters (incCounter m key)) k =
     (if k = key \<and> key \<noteq> [] then Some (wrap64 ((case gm_get (mt_counters m) k of None \<Rightarrow> 0 | Some n \<Rightarrow> n) + 1))
      else gm_get (mt_counters m) k)"
  "mt_latencies (incCounter m key) = mt_latencies m"
  by (auto simp: incCounter_def getCounter_def split: option.splits)

lemma counter_step:
  "gm_get (mt_counters (the (metric_step (Some m) c))) k =
     (if counts k c then Some (wrap64 ((case gm_get (mt_counters m) k of None \<Rightarrow> 0 | Some n \<Rightarrow> n) + 1)) else gm_get (mt_counters m) k)"
  by (cases c) (auto simp: IncCheck_def IncFallback_def IncRedisError_def IncBatchItemError_def IncCounter_def ObserveLatency_def
      getLatency_def incCounter_get bars_def Let_def split: option.splits)

definition observe :: "latencySummary option \<Rightarrow> duration \<Rightarrow> latencySummary" where
  "observe old d = (let entry = (case old of None \<Rightarrow> \<lparr>ls_count = 0, ls_totalNanos = 0, ls_maxNanos = 0\<rparr> | Some e \<Rightarrow> e)
     in \<lparr>ls_count = wrap64 (ls_count entry + 1), ls_totalNanos = wrap64 (ls_totalNanos entry + d), ls_maxNanos = max (ls_maxNanos entry) d\<rparr>)"

lemma latency_step:
  "gm_get (mt_latencies (the (metric_step (Some m) c))) k =
     (case observed k c of None \<Rightarrow> gm_get (mt_latencies m) k | Some d \<Rightarrow> Some (observe (gm_get (mt_latencies m) k) d))"
  by (cases c) (auto simp: IncCheck_def IncFallback_def IncRedisError_def IncBatchItemError_def IncCounter_def ObserveLatency_def
      getLatency_def incCounter_get observe_def bars_def Let_def max_def split: option.splits)

lemma metric_step_Some: "metric_step (Some m) c = Some (the (metric_step (Some m) c))"
  by (cases c) (auto simp: IncCheck_def IncFallback_def IncRedisError_def IncBatchItemError_def IncCounter_def ObserveLatency_def
      Let_def split: option.splits prod.splits)

lemma summary_snoc: "observe (summary_of ds) d = the (summary_of (ds @ [d]))"
proof (cases "ds = []")
  case True
  then show ?thesis by (simp add: observe_def summary_of_def max_def)
next
  case False
  have "Max (insert d (insert 0 (set ds))) = max d (Max (insert 0 (set ds)))" by (rule Max_insert) auto
  moreover have "insert 0 (set (ds @ [d])) = insert d (insert 0 (set ds))" by auto
  ultimately have "Max (insert 0 (set (ds @ [d]))) = max (Max (insert 0 (set ds))) d" by (simp add: max.commute)
  with False show ?thesis by (simp add: observe_def summary_of_def wrap64_add_wrap wrap64_add_wrap2 add.commute)
qed

text \<open>After any sequence of calls on a new recorder a counter holds the number of calls that name it, modulo 64
  bits, and a latency summary holds the number, the sum and the maximum of the durations observed under its name; names that
  were not used are absent.\<close>

theorem metrics_count_calls:
  "\<exists>m. foldl metric_step (Some NewInMemoryMetrics) calls = Some m
     \<and> (\<forall>k. gm_get (mt_counters m) k = tally_of k calls)
     \<and> (\<forall>k. gm_get (mt_latencies m) k = summary_of (List.map_filter (observed k) calls))"
proof (induction calls rule: rev_induct)
  case Nil
  show ?case by (simp add: NewInMemoryMetrics_def tally_of_def summary_of_def map_filter_simps)
next
  case (snoc c calls)
  then obtain m where m: "foldl metric_step (Some NewInMemoryMetrics) calls = Some m"
    "\<And>k. gm_get (mt_counters m) k = tally_of k calls" "\<And>k. gm_get (mt_latencies m) k = summary_of (List.map_filter (observed k) calls)"
    by blast
  have "gm_get (mt_counters (the (metric_step (Some m) c))) k = tally_of k (calls @ [c])" for k
    unfolding counter_step m(2) by (simp add: tally_of_def Let_def wrap64_add_wrap)
  moreover have "gm_get (mt_latencies (the (metric_step (Some m) c))) k = summary_of (List.map_filter (observed k) (calls @ [c]))" for k
    unfolding latency_step m(3) summary_snoc
    by (cases "observed k c") (simp_all add: List.map_filter_def summary_of_def)
  ultimately show ?case using m(1) metric_step_Some [of m c] by (intro exI [of _ "the (metric_step (Some m) c)"]) simp
qed

end
