(* ===== verification/Handler.thy ===== *)
theory Handler
  imports Limiter_Pool In_Flight Coalescer Batch Metrics
begin

text \<open>
  \<^verbatim>\<open>core/handler.go\<close>: the check of one request and of a batch, through every component below it: the drain
  guard, the rule cache, the limiter pool, the key builder, the coalescer, the limiter with its store
  and fallback, the pooled responses and the metrics. A check is a function of the handler and of the
  limiters' backend; everything the call reads from outside (clocks, the choices of \<^verbatim>\<open>sync.Pool\<close>, what a
  coalesced follower is told) is in the environment of the request. \<^term>\<open>None\<close> is a panic. The tracer
  has no effect on the state and is left out, but the sampler's decision is computed, because it can
  panic.
\<close>

section \<open>State\<close>

record RateLimitHandler =
  h_rules :: "RuleCache option"
  h_pool :: "LimiterPool option"
  h_pool_rules :: "RuleCache option"
  h_keys :: "KeyBuilder option"
  h_region :: string
  h_respPool :: "ResponsePool option"
  h_batch :: "BatchPlanner option"
  h_sampler :: "HashSampler option"
  h_metrics :: "InMemoryMetrics option"
  h_coalescer :: "Coalescer option"
  h_inflight :: "InFlight option"
  h_requestTimeout :: duration

definition NewRateLimitHandler ::
    "RuleCache option \<Rightarrow> LimiterPool option \<Rightarrow> RuleCache option \<Rightarrow> KeyBuilder option \<Rightarrow> string \<Rightarrow> ResponsePool option
      \<Rightarrow> HashSampler option \<Rightarrow> InMemoryMetrics option \<Rightarrow> Coalescer option \<Rightarrow> RateLimitHandler" where
  "NewRateLimitHandler rules pool pool_rules ks region rp sampler metrics coalescer =
     \<lparr>h_rules = rules, h_pool = pool, h_pool_rules = pool_rules, h_keys = ks, h_region = region, h_respPool = rp,
      h_batch = Some newBatchPlanner, h_sampler = or_new (NewHashSampler 100) sampler,
      h_metrics = or_new NewInMemoryMetrics metrics, h_coalescer = or_new (NewCoalescer 0 0) coalescer,
      h_inflight = Some NewInFlight, h_requestTimeout = 2 * Second\<rparr>"

text \<open>What one request reads from outside.\<close>

record req_env =
  rv_su :: surroundings
  rv_clocks :: clocks
  rv_start :: time
  rv_end :: time
  rv_resp_pick :: "nat option"
  rv_key_pick :: "nat option"
  rv_grow :: "int \<Rightarrow> int \<Rightarrow> int"
  rv_co_now :: time
  rv_co_created :: time
  rv_await :: "nat \<Rightarrow> outcome"

section \<open>Helpers\<close>

definition regionLabel :: "RateLimitHandler option \<Rightarrow> string" where
  "regionLabel h = (case h of None \<Rightarrow> ''unknown'' | Some h \<Rightarrow> if h_region h = [] then ''unknown'' else h_region h)"

definition recordCheckMetrics :: "RateLimitHandler \<Rightarrow> CheckLimitResponse option \<Rightarrow> string \<Rightarrow> bool \<Rightarrow> RateLimitHandler" where
  "recordCheckMetrics h resp_ptr algorithm usedFallback =
     (case resp_ptr of
        None \<Rightarrow> h
      | Some resp \<Rightarrow>
          if h_metrics h = None then h
          else
            let region = regionLabel (Some h);
                result = (if rs_ErrorCode resp = [] then (if rs_Allowed resp then ''allowed'' else ''denied'') else rs_ErrorCode resp);
                m1 = IncCheck (h_metrics h) result algorithm region;
                m2 = (if rs_ErrorCode resp = ''LIMITER_ERROR'' \<or> rs_ErrorCode resp = ''LIMITER_UNAVAILABLE''
                      then IncRedisError m1 ''allow'' region else m1);
                m3 = (if usedFallback then IncFallback m2 ''fallback'' region else m2)
            in h\<lparr>h_metrics := m3\<rparr>)"

definition recordBatchItemError :: "RateLimitHandler \<Rightarrow> CheckLimitResponse option \<Rightarrow> RateLimitHandler" where
  "recordBatchItemError h resp_ptr =
     (case resp_ptr of
        None \<Rightarrow> h
      | Some resp \<Rightarrow>
          if h_metrics h = None \<or> rs_ErrorCode resp = [] then h
          else h\<lparr>h_metrics := IncBatchItemError (h_metrics h) (rs_ErrorCode resp) (regionLabel (Some h))\<rparr>)"

definition observe_latency :: "string \<Rightarrow> time \<Rightarrow> time \<Rightarrow> RateLimitHandler \<Rightarrow> RateLimitHandler" where
  "observe_latency op start fin h =
     (if h_metrics h = None then h else h\<lparr>h_metrics := ObserveLatency (h_metrics h) op (time_Sub fin start) (regionLabel (Some h))\<rparr>)"

definition ReleaseResponse :: "RateLimitHandler option \<Rightarrow> CheckLimitResponse option \<Rightarrow> RateLimitHandler option" where
  "ReleaseResponse h_ptr resp_ptr =
     (case (h_ptr, resp_ptr) of
        (Some h, Some resp) \<Rightarrow>
          if h_respPool h = None then Some h else Some (h\<lparr>h_respPool := ResponsePool_Put (h_respPool h) (Some resp)\<rparr>)
      | _ \<Rightarrow> h_ptr)"

definition SetBatchPlanner :: "RateLimitHandler option \<Rightarrow> BatchPlanner option \<Rightarrow> RateLimitHandler option" where
  "SetBatchPlanner h_ptr planner =
     (case h_ptr of None \<Rightarrow> None | Some h \<Rightarrow> if planner = None then Some h else Some (h\<lparr>h_batch := planner\<rparr>))"

definition SetInFlight :: "RateLimitHandler option \<Rightarrow> InFlight option \<Rightarrow> RateLimitHandler option" where
  "SetInFlight h_ptr inflight = map_option (\<lambda>h. h\<lparr>h_inflight := inflight\<rparr>) h_ptr"

definition SetRequestTimeout :: "RateLimitHandler option \<Rightarrow> duration \<Rightarrow> RateLimitHandler option" where
  "SetRequestTimeout h_ptr timeout = map_option (\<lambda>h. h\<lparr>h_requestTimeout := timeout\<rparr>) h_ptr"

definition ready :: "RateLimitHandler option \<Rightarrow> bool" where
  "ready h_ptr \<longleftrightarrow>
     (case h_ptr of None \<Rightarrow> False
      | Some h \<Rightarrow> h_rules h \<noteq> None \<and> h_pool h \<noteq> None \<and> h_keys h \<noteq> None \<and> h_respPool h \<noteq> None)"

section \<open>CheckLimit\<close>

definition is_sampled :: "RateLimitHandler \<Rightarrow> string \<Rightarrow> bool option" where
  "is_sampled h traceID = (case h_sampler h of None \<Rightarrow> Some False | Some s \<Rightarrow> Sampled s traceID)"

text \<open>The responses \<^verbatim>\<open>CheckLimit\<close> builds, from a pooled response, with their metrics.\<close>

definition error_response ::
    "req_env \<Rightarrow> RateLimitHandler \<Rightarrow> string \<Rightarrow> string \<Rightarrow> bool \<Rightarrow> CheckLimitResponse \<times> RateLimitHandler" where
  "error_response env h code algorithm usedFallback =
     (let (resp, rp) = ResponsePool_Get (h_respPool h) (rv_resp_pick env);
          resp = resp\<lparr>rs_Allowed := False, rs_ErrorCode := code\<rparr>
      in (resp, recordCheckMetrics (h\<lparr>h_respPool := rp\<rparr>) (Some resp) algorithm usedFallback))"

definition fill_response :: "Decision \<Rightarrow> CheckLimitResponse \<Rightarrow> CheckLimitResponse" where
  "fill_response decision resp = resp\<lparr>rs_Allowed := de_Allowed decision, rs_Remaining := de_Remaining decision,
     rs_Limit := de_Limit decision, rs_ResetAfter := de_ResetAfter decision, rs_RetryAfter := de_RetryAfter decision,
     rs_ErrorCode := []\<rparr>"

definition decision_response ::
    "req_env \<Rightarrow> RateLimitHandler \<Rightarrow> Decision \<Rightarrow> string \<Rightarrow> bool \<Rightarrow> CheckLimitResponse \<times> RateLimitHandler" where
  "decision_response env h decision algorithm usedFallback =
     (let (resp, rp) = ResponsePool_Get (h_respPool h) (rv_resp_pick env);
          resp = fill_response decision resp
      in (resp, recordCheckMetrics (h\<lparr>h_respPool := rp\<rparr>) (Some resp) algorithm usedFallback))"

text \<open>From the coalesced decision to the response.\<close>

definition conclude ::
    "req_env \<Rightarrow> RateLimitHandler \<Rightarrow> string \<Rightarrow> outcome \<Rightarrow> CheckLimitResponse \<times> RateLimitHandler" where
  "conclude env h algorithm = (\<lambda>(decision, err).
     let usedFallback = (case err of None \<Rightarrow> False | Some e \<Rightarrow> As_fallback e);
         err = (if usedFallback then None else err)
     in case (err, decision) of
          (None, Some d) \<Rightarrow> decision_response env h d algorithm usedFallback
        | _ \<Rightarrow> error_response env h ''LIMITER_ERROR'' algorithm usedFallback)"

text \<open>The work on a pinned limiter: build the key, decide through the coalescer, release the key and
  the handle.\<close>

definition decide_pinned ::
    "req_env \<Rightarrow> backend \<Rightarrow> RateLimitHandler \<Rightarrow> CheckLimitRequest \<Rightarrow> LimiterHandle
      \<Rightarrow> (outcome \<times> RateLimitHandler \<times> backend) option" where
  "decide_pinned env be h req handle =
     (let (key, keys1) = BuildKey (h_keys h) (rv_grow env) (rv_key_pick env) (cr_TenantID req) (cr_UserID req) (cr_Resource req);
          coalesceKey = KeyToString key @ [sep] @ FormatInt (cr_Cost req);
          fn = (\<lambda>be. redisLimiter_Allow (rv_su env) (rv_clocks env) be (LimiterHandle_Limiter (Some handle)) (bs_data key) (cr_Cost req))
      in case Do (rv_co_now env) (rv_co_created env) (rv_await env) (h_coalescer h) coalesceKey fn be of
           None \<Rightarrow> None
         | Some (r, co, be1) \<Rightarrow> Some (r, h\<lparr>h_keys := ReleaseKey keys1 key, h_coalescer := co\<rparr>, be1))"

text \<open>The body between \<^verbatim>\<open>Begin\<close> and \<^verbatim>\<open>End\<close>.\<close>

definition check_body ::
    "req_env \<Rightarrow> backend \<Rightarrow> RateLimitHandler \<Rightarrow> CheckLimitRequest \<Rightarrow> (CheckLimitResponse \<times> RateLimitHandler \<times> backend) option" where
  "check_body env be h req =
     (case is_sampled h (cr_TraceID req) of
        None \<Rightarrow> None
      | Some _ \<Rightarrow>
          (case RuleCache_Get (the (h_rules h)) (cr_TenantID req) (cr_Resource req) of
             None \<Rightarrow> (case error_response env h ''RULE_NOT_FOUND'' [] False of (resp, h1) \<Rightarrow> Some (resp, h1, be))
           | Some rule \<Rightarrow>
               (case Acquire (h_pool_rules h) (Some be) (h_pool h) (cr_TenantID req) (cr_Resource req) of
                  None \<Rightarrow> None
                | Some (Inl err, pool, factory) \<Rightarrow>
                    (case error_response env (h\<lparr>h_pool := pool\<rparr>) ''LIMITER_UNAVAILABLE'' (ru_Algorithm rule) False of
                       (resp, h1) \<Rightarrow> Some (resp, h1, the factory))
                | Some (Inr (handle, _), pool, factory) \<Rightarrow>
                    (case decide_pinned env (the factory) (h\<lparr>h_pool := pool\<rparr>) req handle of
                       None \<Rightarrow> None
                     | Some (r, h1, be1) \<Rightarrow>
                         (case conclude env h1 (ru_Algorithm rule) r of
                            (resp, h2) \<Rightarrow>
                              Some (resp, h2\<lparr>h_pool := map_option (\<lambda>p. fst (LimiterHandle_Release p handle)) (h_pool h2)\<rparr>, be1))))))"

definition valid_request :: "CheckLimitRequest option \<Rightarrow> go_error option" where
  "valid_request req_ptr =
     (case req_ptr of
        None \<Rightarrow> Some ErrInvalidInput
      | Some req \<Rightarrow>
          if cr_TenantID req = [] then Some ErrInvalidInput
          else if cr_Resource req = [] then Some ErrInvalidInput
          else if cr_UserID req = [] then Some ErrInvalidInput
          else if cr_Cost req \<le> 0 then Some (Wrap CodeInvalidCost ''invalid cost'' (Some ErrInvalidInput))
          else None)"

definition CheckLimit ::
    "req_env \<Rightarrow> backend \<Rightarrow> RateLimitHandler option \<Rightarrow> CheckLimitRequest option
      \<Rightarrow> ((go_error + CheckLimitResponse) \<times> RateLimitHandler option \<times> backend) option" where
  "CheckLimit env be h_ptr req_ptr =
     (case valid_request req_ptr of
        Some err \<Rightarrow> Some (Inl err, h_ptr, be)
      | None \<Rightarrow>
          if \<not> ready h_ptr then Some (Inl (Wrap CodeLimiterError ''handler not initialized'' None), h_ptr, be)
          else
            let h = the h_ptr;
                h = (if h_inflight h = None then h\<lparr>h_inflight := Some NewInFlight\<rparr> else h);
                (begun, inflight1) = InFlight_Begin (h_inflight h);
                h = h\<lparr>h_inflight := inflight1\<rparr>
            in if \<not> begun then Some (Inl (Wrap CodeLimiterUnavailable ''server draining'' None), Some h, be)
               else
                 (case check_body env be h (the req_ptr) of
                    None \<Rightarrow> None
                  | Some (resp, h1, be1) \<Rightarrow>
                      let h2 = observe_latency ''check'' (rv_start env) (rv_end env) h1 in
                      (case InFlight_End (h_inflight h2) of
                         None \<Rightarrow> None
                       | Some inflight2 \<Rightarrow> Some (Inr resp, Some (h2\<lparr>h_inflight := inflight2\<rparr>), be1))))"

section \<open>CheckLimitBatch\<close>

record batch_env =
  bv_su :: surroundings
  bv_clocks :: "nat \<Rightarrow> clocks"
  bv_start :: time
  bv_end :: time
  bv_resp_pick :: "nat \<Rightarrow> nat option"
  bv_plan_picks :: "nat \<Rightarrow> nat option \<times> nat option \<times> nat option"
  bv_key_pick :: "nat \<Rightarrow> nat option"
  bv_grow :: "int \<Rightarrow> int \<Rightarrow> int"

definition contents :: "'a slice \<Rightarrow> 'a list" where
  "contents s = (case s of None \<Rightarrow> [] | Some xs \<Rightarrow> xs)"

text \<open>The first loop: a response for every request, and the requests that pass validation.\<close>

definition item_code :: "CheckLimitRequest option \<Rightarrow> string" where
  "item_code req_ptr =
     (case req_ptr of
        None \<Rightarrow> ''INVALID_REQUEST''
      | Some req \<Rightarrow>
          if cr_TenantID req = [] \<or> cr_Resource req = [] \<or> cr_UserID req = [] then ''INVALID_REQUEST''
          else if cr_Cost req \<le> 0 then ''INVALID_COST'' else [])"

definition fail_resp :: "string \<Rightarrow> CheckLimitResponse \<Rightarrow> CheckLimitResponse" where
  "fail_resp code resp = resp\<lparr>rs_Allowed := False, rs_ErrorCode := code\<rparr>"

fun validate_loop ::
    "(nat \<Rightarrow> nat option) \<Rightarrow> nat \<Rightarrow> CheckLimitRequest option list \<Rightarrow> ResponsePool option
      \<Rightarrow> CheckLimitResponse list \<times> CheckLimitRequest option list \<times> ResponsePool option" where
  "validate_loop picks i [] rp = ([], [], rp)"
| "validate_loop picks i (req # reqs) rp =
     (let (resp, rp1) = ResponsePool_Get rp (picks i);
          (resps, valids, rp2) = validate_loop picks (Suc i) reqs rp1
      in if item_code req = [] then (resp # resps, req # valids, rp2)
         else (fail_resp (item_code req) resp # resps, None # valids, rp2))"

text \<open>\<^verbatim>\<open>h.sampler.Sampled\<close> on the requests in order, up to the first that is sampled.\<close>

fun any_sampled :: "RateLimitHandler \<Rightarrow> CheckLimitRequest option list \<Rightarrow> bool option" where
  "any_sampled h [] = Some False"
| "any_sampled h (None # reqs) = any_sampled h reqs"
| "any_sampled h (Some req # reqs) =
     (case is_sampled h (cr_TraceID req) of None \<Rightarrow> None | Some True \<Rightarrow> Some True | Some False \<Rightarrow> any_sampled h reqs)"

text \<open>The keys of a group.\<close>

fun build_keys ::
    "(int \<Rightarrow> int \<Rightarrow> int) \<Rightarrow> (nat \<Rightarrow> nat option) \<Rightarrow> CheckLimitRequest option list \<Rightarrow> nat list \<Rightarrow> KeyBuilder option
      \<Rightarrow> ByteSlice option list \<times> KeyBuilder option" where
  "build_keys grow picks valids [] kb = ([], kb)"
| "build_keys grow picks valids (idx # idxs) kb =
     (case valids ! idx of
        None \<Rightarrow> (case build_keys grow picks valids idxs kb of (ks, kb2) \<Rightarrow> (None # ks, kb2))
      | Some req \<Rightarrow>
          let (key, kb1) = BuildKey kb grow (picks idx) (cr_TenantID req) (cr_UserID req) (cr_Resource req);
              (ks, kb2) = build_keys grow picks valids idxs kb1
          in (Some key # ks, kb2))"

definition release_keys :: "ByteSlice option list \<Rightarrow> KeyBuilder option \<Rightarrow> KeyBuilder option" where
  "release_keys ks kb = fold (\<lambda>k kb. case k of None \<Rightarrow> kb | Some b \<Rightarrow> ReleaseKey kb b) ks kb"

text \<open>Writing one group's result into the responses: one code for all, or the decisions one by one,
  each counted when the fallback made it.\<close>

definition fail_group :: "string \<Rightarrow> nat list \<Rightarrow> CheckLimitResponse list \<Rightarrow> CheckLimitResponse list" where
  "fail_group code idxs resps = fold (\<lambda>idx. modify idx (fail_resp code)) idxs resps"

fun apply_decisions ::
    "bool \<Rightarrow> nat list \<Rightarrow> Decision option list \<Rightarrow> CheckLimitResponse list \<Rightarrow> RateLimitHandler \<Rightarrow> CheckLimitResponse list \<times> RateLimitHandler" where
  "apply_decisions usedFallback (idx # idxs) (d # ds) resps h =
     (case d of
        None \<Rightarrow> apply_decisions usedFallback idxs ds (modify idx (fail_resp ''LIMITER_ERROR'') resps) h
      | Some decision \<Rightarrow>
          apply_decisions usedFallback idxs ds (modify idx (fill_response decision) resps)
            (if usedFallback \<and> h_metrics h \<noteq> None then h\<lparr>h_metrics := IncFallback (h_metrics h) ''fallback'' (regionLabel (Some h))\<rparr> else h))"
| "apply_decisions usedFallback idxs ds resps h = (resps, h)"

definition group_result ::
    "nat list \<Rightarrow> batch_result \<Rightarrow> CheckLimitResponse list \<Rightarrow> RateLimitHandler \<Rightarrow> CheckLimitResponse list \<times> RateLimitHandler" where
  "group_result idxs res resps h =
     (let (ds, err) = res;
          decisions = (case ds of None \<Rightarrow> [] | Some l \<Rightarrow> map Some l);
          usedFallback = (case err of None \<Rightarrow> False | Some e \<Rightarrow> As_fallback e);
          err = (if usedFallback then None else err)
      in if err \<noteq> None \<or> length decisions \<noteq> length idxs then (fail_group ''LIMITER_ERROR'' idxs resps, h)
         else apply_decisions usedFallback idxs decisions resps h)"

type_synonym batch_state = "CheckLimitResponse list \<times> RateLimitHandler \<times> backend"

definition check_group ::
    "batch_env \<Rightarrow> CheckLimitRequest option list \<Rightarrow> nat \<Rightarrow> BatchGroup \<Rightarrow> batch_state \<Rightarrow> batch_state option" where
  "check_group env valids g grp = (\<lambda>(resps, h, be).
     let idxs = contents (bg_Indexes grp) in
     case RuleCache_Get (the (h_rules h)) (bg_TenantID grp) (bg_Resource grp) of
       None \<Rightarrow> Some (fail_group ''RULE_NOT_FOUND'' idxs resps, h, be)
     | Some rule \<Rightarrow>
         (case Acquire (h_pool_rules h) (Some be) (h_pool h) (bg_TenantID grp) (bg_Resource grp) of
            None \<Rightarrow> None
          | Some (Inl err, pool, factory) \<Rightarrow>
              Some (fail_group ''LIMITER_UNAVAILABLE'' idxs resps, h\<lparr>h_pool := pool\<rparr>, the factory)
          | Some (Inr (handle, _), pool, factory) \<Rightarrow>
              let (ks, kb) = build_keys (bv_grow env) (bv_key_pick env) valids idxs (h_keys h);
                  (res, be1) = redisLimiter_AllowBatch (bv_su env) (bv_clocks env g) (the factory) (LimiterHandle_Limiter (Some handle))
                     (map (\<lambda>k. case k of None \<Rightarrow> [] | Some b \<Rightarrow> bs_data b) ks) (contents (bg_Costs grp));
                  (resps1, h1) = group_result idxs res resps (h\<lparr>h_pool := pool, h_keys := kb\<rparr>)
              in Some (resps1, h1\<lparr>h_keys := release_keys ks (h_keys h1),
                                  h_pool := map_option (\<lambda>p. fst (LimiterHandle_Release p handle)) (h_pool h1)\<rparr>, be1)))"

fun check_groups :: "batch_env \<Rightarrow> CheckLimitRequest option list \<Rightarrow> nat \<Rightarrow> BatchGroup list \<Rightarrow> batch_state \<Rightarrow> batch_state option" where
  "check_groups env valids g [] st = Some st"
| "check_groups env valids g (grp # groups) st =
     (case check_group env valids g grp st of None \<Rightarrow> None | Some st1 \<Rightarrow> check_groups env valids (Suc g) groups st1)"

definition batch_body ::
    "batch_env \<Rightarrow> backend \<Rightarrow> RateLimitHandler \<Rightarrow> CheckLimitRequest option list \<Rightarrow> batch_state option" where
  "batch_body env be h reqs =
     (let (resps, valids, rp) = validate_loop (bv_resp_pick env) 0 reqs (h_respPool h);
          planner = or_new newBatchPlanner (h_batch h);
          (plan, planner1) = Plan (bv_plan_picks env) planner valids;
          h1 = h\<lparr>h_respPool := rp, h_batch := planner1\<rparr>
      in case any_sampled h1 reqs of
           None \<Rightarrow> None
         | Some _ \<Rightarrow>
             (case check_groups env valids 0 (pl_Groups plan) (resps, h1, be) of
                None \<Rightarrow> None
              | Some (resps1, h2, be1) \<Rightarrow>
                  let h3 = fold (\<lambda>resp h. recordBatchItemError h (Some resp)) resps1 h2;
                      (planner2, _) = Plan_Release (h_batch h3) (Some plan)
                  in Some (resps1, h3\<lparr>h_batch := planner2\<rparr>, be1)))"

definition CheckLimitBatch ::
    "batch_env \<Rightarrow> backend \<Rightarrow> RateLimitHandler option \<Rightarrow> CheckLimitRequest option list
      \<Rightarrow> ((go_error + CheckLimitResponse list) \<times> RateLimitHandler option \<times> backend) option" where
  "CheckLimitBatch env be h_ptr reqs =
     (if length reqs = 0 then Some (Inr [], h_ptr, be)
      else if \<not> ready h_ptr then Some (Inl (Wrap CodeLimiterError ''handler not initialized'' None), h_ptr, be)
      else
        let h = the h_ptr;
            h = (if h_inflight h = None then h\<lparr>h_inflight := Some NewInFlight\<rparr> else h);
            (begun, inflight1) = InFlight_Begin (h_inflight h);
            h = h\<lparr>h_inflight := inflight1\<rparr>
        in if \<not> begun then Some (Inl (Wrap CodeLimiterUnavailable ''server draining'' None), Some h, be)
           else
             (case batch_body env be h reqs of
                None \<Rightarrow> None
              | Some (resps, h1, be1) \<Rightarrow>
                  let h2 = observe_latency ''checkBatch'' (bv_start env) (bv_end env) h1 in
                  (case InFlight_End (h_inflight h2) of
                     None \<Rightarrow> None
                   | Some inflight2 \<Rightarrow> Some (Inr resps, Some (h2\<lparr>h_inflight := inflight2\<rparr>), be1))))"
end
