(* ===== verification/Handler_Props.thy ===== *)
theory Handler_Props
  imports Handler
begin

text \<open>
  What the handler guarantees: it refuses bad requests without touching anything, answers every good
  one, decides through the limiter that the pool holds for the rule, and gives back everything it
  takes: the in-flight slot, the handle of the limiter, the coalescer's entry.
\<close>

section \<open>Framing\<close>

lemma recordCheckMetrics_frame [simp]:
  "h_pool (recordCheckMetrics h r a u) = h_pool h" "h_inflight (recordCheckMetrics h r a u) = h_inflight h"
  "h_coalescer (recordCheckMetrics h r a u) = h_coalescer h" "h_rules (recordCheckMetrics h r a u) = h_rules h"
  "h_keys (recordCheckMetrics h r a u) = h_keys h" "h_respPool (recordCheckMetrics h r a u) = h_respPool h"
  "h_batch (recordCheckMetrics h r a u) = h_batch h" "h_pool_rules (recordCheckMetrics h r a u) = h_pool_rules h"
  by (simp_all add: recordCheckMetrics_def Let_def split: option.split)

lemma recordBatchItemError_frame [simp]:
  "h_pool (recordBatchItemError h r) = h_pool h" "h_inflight (recordBatchItemError h r) = h_inflight h"
  "h_rules (recordBatchItemError h r) = h_rules h" "h_pool_rules (recordBatchItemError h r) = h_pool_rules h"
  "h_batch (recordBatchItemError h r) = h_batch h" "h_coalescer (recordBatchItemError h r) = h_coalescer h"
  by (simp_all add: recordBatchItemError_def split: option.split)

lemma observe_latency_frame [simp]:
  "h_pool (observe_latency op a b h) = h_pool h" "h_inflight (observe_latency op a b h) = h_inflight h"
  "h_rules (observe_latency op a b h) = h_rules h" "h_coalescer (observe_latency op a b h) = h_coalescer h"
  by (simp_all add: observe_latency_def)

lemma error_response_frame:
  assumes "error_response env h code a u = (resp, h')"
  shows "resp = fail_resp code zero_response" "h_pool h' = h_pool h" "h_inflight h' = h_inflight h"
    "h_coalescer h' = h_coalescer h"
  using assms ResponsePool_Get_zero [of "h_respPool h" "rv_resp_pick env"]
  by (auto simp: error_response_def fail_resp_def Let_def simp del: ResponsePool_Get_zero split: prod.splits)

lemma conclude_frame:
  assumes "conclude env h a r = (resp, h')"
  shows "h_pool h' = h_pool h" "h_inflight h' = h_inflight h" "h_coalescer h' = h_coalescer h"
    "fst r = Some d \<Longrightarrow> snd r = None \<or> snd r = Some (ErrUsedFallback x) \<Longrightarrow> resp = fill_response d zero_response"
    "fst r = None \<Longrightarrow> resp = fail_resp ''LIMITER_ERROR'' zero_response"
proof -
  have g: "fst (ResponsePool_Get (h_respPool h) (rv_resp_pick env)) = zero_response" by simp
  show "h_pool h' = h_pool h" "h_inflight h' = h_inflight h" "h_coalescer h' = h_coalescer h"
    "fst r = Some d \<Longrightarrow> snd r = None \<or> snd r = Some (ErrUsedFallback x) \<Longrightarrow> resp = fill_response d zero_response"
    "fst r = None \<Longrightarrow> resp = fail_resp ''LIMITER_ERROR'' zero_response"
    using assms g by (auto simp: conclude_def error_response_def decision_response_def fail_resp_def Let_def
        simp del: ResponsePool_Get_zero split: prod.splits option.splits if_splits)
qed

section \<open>The drain guard\<close>

definition slot_ok :: "InFlight option \<Rightarrow> bool" where
  "slot_ok f_ptr \<longleftrightarrow> (\<forall>f. f_ptr = Some f \<longrightarrow> 0 \<le> if_n f \<and> if_n f < max_int64)"

lemma begin_end:
  assumes "slot_ok f_ptr" "InFlight_Begin f_ptr = (True, f1)"
  shows "InFlight_End f1 = Some f_ptr"
proof -
  from assms obtain f where f: "f_ptr = Some f" "0 \<le> if_n f" "if_n f < max_int64" by (cases f_ptr) (auto simp: slot_ok_def)
  then have "wrap64 (if_n f + 1) = if_n f + 1" "wrap64 (if_n f) = if_n f"
    by (auto intro!: wrap64_id simp: in_int64_def min_int64_def)
  with f assms(2) show ?thesis by (auto simp: add_n_def Let_def split: if_splits)
qed

section \<open>The pool\<close>

definition pool_ready :: "bool \<Rightarrow> LimiterHandle list \<Rightarrow> LimiterPool option \<Rightarrow> bool" where
  "pool_ready late live p \<longleftrightarrow>
     (\<exists>pool. p = Some pool \<and> pool_inv late pool live \<and> 0 < length (lp_shards pool) \<and> int (length live) < max_int64)"

text \<open>Acquiring and releasing leaves the pool as it was found, as far as pins go.\<close>

lemma acquire_release:
  assumes "pool_ready late live p" "Acquire rules factory p t r = Some (Inr (handle, rule), p1, factory1)"
  shows "\<exists>pool1. p1 = Some pool1 \<and> pool_ready late live (Some (fst (LimiterHandle_Release pool1 handle)))
     \<and> length (lp_shards (fst (LimiterHandle_Release pool1 handle))) = length (lp_shards (the p))"
proof -
  from assms(1) obtain pool where p: "p = Some pool" "pool_inv late pool live" "0 < length (lp_shards pool)" "int (length live) < max_int64"
    by (auto simp: pool_ready_def)
  from assms(2) p(1) obtain rc pool1 where rc: "rules = Some rc" "p1 = Some pool1"
    by (cases rules) (auto split: option.splits prod.splits)
  note acq = assms(2) [unfolded rc p(1)]
  have s1: "pool_inv late pool1 (handle # live) \<and> length (lp_shards pool1) = length (lp_shards pool)"
    using Acquire_success [OF acq p(2-4)] by metis
  obtain pool2 h2 where r: "LimiterHandle_Release pool1 handle = (pool2, h2)" by fastforce
  with s1 have "pool_inv late pool2 live" using release_preserves [of late pool1 "handle # live" handle pool2 h2] by simp
  moreover have "length (lp_shards pool2) = length (lp_shards pool1)"
    using r by (auto simp: LimiterHandle_Release_def split: if_splits)
  ultimately show ?thesis using s1 r rc p(1,3,4) by (simp add: pool_ready_def del: length_greater_0_conv)
qed

lemma acquire_error:
  assumes "pool_ready late live p" "Acquire rules factory p t r = Some (Inl err, p1, factory1)"
  shows "p1 = p"
proof -
  from assms(1) obtain pool where p: "p = Some pool" by (auto simp: pool_ready_def)
  show ?thesis
  proof (cases rules)
    case None
    with assms(2) p show ?thesis by simp
  next
    case (Some rc)
    with assms(2) p obtain pool1 where p1: "p1 = Some pool1" by (auto split: option.splits prod.splits)
    from Acquire_failure [OF assms(2) [unfolded p p1 Some]] p p1 show ?thesis by simp
  qed
qed

section \<open>The coalescer\<close>

definition no_new_entries :: "Coalescer option \<Rightarrow> Coalescer option \<Rightarrow> bool" where
  "no_new_entries p p' \<longleftrightarrow> (\<forall>c'. p' = Some c' \<longrightarrow> (\<exists>c. p = Some c \<and> length (cl_shards c') = length (cl_shards c)
     \<and> (\<forall>i < length (cl_shards c). \<forall>k e. gm_get (cl_shards c' ! i) k = Some e \<longrightarrow> gm_get (cl_shards c ! i) k = Some e)))"

lemma Do_no_new_entries:
  assumes "Do now created await p key fn s = Some (r, p', s')"
  shows "no_new_entries p p'"
proof (cases p)
  case None
  with assms show ?thesis by (auto simp: Do_def no_new_entries_def split: prod.splits)
next
  case (Some c)
  show ?thesis
  proof (cases "length (cl_shards c) = 0 \<or> cl_ttl c \<le> 0")
    case True
    with assms Some show ?thesis by (auto simp: Do_def no_new_entries_def split: prod.splits)
  next
    case False
    with assms Some obtain i turn c1 where i: "coalescer_shardFor c key = Some i" and d: "Do_enter now created c i key = (turn, c1)"
      by (auto simp: Do_def split: option.splits prod.splits)
    have il: "i < length (cl_shards c)" using co_shardFor_bound [OF i] False by auto
    show ?thesis
    proof (cases turn)
      case (Lead e)
      note D = Do_enter_lead [OF d [unfolded Lead]]
      have "p' = Some (Do_leave (Do_publish c1 e r) i key e)"
        using assms Some False i d Lead by (auto simp: Do_def split: prod.splits)
      then show ?thesis using Some il
        by (auto simp: no_new_entries_def D Do_leave_def Do_publish_def nth_list_update split: if_splits)
    next
      case (Follow e)
      with Do_enter_follow [OF d [unfolded Follow]] assms Some False i d show ?thesis
        by (auto simp: Do_def no_new_entries_def split: prod.splits)
    qed
  qed
qed

section \<open>A check gives back what it takes\<close>

lemma Create_backend:
  assumes "LimiterFactory_Create (Some be) rule = (res, f1)"
  shows "\<exists>be1. f1 = Some be1 \<and> be_fallback be1 = be_fallback be \<and> be_redis be1 = be_redis be \<and> be_mode be1 = be_mode be"
  using assms by (auto simp: LimiterFactory_Create.simps Let_def split: if_splits option.splits sum.splits)

lemma acquire_locked_backend:
  assumes "acquire_locked (Some be) pool i key rule = (res, pool1, f1)"
  shows "\<exists>be1. f1 = Some be1 \<and> be_fallback be1 = be_fallback be \<and> be_redis be1 = be_redis be \<and> be_mode be1 = be_mode be"
  using assms Create_backend [of be "Some rule"]
  by (fastforce simp: acquire_locked_def Let_def split: option.splits prod.splits sum.splits)

lemma Acquire_backend:
  assumes "Acquire rules (Some be) p t r = Some (res, p1, f1)"
  shows "\<exists>be1. f1 = Some be1 \<and> be_fallback be1 = be_fallback be \<and> be_redis be1 = be_redis be \<and> be_mode be1 = be_mode be"
proof (cases "rules = None \<or> p = None")
  case True
  with assms show ?thesis by (cases rules; cases p) auto
next
  case False
  then obtain rc pool where rp: "rules = Some rc" "p = Some pool" by auto
  show ?thesis
  proof (cases "RuleCache_Get rc t r")
    case None
    with assms rp show ?thesis by auto
  next
    case (Some rule)
    with assms rp obtain i where "shardFor pool t r = Some i" by (auto split: option.splits)
    with assms rp Some obtain pool1 where "acquire_locked (Some be) pool i (limiterPoolKey t r) rule = (res, pool1, f1)"
      by (auto split: prod.splits)
    then show ?thesis by (rule acquire_locked_backend)
  qed
qed

lemma decide_frame:
  assumes "decide_pinned env be h req handle = Some (r, h1, be1)"
  shows "h_pool h1 = h_pool h" "h_inflight h1 = h_inflight h" "no_new_entries (h_coalescer h) (h_coalescer h1)"
  using assms Do_no_new_entries by (fastforce simp: decide_pinned_def Let_def split: prod.splits option.splits)+

lemma no_new_entries_refl: "no_new_entries p p"
  by (auto simp: no_new_entries_def)

lemma check_body_frame:
  assumes "pool_ready late live (h_pool h)" "check_body env be h req = Some (resp, h', be')"
  shows "pool_ready late live (h_pool h') \<and> h_inflight h' = h_inflight h \<and> no_new_entries (h_coalescer h) (h_coalescer h')"
proof -
  let ?t = "cr_TenantID req" and ?r = "cr_Resource req"
  from assms(2) obtain smp where smp: "is_sampled h (cr_TraceID req) = Some smp" by (auto simp: check_body_def split: option.splits)
  show ?thesis
  proof (cases "RuleCache_Get (the (h_rules h)) ?t ?r")
    case None
    with assms smp show ?thesis
      by (auto simp: check_body_def no_new_entries_refl split: prod.splits dest: error_response_frame)
  next
    case (Some rule)
    with assms(2) smp obtain res p1 f1 where acq: "Acquire (h_pool_rules h) (Some be) (h_pool h) ?t ?r = Some (res, p1, f1)"
      by (auto simp: check_body_def split: option.splits)
    show ?thesis
    proof (cases res)
      case (Inl err)
      with acquire_error [OF assms(1)] acq have "p1 = h_pool h" by simp
      with assms Some smp acq Inl show ?thesis
        by (auto simp: check_body_def no_new_entries_refl split: prod.splits dest: error_response_frame)
    next
      case (Inr pr)
      then obtain handle rule1 where res: "res = Inr (handle, rule1)" by (cases pr) auto
      from acquire_release [OF assms(1) acq [unfolded res]] obtain pool1 where p1: "p1 = Some pool1"
        "pool_ready late live (Some (fst (LimiterHandle_Release pool1 handle)))" by blast
      from assms(2) Some smp acq res obtain r h1 be1 where d: "decide_pinned env (the f1) (h\<lparr>h_pool := p1\<rparr>) req handle = Some (r, h1, be1)"
        by (auto simp: check_body_def split: option.splits)
      obtain resp2 h2 where c: "conclude env h1 (ru_Algorithm rule) r = (resp2, h2)" by fastforce
      note D = decide_frame [OF d] and C = conclude_frame [OF c]
      from assms(2) Some smp acq res d c have "h' = h2\<lparr>h_pool := map_option (\<lambda>p. fst (LimiterHandle_Release p handle)) (h_pool h2)\<rparr>"
        by (simp add: check_body_def)
      with D C p1 show ?thesis by simp
    qed
  qed
qed

text \<open>C2. A check returns everything it takes, on every path: the limiter pool's invariant holds with the same live handles,
  the in-flight count is as before, and the coalescer holds no entry it did not hold before.\<close>

theorem handler_no_leak:
  assumes "pool_ready late live (h_pool h)" "slot_ok (h_inflight h)"
    and "CheckLimit env be (Some h) req = Some (res, Some h', be')"
  shows "pool_ready late live (h_pool h') \<and> (h_inflight h' = h_inflight h \<or> h_inflight h = None \<and> h_inflight h' = Some NewInFlight)
     \<and> no_new_entries (h_coalescer h) (h_coalescer h')"
proof (cases "valid_request req \<noteq> None \<or> \<not> ready (Some h)")
  case True
  with assms show ?thesis by (auto simp: CheckLimit_def no_new_entries_refl split: option.splits if_splits)
next
  case False
  define h0 where "h0 = (if h_inflight h = None then h\<lparr>h_inflight := Some NewInFlight\<rparr> else h)"
  obtain begun f1 where b: "InFlight_Begin (h_inflight h0) = (begun, f1)" by fastforce
  have h0: "h_pool h0 = h_pool h" "h_coalescer h0 = h_coalescer h"
    "h_inflight h0 = h_inflight h \<or> h_inflight h = None \<and> h_inflight h0 = Some NewInFlight" by (auto simp: h0_def)
  have s0: "slot_ok (h_inflight h0)" using assms(2) by (auto simp: h0_def slot_ok_def NewInFlight_def max_int64_def)
  show ?thesis
  proof (cases begun)
    case False
    have "InFlight_Begin p = (False, q) \<Longrightarrow> q = p \<or> (\<exists>f. p = Some f \<and> \<not> if_closed f \<and> if_closed (add_n 1 f))" for p q
      by (cases p) (auto simp: Let_def split: if_splits)
    with b False have "f1 = h_inflight h0" by (force simp: add_n_def)
    with assms(1,3) \<open>\<not> (valid_request req \<noteq> None \<or> \<not> ready (Some h))\<close> b False h0 show ?thesis
      by (auto simp: CheckLimit_def Let_def h0_def [symmetric] no_new_entries_refl)
  next
    case True
    let ?h = "h0\<lparr>h_inflight := f1\<rparr>"
    from assms(3) False b True obtain resp h1 where c: "check_body env be ?h (the req) = Some (resp, h1, be')"
      and e: "\<exists>f2. InFlight_End (h_inflight h1) = Some f2 \<and> h' = (observe_latency ''check'' (rv_start env) (rv_end env) h1)\<lparr>h_inflight := f2\<rparr>"
      by (auto simp: CheckLimit_def Let_def h0_def [symmetric] split: option.splits prod.splits)
    have "pool_ready late live (h_pool ?h)" using assms(1) h0 by simp
    from check_body_frame [OF this c] have f: "pool_ready late live (h_pool h1)" "h_inflight h1 = f1"
      "no_new_entries (h_coalescer h) (h_coalescer h1)" using h0 by auto
    have "InFlight_End f1 = Some (h_inflight h0)" by (rule begin_end [OF s0]) (use b True in simp)
    with e f h0 show ?thesis by auto
  qed
qed
section \<open>A check answers\<close>

text \<open>What keeps the shard and sampling arithmetic from dividing by zero.\<close>

definition small_counts :: "RateLimitHandler \<Rightarrow> bool" where
  "small_counts h \<longleftrightarrow>
     (\<forall>s. h_sampler h = Some s \<longrightarrow> hs_rate s < 2 ^ 32)
     \<and> (\<forall>p. h_pool h = Some p \<longrightarrow> 0 < length (lp_shards p) \<and> int (length (lp_shards p)) < 2 ^ 32)
     \<and> (\<forall>c. h_coalescer h = Some c \<longrightarrow> int (length (cl_shards c)) < 2 ^ 32)"

lemma Sampled_total: "hs_rate s < 2 ^ 32 \<Longrightarrow> \<exists>b. Sampled s tid = Some b"
  using mod_u32_bounds [of "hs_rate s"] by (cases "hs_rate s \<le> 0") (force simp: Sampled_def Let_def)+

lemma is_sampled_total: "small_counts h \<Longrightarrow> \<exists>b. is_sampled h tid = Some b"
  using Sampled_total by (auto simp: small_counts_def is_sampled_def split: option.splits)

lemma Acquire_total:
  assumes "0 < length (lp_shards pool)" "int (length (lp_shards pool)) < 2 ^ 32"
  shows "\<exists>x. Acquire rules factory (Some pool) t r = Some x"
proof (cases rules)
  case (Some rc)
  from shardIndex_bounds [of "int (length (lp_shards pool))" t r] assms obtain i where "shardFor pool t r = Some i"
    by (auto simp: shardFor_def)
  with Some show ?thesis by (auto split: option.split prod.splits)
qed simp

text \<open>\<^term>\<open>Do\<close> either runs the callback once or runs it not at all and returns what an entry's waiters get.\<close>

lemma Do_total:
  assumes "\<forall>c. p = Some c \<longrightarrow> int (length (cl_shards c)) < 2 ^ 32"
  shows "\<exists>r p' s'. Do now created await p key fn s = Some (r, p', s') \<and> (fn s = (r, s') \<or> (\<exists>e. r = await e \<and> s' = s))"
proof (cases p)
  case None
  then show ?thesis by (simp add: Do_def split: prod.split)
next
  case (Some c)
  show ?thesis
  proof (cases "length (cl_shards c) = 0 \<or> cl_ttl c \<le> 0")
    case True
    with Some show ?thesis by (auto simp: Do_def split: prod.split)
  next
    case False
    with coalescerShardIndex_bounds [of "int (length (cl_shards c))" key] assms Some obtain i where "coalescer_shardFor c key = Some i"
      by (auto simp: coalescer_shardFor_def)
    with Some False show ?thesis by (auto simp: Do_def split: prod.split turn.split) (metis surj_pair)
  qed
qed

text \<open>The answer to a valid request: no rule, no limiter, or the decision of the limiter the pool holds
  for the rule, made by this call on the key of tenant, user and resource or, coalesced, shared from an
  entry of the coalescer.\<close>

definition answers :: "req_env \<Rightarrow> backend \<Rightarrow> RateLimitHandler \<Rightarrow> CheckLimitRequest \<Rightarrow> CheckLimitResponse \<Rightarrow> backend \<Rightarrow> bool" where
  "answers env be h req resp be' \<longleftrightarrow>
     (case RuleCache_Get (the (h_rules h)) (cr_TenantID req) (cr_Resource req) of
        None \<Rightarrow> resp = fail_resp ''RULE_NOT_FOUND'' zero_response \<and> be' = be
      | Some rule \<Rightarrow>
          (case Acquire (h_pool_rules h) (Some be) (h_pool h) (cr_TenantID req) (cr_Resource req) of
             Some (Inl err, p, Some be1) \<Rightarrow> resp = fail_resp ''LIMITER_UNAVAILABLE'' zero_response \<and> be' = be1
           | Some (Inr (handle, _), p, Some be1) \<Rightarrow>
               (\<exists>d e. redisLimiter_Allow (rv_su env) (rv_clocks env) be1 (Some (lh_lim handle))
                        (plain_key (cr_TenantID req) (cr_UserID req) (cr_Resource req)) (cr_Cost req) = ((Some d, e), be')
                    \<and> resp = fill_response d zero_response)
               \<or> be' = be1 \<and> (\<exists>e. resp = fst (conclude env h (ru_Algorithm rule) (rv_await env e)))
           | _ \<Rightarrow> False))"

lemma conclude_resp: "fst (conclude env h a r) = fst (conclude env h' a' r)"
proof -
  have "fst (ResponsePool_Get (h_respPool h) (rv_resp_pick env)) = fst (ResponsePool_Get (h_respPool h') (rv_resp_pick env))" by simp
  then show ?thesis
    by (auto simp: conclude_def error_response_def decision_response_def Let_def case_prod_beta split: option.splits)
qed

lemma check_body_answers:
  assumes "small_counts h" "h_pool h = Some pool" "be_fallback be = Some fl"
  shows "\<exists>resp h' be'. check_body env be h req = Some (resp, h', be') \<and> answers env be h req resp be'"
proof -
  let ?t = "cr_TenantID req" and ?r = "cr_Resource req"
  from is_sampled_total [OF assms(1)] obtain b where smp: "is_sampled h (cr_TraceID req) = Some b" by blast
  show ?thesis
  proof (cases "RuleCache_Get (the (h_rules h)) ?t ?r")
    case None
    obtain resp h1 where "error_response env h ''RULE_NOT_FOUND'' [] False = (resp, h1)" by fastforce
    with None smp error_response_frame(1) show ?thesis by (fastforce simp: check_body_def answers_def)
  next
    case (Some rule)
    from Acquire_total [of pool "h_pool_rules h" "Some be" ?t ?r] assms(1,2)
    obtain res p1 f1 where a: "Acquire (h_pool_rules h) (Some be) (h_pool h) ?t ?r = Some (res, p1, f1)"
      by (auto simp: small_counts_def simp del: Acquire.simps)
    from Acquire_backend [OF a] assms(3) obtain be1 where be1: "f1 = Some be1" "be_fallback be1 = Some fl" by auto
    show ?thesis
    proof (cases res)
      case (Inl err)
      obtain resp h1 where "error_response env (h\<lparr>h_pool := p1\<rparr>) ''LIMITER_UNAVAILABLE'' (ru_Algorithm rule) False = (resp, h1)" by fastforce
      with Some smp a Inl be1 error_response_frame(1) show ?thesis by (fastforce simp: check_body_def answers_def simp del: Acquire.simps)
    next
      case (Inr pr)
      then obtain handle rule1 where res: "res = Inr (handle, rule1)" by (cases pr) auto
      let ?key = "BuildKey (h_keys (h\<lparr>h_pool := p1\<rparr>)) (rv_grow env) (rv_key_pick env) ?t (cr_UserID req) ?r"
      let ?fn = "\<lambda>be. redisLimiter_Allow (rv_su env) (rv_clocks env) be (Some (lh_lim handle)) (bs_data (fst ?key)) (cr_Cost req)"
      have cs: "\<forall>c. h_coalescer h = Some c \<longrightarrow> int (length (cl_shards c)) < 2 ^ 32" using assms(1) by (simp add: small_counts_def)
      from Do_total [OF cs, of "rv_co_now env" "rv_co_created env" "rv_await env"
          "KeyToString (fst ?key) @ [sep] @ FormatInt (cr_Cost req)" ?fn be1]
      obtain r co be' where d: "Do (rv_co_now env) (rv_co_created env) (rv_await env) (h_coalescer h)
          (KeyToString (fst ?key) @ [sep] @ FormatInt (cr_Cost req)) ?fn be1 = Some (r, co, be')"
        and ran: "?fn be1 = (r, be') \<or> (\<exists>e. r = rv_await env e \<and> be' = be1)" by blast
      obtain h1 where dp: "decide_pinned env be1 (h\<lparr>h_pool := p1\<rparr>) req handle = Some (r, h1, be')"
        using d by (simp add: decide_pinned_def Let_def case_prod_beta del: redisLimiter_Allow.simps)
      obtain resp h2 where c: "conclude env h1 (ru_Algorithm rule) r = (resp, h2)" by fastforce
      have "answers env be h req resp be'"
        using ran
      proof
        assume f: "?fn be1 = (r, be')"
        obtain d e where r: "r = (d, e)" by (cases r)
        with f have f': "?fn be1 = ((d, e), be')" by simp
        from Allow_outcome [OF be1(2) f'] obtain dec where "d = Some dec" "e = None \<or> e = Some (ErrUsedFallback ''fallback'')" by auto
        with conclude_frame(4) [OF c, of dec] r f' Some a res be1 show ?thesis
          by (auto simp: answers_def simp del: Acquire.simps redisLimiter_Allow.simps)
      next
        assume "\<exists>e. r = rv_await env e \<and> be' = be1"
        with conclude_resp [of env h1 "ru_Algorithm rule" r h "ru_Algorithm rule"] c Some a res be1 show ?thesis
          by (auto simp: answers_def simp del: Acquire.simps)
      qed
      with Some smp a res be1 dp c show ?thesis by (simp add: check_body_def del: Acquire.simps)
    qed
  qed
qed

lemma CheckLimit_answers:
  assumes "valid_request (Some req) = None" "ready (Some h)" "h_inflight h = Some f" "\<not> if_closed f" "slot_ok (Some f)"
    and "small_counts h" "be_fallback be \<noteq> None" "pool_ready late live (h_pool h)"
  shows "\<exists>resp h' be'. CheckLimit env be (Some h) (Some req) = Some (Inr resp, Some h', be')
     \<and> answers env be (h\<lparr>h_inflight := snd (InFlight_Begin (Some f))\<rparr>) req resp be'"
proof -
  have b: "InFlight_Begin (Some f) = (True, Some (add_n 1 f))" using assms(4) by (simp add: Let_def add_n_def)
  let ?h = "h\<lparr>h_inflight := Some (add_n 1 f)\<rparr>"
  from assms(8) obtain pool where p: "h_pool ?h = Some pool" by (auto simp: pool_ready_def)
  have sc: "small_counts ?h" using assms(6) by (simp add: small_counts_def)
  from assms(7) obtain fl where fl: "be_fallback be = Some fl" by auto
  from check_body_answers [OF sc p fl, of env req] obtain resp h1 be' where c: "check_body env be ?h req = Some (resp, h1, be')"
    and a: "answers env be ?h req resp be'" by blast
  have "h_inflight h1 = Some (add_n 1 f)" using check_body_frame [OF _ c] assms(8) by simp
  moreover have "InFlight_End (Some (add_n 1 f)) = Some (Some f)" by (rule begin_end [OF assms(5) b])
  ultimately show ?thesis using assms(1-3) b c a by (simp add: CheckLimit_def Let_def)
qed


section \<open>A sample handler\<close>

definition sample_handler :: RateLimitHandler where
  "sample_handler = NewRateLimitHandler (Some sample_rules) (Some (NewLimiterPool sample_policy)) (Some sample_rules)
     (Some (NewKeyBuilder None)) ''eu'' (Some NewResponsePool) None None None"

definition sample_env :: req_env where
  "sample_env = \<lparr>rv_su = sample_surroundings, rv_clocks = sample_clocks 100, rv_start = 100, rv_end = 105, rv_resp_pick = None,
     rv_key_pick = None, rv_grow = (\<lambda>c n. n), rv_co_now = 100, rv_co_created = 100, rv_await = (\<lambda>e. (None, None))\<rparr>"

definition sample_check :: CheckLimitRequest where
  "sample_check = sample_req ''t'' ''a'' 1"

lemma sample_pool_ready: "pool_ready False [] (h_pool sample_handler)"
  using run_inv_start [of sample_policy]
  by (simp add: sample_handler_def NewRateLimitHandler_def pool_ready_def run_inv_def pool_start_def max_int64_def)

lemma sample_handler_ok:
  "ready (Some sample_handler)" "h_inflight sample_handler = Some NewInFlight" "\<not> if_closed NewInFlight" "slot_ok (Some NewInFlight)"
  "small_counts sample_handler" "be_fallback sample_backend \<noteq> None"
  by (simp_all add: sample_handler_def NewRateLimitHandler_def ready_def NewInFlight_def slot_ok_def small_counts_def or_new_def
      NewHashSampler_def NewLimiterPool_def sample_policy_def NewCoalescer_def Let_def sample_backend_def max_int64_def)

lemma sample_check_valid: "valid_request (Some sample_check) = None"
  by (simp add: valid_request_def sample_check_def sample_req_def)


theorem handler_no_leak_witness:
  "\<exists>resp h' be'. CheckLimit sample_env sample_backend (Some sample_handler) (Some sample_check) = Some (Inr resp, Some h', be')
     \<and> pool_ready False [] (h_pool h') \<and> (h_inflight h' = h_inflight sample_handler
        \<or> h_inflight sample_handler = None \<and> h_inflight h' = Some NewInFlight)
     \<and> no_new_entries (h_coalescer sample_handler) (h_coalescer h')"
proof -
  from CheckLimit_answers [OF sample_check_valid sample_handler_ok sample_pool_ready, of sample_env] obtain resp h' be'
    where c: "CheckLimit sample_env sample_backend (Some sample_handler) (Some sample_check) = Some (Inr resp, Some h', be')" by blast
  have "slot_ok (h_inflight sample_handler)" using sample_handler_ok(2,4) by simp
  from handler_no_leak [OF sample_pool_ready this c] c show ?thesis by blast
qed

end
