(* ===== verification/Handler_Batch.thy ===== *)
theory Handler_Batch
  imports Handler_Props
begin

text \<open>
  What \<^verbatim>\<open>CheckLimitBatch\<close> guarantees: one response per request, in the order of the requests, each of them
  answered exactly once by the group of its own tenant and resource.
\<close>

section \<open>The fallback stays\<close>

lemma Fallback_keeps: "\<exists>fl'. snd (Fallback_Allow ow ms dc now (Some fl) key params cost) = Some fl'"
  by (simp add: Fallback_Allow.simps Let_def case_prod_beta)

lemma fallback_loop_keeps: "\<exists>fl'. snd (fallback_loop su ck mc params costs i keys (Some fl)) = Some fl'"
proof (induction keys arbitrary: i fl)
  case (Cons key keys)
  obtain d fl1 where f: "Fallback_Allow (su_ownership su) (su_mship su) mc (ck_fallback ck i) (Some fl) key params (cost_at costs i) = (d, Some fl1)"
    using Fallback_keeps [of "su_ownership su" "su_mship su" mc "ck_fallback ck i" fl key params "cost_at costs i"] by (metis prod.collapse)
  from Cons.IH [of "Suc i" fl1] f show ?case by (simp add: Let_def case_prod_beta)
qed simp

lemma fallbackDecisions_keeps:
  "be_fallback be = Some fl \<Longrightarrow> \<exists>fl'. be_fallback (snd (fallbackDecisions su ck be rl keys costs)) = Some fl'"
  using fallback_loop_keeps [of su ck "be_mode be" "rl_params rl" costs 0 keys fl]
  by (simp add: fallbackDecisions_def case_prod_beta)

lemma AllowBatch_keeps:
  assumes "be_fallback be = Some fl"
  shows "\<exists>fl'. be_fallback (snd (redisLimiter_AllowBatch su ck be (Some rl) keys costs)) = Some fl'"
proof -
  obtain admit b1 where b: "Circuit_Allow (ck_allow ck) (be_breaker be) = (admit, b1)" by fastforce
  obtain res r1 where x: "Pipeline_Exec (ck_redis ck) (queue_all rl costs 0 keys Redis_Pipeline) (be_redis be) = (res, r1)" by fastforce
  show ?thesis using assms b x by (auto simp: Let_def fallbackDecisions_keeps split: sum.split)
qed

section \<open>The loops\<close>

definition first_resp :: "CheckLimitRequest option \<Rightarrow> CheckLimitResponse" where
  "first_resp req = (if item_code req = [] then zero_response else fail_resp (item_code req) zero_response)"

definition valid_item :: "CheckLimitRequest option \<Rightarrow> CheckLimitRequest option" where
  "valid_item req = (if item_code req = [] then req else None)"

lemma validate_loop_spec:
  "fst (validate_loop picks i reqs rp) = map first_resp reqs" "fst (snd (validate_loop picks i reqs rp)) = map valid_item reqs"
proof (induction reqs arbitrary: i rp)
  case (Cons req reqs)
  case 1
  have g: "fst (ResponsePool_Get rp (picks i)) = zero_response" by simp
  from Cons(1) [of "Suc i" "snd (ResponsePool_Get rp (picks i))"] g show ?case
    by (simp add: Let_def case_prod_beta first_resp_def del: ResponsePool_Get_zero)
  case 2
  from Cons(2) [of "Suc i" "snd (ResponsePool_Get rp (picks i))"] show ?case
    by (simp add: Let_def case_prod_beta valid_item_def)
qed simp_all

lemma item_code_None: "item_code None \<noteq> []"
  by (simp add: item_code_def)

lemma valid_item_Some: "valid_item r = Some req \<longleftrightarrow> r = Some req \<and> item_code r = []"
  using item_code_None by (auto simp: valid_item_def)

lemma fail_group_nth:
  "distinct idxs \<Longrightarrow> j < length resps \<Longrightarrow> fail_group code idxs resps ! j = (if j \<in> set idxs then fail_resp code (resps ! j) else resps ! j)"
  "length (fail_group code idxs resps) = length resps"
  by (induction idxs arbitrary: resps) (auto simp: fail_group_def nth_modify)

lemma apply_decisions_nth:
  assumes "distinct idxs" "length ds = length idxs" "j < length resps"
  shows "fst (apply_decisions u idxs (map Some ds) resps h) ! j =
     (case map_of (zip idxs ds) j of None \<Rightarrow> resps ! j | Some d \<Rightarrow> fill_response d (resps ! j))"
  using assms(2,1,3)
proof (induction idxs ds arbitrary: resps h rule: list_induct2')
  case (4 idx idxs d ds)
  then have n: "map_of (zip idxs ds) idx = None" by (auto simp: map_of_zip_is_None)
  show ?case
  proof (cases "j = idx")
    case True
    with 4 n show ?thesis by simp
  next
    case False
    then have "modify idx (fill_response d) resps ! j = resps ! j" by simp
    with False 4 show ?thesis by (cases "map_of (zip idxs ds) j") (simp_all del: map_of_zip_is_None)
  qed
qed auto

lemma apply_decisions_frame:
  "length (fst (apply_decisions u idxs ds resps h)) = length resps \<and> (let h' = snd (apply_decisions u idxs ds resps h) in
     h_pool h' = h_pool h \<and> h_inflight h' = h_inflight h \<and> h_rules h' = h_rules h \<and> h_pool_rules h' = h_pool_rules h \<and> h_batch h' = h_batch h)"
  by (induction u idxs ds resps h rule: apply_decisions.induct) (auto simp: Let_def split: option.split)

lemma group_result_frame:
  "length (fst (group_result idxs res resps h)) = length resps \<and> (let h' = snd (group_result idxs res resps h) in
     h_pool h' = h_pool h \<and> h_inflight h' = h_inflight h \<and> h_rules h' = h_rules h \<and> h_pool_rules h' = h_pool_rules h \<and> h_batch h' = h_batch h)"
  using apply_decisions_frame by (auto simp: group_result_def Let_def case_prod_beta fail_group_nth)

lemma group_result_nth:
  assumes "distinct idxs" "res = (Some l, e)" "length l = length idxs" "e = None \<or> e = Some (ErrUsedFallback x)" "j < length resps"
  shows "fst (group_result idxs res resps h) ! j =
     (case map_of (zip idxs l) j of None \<Rightarrow> resps ! j | Some d \<Rightarrow> fill_response d (resps ! j))"
  using assms apply_decisions_nth [OF assms(1,3,5)] by (auto simp: group_result_def Let_def)

lemma build_keys_length: "length (fst (build_keys grow picks valids idxs kb)) = length idxs"
  by (induction idxs arbitrary: kb) (auto simp: Let_def case_prod_beta split: option.split)

lemma build_keys_data:
  assumes "\<forall>j \<in> set idxs. \<exists>req. valids ! j = Some req"
  shows "map (\<lambda>k. case k of None \<Rightarrow> [] | Some b \<Rightarrow> bs_data b) (fst (build_keys grow picks valids idxs kb)) =
     map (\<lambda>j. let req = the (valids ! j) in plain_key (cr_TenantID req) (cr_UserID req) (cr_Resource req)) idxs"
  using assms by (induction idxs arbitrary: kb) (auto simp: Let_def case_prod_beta)

section \<open>One group\<close>

text \<open>The answer to a valid item of a batch.\<close>

definition item_answer :: "RuleCache \<Rightarrow> string \<Rightarrow> string \<Rightarrow> CheckLimitResponse \<Rightarrow> bool" where
  "item_answer rules t r resp \<longleftrightarrow>
     (if RuleCache_Get rules t r = None then resp = fail_resp ''RULE_NOT_FOUND'' zero_response
      else resp = fail_resp ''LIMITER_UNAVAILABLE'' zero_response \<or> (\<exists>d. resp = fill_response d zero_response))"

text \<open>What the loop over the groups keeps.\<close>

definition batch_ok :: "bool \<Rightarrow> LimiterHandle list \<Rightarrow> RateLimitHandler \<Rightarrow> nat \<Rightarrow> batch_state \<Rightarrow> bool" where
  "batch_ok late live h0 n = (\<lambda>(resps, h, be).
     length resps = n \<and> pool_ready late live (h_pool h) \<and> int (length (lp_shards (the (h_pool h)))) < 2 ^ 32
     \<and> be_fallback be \<noteq> None \<and> h_inflight h = h_inflight h0 \<and> h_rules h = h_rules h0 \<and> h_pool_rules h = h_pool_rules h0
     \<and> h_batch h = h_batch h0)"

lemma check_group_ok:
  assumes ok: "batch_ok late live h0 n (resps, h, be)"
    and ix: "distinct (contents (bg_Indexes grp))" "\<And>j. j \<in> set (contents (bg_Indexes grp)) \<Longrightarrow> j < n \<and> resps ! j = zero_response"
  shows "\<exists>resps' h' be'. check_group env valids g grp (resps, h, be) = Some (resps', h', be') \<and> batch_ok late live h0 n (resps', h', be')
     \<and> (\<forall>j < n. resps' ! j = resps ! j \<or> j \<in> set (contents (bg_Indexes grp)))
     \<and> (\<forall>j \<in> set (contents (bg_Indexes grp)). item_answer (the (h_rules h0)) (bg_TenantID grp) (bg_Resource grp) (resps' ! j))"
proof -
  let ?t = "bg_TenantID grp" and ?r = "bg_Resource grp" and ?ix = "contents (bg_Indexes grp)"
  from ok have o: "length resps = n" "pool_ready late live (h_pool h)" "int (length (lp_shards (the (h_pool h)))) < 2 ^ 32"
    "h_rules h = h_rules h0" by (auto simp: batch_ok_def)
  from ok obtain fl where fl: "be_fallback be = Some fl" by (auto simp: batch_ok_def)
  have fail: "(\<forall>j < n. fail_group code ?ix resps ! j = resps ! j \<or> j \<in> set ?ix)
      \<and> (\<forall>j \<in> set ?ix. fail_group code ?ix resps ! j = fail_resp code zero_response)" for code
    using ix o(1) by (auto simp: fail_group_nth)
  show ?thesis
  proof (cases "RuleCache_Get (the (h_rules h)) ?t ?r")
    case None
    with ok fail [of "''RULE_NOT_FOUND''"] o(4) show ?thesis
      by (auto simp: check_group_def Let_def batch_ok_def fail_group_nth(2) item_answer_def)
  next
    case (Some rule)
    from o(2) obtain pool where pool: "h_pool h = Some pool" "0 < length (lp_shards pool)" by (auto simp: pool_ready_def)
    from Acquire_total [of pool "h_pool_rules h" "Some be" ?t ?r] pool o(3)
    obtain res p1 f1 where a: "Acquire (h_pool_rules h) (Some be) (h_pool h) ?t ?r = Some (res, p1, f1)"
      by (auto simp del: Acquire.simps)
    from Acquire_backend [OF a] fl obtain be1 where be1: "f1 = Some be1" "be_fallback be1 = Some fl" by auto
    show ?thesis
    proof (cases res)
      case (Inl err)
      have "p1 = h_pool h" by (rule acquire_error [OF o(2) a [unfolded Inl]])
      with ok fail [of "''LIMITER_UNAVAILABLE''"] Some a Inl be1 o(4) show ?thesis
        by (auto simp: check_group_def Let_def batch_ok_def fail_group_nth(2) item_answer_def simp del: Acquire.simps)
    next
      case (Inr pr)
      then obtain handle rule1 where res: "res = Inr (handle, rule1)" by (cases pr) auto
      from acquire_release [OF o(2) a [unfolded res]] obtain pool1 where p1: "p1 = Some pool1"
        "pool_ready late live (Some (fst (LimiterHandle_Release pool1 handle)))"
        "length (lp_shards (fst (LimiterHandle_Release pool1 handle))) = length (lp_shards (the (h_pool h)))" by blast
      obtain ks kb where ks: "build_keys (bv_grow env) (bv_key_pick env) valids ?ix (h_keys h) = (ks, kb)" by fastforce
      let ?keys = "map (\<lambda>k. case k of None \<Rightarrow> [] | Some b \<Rightarrow> bs_data b) ks"
      obtain ds e be2 where ab: "redisLimiter_AllowBatch (bv_su env) (bv_clocks env g) be1 (Some (lh_lim handle)) ?keys (contents (bg_Costs grp)) = ((ds, e), be2)"
        by (metis prod.collapse)
      from limiter_batch_total [OF be1(2) ab] build_keys_length [of "bv_grow env" "bv_key_pick env" valids ?ix "h_keys h"] ks
      obtain l where l: "ds = Some l" "length l = length ?ix" "e = None \<or> e = Some (ErrUsedFallback ''fallback'')" by auto
      have fb2: "be_fallback be2 \<noteq> None"
        using AllowBatch_keeps [OF be1(2), of "bv_su env" "bv_clocks env g" "lh_lim handle" ?keys "contents (bg_Costs grp)"] ab by auto
      let ?h = "h\<lparr>h_pool := p1, h_keys := kb\<rparr>"
      obtain resps1 h1 where gr: "group_result ?ix (ds, e) resps ?h = (resps1, h1)" by fastforce
      have nth: "resps1 ! j = (case map_of (zip ?ix l) j of None \<Rightarrow> resps ! j | Some d \<Rightarrow> fill_response d (resps ! j))" if "j < n" for j
        using group_result_nth [OF ix(1) _ l(2,3), of "(ds, e)" j resps ?h] l(1) gr that o(1) by simp
      have out: "resps1 ! j = resps ! j \<or> j \<in> set ?ix" if "j < n" for j
        using nth [OF that] l(2) by (cases "map_of (zip ?ix l) j") (auto dest: map_of_SomeD set_zip_leftD)
      have "item_answer (the (h_rules h0)) ?t ?r (resps1 ! j)" if "j \<in> set ?ix" for j
      proof -
        from that l(2) obtain d where "map_of (zip ?ix l) j = Some d" by (metis map_of_zip_is_None not_Some_eq)
        with nth [of j] ix(2) [OF that] Some o(4) show ?thesis by (auto simp: item_answer_def)
      qed
      moreover have "check_group env valids g grp (resps, h, be) = Some (resps1,
          h1\<lparr>h_keys := release_keys ks (h_keys h1), h_pool := map_option (\<lambda>p. fst (LimiterHandle_Release p handle)) (h_pool h1)\<rparr>, be2)"
        using Some a res be1 ks ab gr by (simp add: check_group_def Let_def del: Acquire.simps redisLimiter_AllowBatch.simps)
      moreover note group_result_frame [of ?ix "(ds, e)" resps ?h, unfolded gr Let_def]
      ultimately show ?thesis using ok out p1 fb2 by (auto simp: batch_ok_def)
    qed
  qed
qed

text \<open>All groups: disjoint indexes, so each answer is written once.\<close>

lemma check_groups_ok:
  assumes "batch_ok late live h0 n st" "distinct (concat (map (contents \<circ> bg_Indexes) groups))"
    and "\<And>j. j \<in> set (concat (map (contents \<circ> bg_Indexes) groups)) \<Longrightarrow> j < n \<and> fst st ! j = zero_response"
  shows "\<exists>st'. check_groups env valids g groups st = Some st' \<and> batch_ok late live h0 n st'
     \<and> (\<forall>j < n. fst st' ! j = fst st ! j \<or> j \<in> set (concat (map (contents \<circ> bg_Indexes) groups)))
     \<and> (\<forall>grp \<in> set groups. \<forall>j \<in> set (contents (bg_Indexes grp)). item_answer (the (h_rules h0)) (bg_TenantID grp) (bg_Resource grp) (fst st' ! j))"
  using assms
proof (induction groups arbitrary: st g)
  case (Cons grp groups)
  obtain resps h be where st: "st = (resps, h, be)" by (metis prod_cases3)
  let ?ix = "contents (bg_Indexes grp)" and ?rest = "concat (map (contents \<circ> bg_Indexes) groups)"
  have d: "distinct ?ix" "distinct ?rest" "set ?ix \<inter> set ?rest = {}" using Cons.prems(2) by (auto simp: o_def)
  from check_group_ok [OF Cons.prems(1) [unfolded st] d(1), of env valids g] Cons.prems(3) st
  obtain resps1 h1 be1 where c: "check_group env valids g grp st = Some (resps1, h1, be1)" "batch_ok late live h0 n (resps1, h1, be1)"
    and c1: "\<forall>j < n. resps1 ! j = resps ! j \<or> j \<in> set ?ix"
    and c2: "\<forall>j \<in> set ?ix. item_answer (the (h_rules h0)) (bg_TenantID grp) (bg_Resource grp) (resps1 ! j)" by auto
  have "j < n \<and> fst (resps1, h1, be1) ! j = zero_response" if "j \<in> set ?rest" for j
  proof -
    have "j \<notin> set ?ix" using d(3) that by blast
    with Cons.prems(3) [of j] c1 that st show ?thesis by auto
  qed
  from Cons.IH [OF c(2) d(2) this, of "Suc g"] obtain st' where s: "check_groups env valids (Suc g) groups (resps1, h1, be1) = Some st'"
    "batch_ok late live h0 n st'" and s1: "\<forall>j < n. fst st' ! j = resps1 ! j \<or> j \<in> set ?rest"
    and s2: "\<forall>grp \<in> set groups. \<forall>j \<in> set (contents (bg_Indexes grp)). item_answer (the (h_rules h0)) (bg_TenantID grp) (bg_Resource grp) (fst st' ! j)"
    by auto
  have "fst st' ! j = resps1 ! j" if "j \<in> set ?ix" for j
  proof -
    have "j \<notin> set ?rest" using d(3) that by blast
    with s1 Cons.prems(3) [of j] that show ?thesis by auto
  qed
  moreover have "\<forall>j < n. fst st' ! j = resps ! j \<or> j \<in> set ?ix \<union> set ?rest" using c1 s1 by (metis UnCI)
  ultimately show ?case using c c2 s s2 st by auto
qed simp
section \<open>The whole batch\<close>

lemma any_sampled_total:
  assumes "small_counts h"
  shows "\<exists>b. any_sampled h reqs = Some b"
proof (induction reqs)
  case (Cons r reqs)
  then show ?case
    using is_sampled_total [OF assms, of "cr_TraceID (the r)"] by (cases r) (force split: bool.splits)+
qed (rule exI [of _ False], simp)

lemma recordItems_frame:
  "h_pool (fold (\<lambda>resp h. recordBatchItemError h (Some resp)) resps h) = h_pool h
   \<and> h_inflight (fold (\<lambda>resp h. recordBatchItemError h (Some resp)) resps h) = h_inflight h"
  by (induction resps arbitrary: h) auto

lemma plan_indexes:
  assumes "Plan picks (Some bp) valids = (plan, bp')" "\<forall>req. Some req \<in> set valids \<longrightarrow> sep \<notin> set (cr_TenantID req)"
  shows "distinct (concat (map (contents \<circ> bg_Indexes) (pl_Groups plan)))"
    and "set (concat (map (contents \<circ> bg_Indexes) (pl_Groups plan))) = {i. i < length valids \<and> valids ! i \<noteq> None}"
    and "grp \<in> set (pl_Groups plan) \<Longrightarrow> j \<in> set (contents (bg_Indexes grp)) \<Longrightarrow>
      \<exists>req. valids ! j = Some req \<and> cr_TenantID req = bg_TenantID grp \<and> cr_Resource req = bg_Resource grp"
proof -
  let ?f = "filter (\<lambda>i. valids ! i \<noteq> None) [0..<length valids]"
  have g: "pl_Groups plan = ref_groups (numbered 0 valids)" using ref_plan [of picks bp valids] assms(1) by simp
  then have c: "map (contents \<circ> bg_Indexes) (pl_Groups plan) = map (the \<circ> bg_Indexes) (pl_Groups plan)"
    by (auto simp: ref_groups_def ref_group_def contents_def)
  have m: "mset (concat (map (contents \<circ> bg_Indexes) (pl_Groups plan))) = mset ?f"
    unfolding c using plan_partition [OF assms(2), of picks bp] assms(1) by simp
  then show "distinct (concat (map (contents \<circ> bg_Indexes) (pl_Groups plan)))" by (metis distinct_filter distinct_upt mset_eq_imp_distinct_iff)
  show "set (concat (map (contents \<circ> bg_Indexes) (pl_Groups plan))) = {i. i < length valids \<and> valids ! i \<noteq> None}"
    using mset_eq_setD [OF m] by auto
  show "\<exists>req. valids ! j = Some req \<and> cr_TenantID req = bg_TenantID grp \<and> cr_Resource req = bg_Resource grp"
    if "grp \<in> set (pl_Groups plan)" "j \<in> set (contents (bg_Indexes grp))"
  proof -
    have "contents (bg_Indexes grp) = the (bg_Indexes grp)" using that(1) g by (auto simp: ref_groups_def ref_group_def contents_def)
    with that(2) obtain k where "k < length (the (bg_Indexes grp))" "j = the (bg_Indexes grp) ! k" by (metis in_set_conv_nth)
    with plan_partition [OF assms(2), of picks bp] assms(1) that(1) show ?thesis by fastforce
  qed
qed

lemma batch_body_ok:
  assumes sc: "small_counts h" and pr: "pool_ready late live (h_pool h)" and fb: "be_fallback be \<noteq> None"
    and tn: "\<forall>req. Some req \<in> set reqs \<longrightarrow> sep \<notin> set (cr_TenantID req)"
  shows "\<exists>resps h' be'. batch_body env be h reqs = Some (resps, h', be') \<and> length resps = length reqs
     \<and> pool_ready late live (h_pool h') \<and> h_inflight h' = h_inflight h
     \<and> (\<forall>i < length reqs. case valid_item (reqs ! i) of
          None \<Rightarrow> resps ! i = fail_resp (item_code (reqs ! i)) zero_response
        | Some req \<Rightarrow> item_answer (the (h_rules h)) (cr_TenantID req) (cr_Resource req) (resps ! i))"
proof -
  obtain resps valids rp where v: "validate_loop (bv_resp_pick env) 0 reqs (h_respPool h) = (resps, valids, rp)" by (metis prod_cases3)
  with validate_loop_spec [of "bv_resp_pick env" 0 reqs "h_respPool h"]
  have vs: "resps = map first_resp reqs" "valids = map valid_item reqs" by auto
  obtain bp where bp: "or_new newBatchPlanner (h_batch h) = Some bp" by (cases "h_batch h") (auto simp: or_new_def)
  obtain plan bp1 where pl: "Plan (bv_plan_picks env) (Some bp) valids = (plan, bp1)" by fastforce
  let ?h1 = "h\<lparr>h_respPool := rp, h_batch := bp1\<rparr>" and ?n = "length reqs"
  have tv: "\<forall>req. Some req \<in> set valids \<longrightarrow> sep \<notin> set (cr_TenantID req)" using tn by (auto simp: vs valid_item_Some dest!: sym [of "Some _"])
  note P = plan_indexes [OF pl tv]
  have "small_counts ?h1" using sc by (simp add: small_counts_def)
  from any_sampled_total [OF this, of reqs] obtain smp where smp: "any_sampled ?h1 reqs = Some smp" by blast
  have zero: "resps ! j = zero_response" if "j < ?n" "valids ! j \<noteq> None" for j
    using that by (auto simp: vs first_resp_def valid_item_Some)
  have b0: "batch_ok late live ?h1 ?n (resps, ?h1, be)"
    using pr fb sc vs(1) by (auto simp: batch_ok_def small_counts_def pool_ready_def)
  have z: "j < ?n \<and> fst (resps, ?h1, be) ! j = zero_response" if "j \<in> set (concat (map (contents \<circ> bg_Indexes) (pl_Groups plan)))" for j
  proof -
    have "j < ?n" "valids ! j \<noteq> None" using that unfolding P(2) by (auto simp: vs(2))
    with zero show ?thesis by simp
  qed
  from check_groups_ok [OF b0 P(1) z, of env valids 0] obtain resps1 h2 be1
    where c: "check_groups env valids 0 (pl_Groups plan) (resps, ?h1, be) = Some (resps1, h2, be1)" "batch_ok late live ?h1 ?n (resps1, h2, be1)"
      and c1: "\<forall>j < ?n. resps1 ! j = resps ! j \<or> j \<in> set (concat (map (contents \<circ> bg_Indexes) (pl_Groups plan)))"
      and c2: "\<forall>grp \<in> set (pl_Groups plan). \<forall>j \<in> set (contents (bg_Indexes grp)). item_answer (the (h_rules h)) (bg_TenantID grp) (bg_Resource grp) (resps1 ! j)"
    by (auto simp del: concat.simps)
  let ?h3 = "fold (\<lambda>resp h. recordBatchItemError h (Some resp)) resps1 h2"
  have "case valid_item (reqs ! i) of
          None \<Rightarrow> resps1 ! i = fail_resp (item_code (reqs ! i)) zero_response
        | Some req \<Rightarrow> item_answer (the (h_rules h)) (cr_TenantID req) (cr_Resource req) (resps1 ! i)" if i: "i < ?n" for i
  proof (cases "valid_item (reqs ! i)")
    case None
    then have "i \<notin> set (concat (map (contents \<circ> bg_Indexes) (pl_Groups plan)))" using i unfolding P(2) by (simp add: vs(2))
    with c1 i have "resps1 ! i = first_resp (reqs ! i)" by (auto simp: vs(1))
    with None show ?thesis by (cases "reqs ! i") (auto simp: first_resp_def valid_item_def item_code_None split: if_splits)
  next
    case (Some req)
    then have "i \<in> set (concat (map (contents \<circ> bg_Indexes) (pl_Groups plan)))" using i unfolding P(2) by (simp add: vs(2))
    then obtain grp where grp: "grp \<in> set (pl_Groups plan)" "i \<in> set (contents (bg_Indexes grp))" by auto
    from P(3) [OF grp] Some i have "cr_TenantID req = bg_TenantID grp" "cr_Resource req = bg_Resource grp" by (auto simp: vs(2))
    with c2 grp Some show ?thesis by auto
  qed
  moreover have "batch_body env be h reqs = Some (resps1, ?h3\<lparr>h_batch := fst (Plan_Release (h_batch ?h3) (Some plan))\<rparr>, be1)"
    using v bp pl smp c(1) by (simp add: batch_body_def Let_def case_prod_beta)
  ultimately show ?thesis using c(2) recordItems_frame [of resps1 h2] by (auto simp: batch_ok_def)
qed

definition sample_benv :: batch_env where
  "sample_benv = \<lparr>bv_su = sample_surroundings, bv_clocks = (\<lambda>g. sample_clocks 100), bv_start = 100, bv_end = 105, bv_resp_pick = (\<lambda>i. None),
     bv_plan_picks = (\<lambda>i. (None, None, None)), bv_key_pick = (\<lambda>i. None), bv_grow = (\<lambda>c n. n)\<rparr>"

end
