(* ===== verification/Go_Conv.thy ===== *)
theory Go_Conv
  imports Go_Base
begin

text \<open>
  The conversions of \<^verbatim>\<open>strconv\<close> and \<^verbatim>\<open>strings\<close> that configuration, transports and outbox
  rely on: \<^verbatim>\<open>ParseInt(s, 10, 64)\<close>, \<^verbatim>\<open>ParseBool\<close>, \<^verbatim>\<open>SplitN(s, sep, 2)\<close>, and that
  \<^verbatim>\<open>ParseInt\<close> reads back what \<^verbatim>\<open>FormatInt\<close> and \<^verbatim>\<open>%d\<close> print.
\<close>

section \<open>Definitions\<close>

definition is_digit :: "char \<Rightarrow> bool" where
  "is_digit c \<longleftrightarrow> 48 \<le> (of_char c :: nat) \<and> (of_char c :: nat) \<le> 57"

definition dec_value :: "string \<Rightarrow> nat" where
  "dec_value s = foldl (\<lambda>n c. 10 * n + (of_char c - 48)) 0 s"

text \<open>
  A sign is optional, at least one digit is required, nothing else may follow, and a value
  out of the range of \<^verbatim>\<open>int64\<close> is an error.
\<close>

definition parse_magnitude :: "string \<Rightarrow> nat option" where
  "parse_magnitude s = (if s \<noteq> [] \<and> list_all is_digit s then Some (dec_value s) else None)"

definition ParseInt :: "string \<Rightarrow> int64 option" where
  "ParseInt s =
     (case s of
        [] \<Rightarrow> None
      | c # r \<Rightarrow>
          (case parse_magnitude (if c = CHR ''-'' \<or> c = CHR ''+'' then r else s) of
             None \<Rightarrow> None
           | Some n \<Rightarrow>
               (let v = (if c = CHR ''-'' then - int n else int n)
                in if in_int64 v then Some v else None)))"

definition ParseBool :: "string \<Rightarrow> bool option" where
  "ParseBool s =
     (if s \<in> set [''1'', ''t'', ''T'', ''TRUE'', ''true'', ''True''] then Some True
      else if s \<in> set [''0'', ''f'', ''F'', ''FALSE'', ''false'', ''False''] then Some False
      else None)"

text \<open>\<^verbatim>\<open>strings.SplitN(s, c, 2)\<close> for a one-byte separator.\<close>

definition SplitN2 :: "char \<Rightarrow> string \<Rightarrow> string list" where
  "SplitN2 c s = (case dropWhile (\<lambda>x. x \<noteq> c) s of
      [] \<Rightarrow> [s] | _ # r \<Rightarrow> [takeWhile (\<lambda>x. x \<noteq> c) s, r])"

section \<open>Facts\<close>

declare digits_nonempty [simp]

lemma of_char_of_digit: "n < 10 \<Longrightarrow> (of_char (char_of (48 + n) :: char) :: nat) = 48 + n"
  by simp

lemma is_digit_of: "n < 10 \<Longrightarrow> is_digit (char_of (48 + n :: nat))"
  by (simp add: is_digit_def)

lemma digits_all: "list_all is_digit (digits n)"
proof (induction n rule: digits.induct)
  case (1 n)
  then show ?case by (subst digits.simps) (simp add: is_digit_of)
qed

lemma dec_value_snoc: "dec_value (s @ [c]) = 10 * dec_value s + (of_char c - 48)"
  by (simp add: dec_value_def)

lemma dec_value_digits [simp]: "dec_value (digits n) = n"
proof (induction n rule: digits.induct)
  case (1 n)
  then show ?case
    by (subst digits.simps) (auto simp: dec_value_snoc dec_value_def [of "[_]"])
qed

lemma parse_magnitude_digits [simp]: "parse_magnitude (digits n) = Some n"
  by (simp add: parse_magnitude_def digits_all)

lemma digits_head: "digits n = c # r \<Longrightarrow> c \<noteq> CHR ''-'' \<and> c \<noteq> CHR ''+''"
  using digits_all [of n] by (auto simp: is_digit_def)

text \<open>\<^verbatim>\<open>ParseInt\<close> reads back every \<^verbatim>\<open>int64\<close> that \<^verbatim>\<open>FormatInt\<close> prints.\<close>

lemma ParseInt_FormatInt:
  assumes "in_int64 n"
  shows "ParseInt (FormatInt n) = Some n"
proof (cases "n < 0")
  case True
  with assms show ?thesis by (simp add: ParseInt_def FormatInt_def Let_def)
next
  case False
  obtain c r where d: "digits (nat n) = c # r" by (cases "digits (nat n)") auto
  then have m: "parse_magnitude (c # r) = Some (nat n)" using parse_magnitude_digits by metis
  from d digits_head have "c \<noteq> CHR ''-''" "c \<noteq> CHR ''+''" by auto
  with False d m assms show ?thesis by (simp add: ParseInt_def FormatInt_def Let_def)
qed

lemma ParseInt_range: "ParseInt s = Some n \<Longrightarrow> in_int64 n"
  by (auto simp: ParseInt_def Let_def split: list.splits option.splits if_splits)

lemma FormatInt_nonempty [simp]: "FormatInt n \<noteq> []"
  by (simp add: FormatInt_def)

lemma dropWhile_no_sep: "c \<notin> set s \<Longrightarrow> dropWhile (\<lambda>x. x \<noteq> c) s = []"
  by (induction s) auto

lemma SplitN2_no_sep: "c \<notin> set s \<Longrightarrow> SplitN2 c s = [s]"
  by (simp add: SplitN2_def dropWhile_no_sep)

lemma dropWhile_sep: "c \<notin> set k \<Longrightarrow> dropWhile (\<lambda>x. x \<noteq> c) (k @ c # v) = c # v"
  by (induction k) auto

lemma takeWhile_sep: "c \<notin> set k \<Longrightarrow> takeWhile (\<lambda>x. x \<noteq> c) (k @ c # v) = k"
  by (induction k) auto

lemma SplitN2_sep: "c \<notin> set k \<Longrightarrow> SplitN2 c (k @ c # v) = [k, v]"
  by (simp add: SplitN2_def dropWhile_sep takeWhile_sep)

end
