(* ===== verification/Outbox.thy ===== *)
theory Outbox
  imports Go_Conv "HOL-Library.Multiset"
begin

text \<open>
  The transactional outbox of the control plane: the rows an administrative write appends
  (\<^verbatim>\<open>store/inmemory/outbox_inmemory.go\<close>), the channel that carries them to the subscribers
  (\<^verbatim>\<open>store/inmemory/pubsub_inmemory.go\<close>) and the publisher that moves them from one to the other
  (\<^verbatim>\<open>core/outbox_publisher.go\<close>). The publisher is written against the interface of an outbox,
  stated as the locale \<open>outbox_store\<close> and interpreted on the in-memory outbox. A goroutine that a
  function starts is a value in its result.
\<close>

section \<open>The in-memory outbox\<close>

record OutboxRow =
  ro_ID :: string
  ro_Data :: string

record outboxEntry =
  oe_row :: OutboxRow
  oe_sent :: bool

record InMemoryOutbox =
  ob_entries :: "outboxEntry list"
  ob_counter :: int64

definition NewInMemoryOutbox :: InMemoryOutbox where
  "NewInMemoryOutbox = \<lparr>ob_entries = [], ob_counter = 0\<rparr>"

text \<open>
  \<^verbatim>\<open>Insert\<close> draws the identifier with an atomic addition before it takes the lock, so that other
  inserts may come between its two steps.
\<close>

definition Insert_draw :: "InMemoryOutbox \<Rightarrow> string \<times> InMemoryOutbox" where
  "Insert_draw ob =
     (let n = wrap64 (ob_counter ob + 1) in (FormatInt n, ob\<lparr>ob_counter := n\<rparr>))"

definition Insert_append :: "InMemoryOutbox \<Rightarrow> string \<Rightarrow> string \<Rightarrow> InMemoryOutbox" where
  "Insert_append ob id' data =
     ob\<lparr>ob_entries := ob_entries ob @ [\<lparr>oe_row = \<lparr>ro_ID = id', ro_Data = data\<rparr>, oe_sent = False\<rparr>]\<rparr>"

fun Outbox_Insert :: "InMemoryOutbox option \<Rightarrow> string \<Rightarrow> (go_error + string) \<times> InMemoryOutbox option" where
  "Outbox_Insert None data = (Inl (ErrorString ''outbox is nil''), None)"
| "Outbox_Insert (Some ob) data =
     (let (id', ob1) = Insert_draw ob in (Inr id', Some (Insert_append ob1 id' data)))"

fun fetch_loop :: "int \<Rightarrow> outboxEntry list \<Rightarrow> OutboxRow list \<Rightarrow> OutboxRow list" where
  "fetch_loop limit [] rows = rows"
| "fetch_loop limit (e # es) rows =
     (if oe_sent e then fetch_loop limit es rows
      else let rows' = rows @ [oe_row e]
           in if int (length rows') \<ge> limit then rows' else fetch_loop limit es rows')"

fun FetchPending :: "InMemoryOutbox option \<Rightarrow> int \<Rightarrow> go_error + OutboxRow list" where
  "FetchPending None limit = Inl (ErrorString ''outbox is nil'')"
| "FetchPending (Some ob) limit =
     (if limit \<le> 0 then Inr [] else Inr (fetch_loop limit (ob_entries ob) []))"

fun mark_loop :: "string \<Rightarrow> outboxEntry list \<Rightarrow> outboxEntry list option" where
  "mark_loop id' [] = None"
| "mark_loop id' (e # es) =
     (if ro_ID (oe_row e) = id' then Some (e\<lparr>oe_sent := True\<rparr> # es)
      else map_option (Cons e) (mark_loop id' es))"

fun MarkSent :: "InMemoryOutbox option \<Rightarrow> string \<Rightarrow> (go_error + unit) \<times> InMemoryOutbox option" where
  "MarkSent None id' = (Inl (ErrorString ''outbox is nil''), None)"
| "MarkSent (Some ob) id' =
     (if id' = [] then (Inl (ErrorString ''id is required''), Some ob)
      else case mark_loop id' (ob_entries ob) of
             None \<Rightarrow> (Inl (ErrorString ''outbox row not found''), Some ob)
           | Some es \<Rightarrow> (Inr (), Some (ob\<lparr>ob_entries := es\<rparr>)))"

section \<open>The in-memory channel\<close>

text \<open>
  A context is named by a number, 0 being the background context, and \<open>done_ctx\<close> says which are
  finished. A subscription's handler is a value of a type that stands for the callbacks.
  \<open>Subscribe\<close> starts a goroutine that removes the subscription when its context is finished,
  \<open>Publish\<close> one for every delivery.
\<close>

type_synonym ctx = nat

abbreviation (input) Background :: ctx where "Background \<equiv> 0"

record 'h pubSubSubscription =
  sb_ctx :: ctx
  sb_handler :: 'h

type_synonym 'h subs = "(int64, 'h pubSubSubscription) gomap"

record 'h InMemoryPubSub =
  ps_subs :: "(string, 'h subs) gomap option"
  ps_next :: int64

record remover =
  rm_ctx :: ctx
  rm_channel :: string
  rm_id :: int64

record 'h delivery =
  dl_ctx :: ctx
  dl_handler :: 'h
  dl_data :: string

definition NewInMemoryPubSub :: "'h InMemoryPubSub" where
  "NewInMemoryPubSub = \<lparr>ps_subs = Some [], ps_next = 0\<rparr>"

fun PubSub_Subscribe ::
  "'h InMemoryPubSub option \<Rightarrow> ctx option \<Rightarrow> string \<Rightarrow> 'h option
     \<Rightarrow> (go_error + remover) \<times> 'h InMemoryPubSub option" where
  "PubSub_Subscribe None c channel handler = (Inl (ErrorString ''pubsub is nil''), None)"
| "PubSub_Subscribe (Some ps) c channel handler =
     (if channel = [] then (Inl (ErrorString ''channel is required''), Some ps)
      else case handler of
        None \<Rightarrow> (Inl (ErrorString ''handler is required''), Some ps)
      | Some h \<Rightarrow>
          (let c' = (case c of None \<Rightarrow> Background | Some c' \<Rightarrow> c');
               all = (case ps_subs ps of None \<Rightarrow> [] | Some m \<Rightarrow> m);
               n = wrap64 (ps_next ps + 1);
               chan = (case gm_get all channel of None \<Rightarrow> [] | Some m \<Rightarrow> m);
               chan' = gm_put n \<lparr>sb_ctx = c', sb_handler = h\<rparr> chan
           in (Inr \<lparr>rm_ctx = c', rm_channel = channel, rm_id = n\<rparr>,
               Some \<lparr>ps_subs = Some (gm_put channel chan' all), ps_next = n\<rparr>)))"

fun PubSub_Publish ::
  "(ctx \<Rightarrow> bool) \<Rightarrow> 'h InMemoryPubSub option \<Rightarrow> string \<Rightarrow> string \<Rightarrow> go_error + 'h delivery list" where
  "PubSub_Publish done_ctx None channel payload = Inl (ErrorString ''pubsub is nil'')"
| "PubSub_Publish done_ctx (Some ps) channel payload =
     (if channel = [] then Inl (ErrorString ''channel is required'')
      else
        let all = (case ps_subs ps of None \<Rightarrow> [] | Some m \<Rightarrow> m);
            subs = (case gm_get all channel of None \<Rightarrow> [] | Some m \<Rightarrow> gm_vals m);
            live = filter (\<lambda>s. \<not> done_ctx (sb_ctx s)) subs
        in Inr (map (\<lambda>s. \<lparr>dl_ctx = sb_ctx s, dl_handler = sb_handler s, dl_data = payload\<rparr>) live))"

definition PubSub_remove :: "'h InMemoryPubSub \<Rightarrow> string \<Rightarrow> int64 \<Rightarrow> 'h InMemoryPubSub" where
  "PubSub_remove ps channel n =
     (case ps_subs ps of
        None \<Rightarrow> ps
      | Some all \<Rightarrow>
          (case gm_get all channel of
             None \<Rightarrow> ps
           | Some chan \<Rightarrow>
               (let chan' = gm_del n chan
                in ps\<lparr>ps_subs := Some (if chan' = [] then gm_del channel all
                                       else gm_put channel chan' all)\<rparr>)))"

section \<open>The publisher\<close>

text \<open>
  The publisher holds references to an outbox and a channel, which other components share; here
  the operations of both are arguments. \<open>Start\<close> checks its configuration and chooses the period;
  every tick then runs \<open>OutboxPublisher_tick\<close>.
\<close>

record OutboxPublisher =
  op_outbox :: "nat option"
  op_pubsub :: "nat option"
  op_channel :: string
  op_interval :: duration

definition NewOutboxPublisher :: "nat option \<Rightarrow> nat option \<Rightarrow> string \<Rightarrow> duration \<Rightarrow> OutboxPublisher" where
  "NewOutboxPublisher outbox pubsub channel interval =
     \<lparr>op_outbox = outbox, op_pubsub = pubsub, op_channel = channel, op_interval = interval\<rparr>"

definition OutboxPublisher_Start :: "OutboxPublisher option \<Rightarrow> go_error + duration" where
  "OutboxPublisher_Start p =
     (case p of
        None \<Rightarrow> Inl (ErrorString ''outbox publisher is not configured'')
      | Some q \<Rightarrow>
          if op_outbox q = None \<or> op_pubsub q = None
          then Inl (ErrorString ''outbox publisher is not configured'')
          else Inr (if op_interval q \<le> 0 then 50 * Millisecond else op_interval q))"

fun publish_rows ::
  "('o \<Rightarrow> string \<Rightarrow> (go_error + unit) \<times> 'o) \<Rightarrow> (string \<Rightarrow> go_error + 'd list)
     \<Rightarrow> OutboxRow list \<Rightarrow> 'o \<Rightarrow> 'o \<times> 'd list" where
  "publish_rows mark publish [] ob = (ob, [])"
| "publish_rows mark publish (row # rows) ob =
     (case publish (ro_Data row) of
        Inl err \<Rightarrow> publish_rows mark publish rows ob
      | Inr ds \<Rightarrow>
          (let ob1 = snd (mark ob (ro_ID row));
               (ob2, ds2) = publish_rows mark publish rows ob1
           in (ob2, ds @ ds2)))"

definition OutboxPublisher_tick ::
  "('o \<Rightarrow> int \<Rightarrow> go_error + OutboxRow list) \<Rightarrow> ('o \<Rightarrow> string \<Rightarrow> (go_error + unit) \<times> 'o)
     \<Rightarrow> (string \<Rightarrow> go_error + 'd list) \<Rightarrow> 'o \<Rightarrow> 'o \<times> 'd list" where
  "OutboxPublisher_tick fetch mark publish ob =
     (case fetch ob 100 of
        Inl err \<Rightarrow> (ob, [])
      | Inr rows \<Rightarrow> publish_rows mark publish rows ob)"

definition OutboxPublisher_SetInterval :: "OutboxPublisher option \<Rightarrow> duration \<Rightarrow> OutboxPublisher option" where
  "OutboxPublisher_SetInterval p interval = map_option (\<lambda>q. q\<lparr>op_interval := interval\<rparr>) p"

text \<open>Successive ticks, with the deliveries they start.\<close>

fun ticks ::
  "('o \<Rightarrow> int \<Rightarrow> go_error + OutboxRow list) \<Rightarrow> ('o \<Rightarrow> string \<Rightarrow> (go_error + unit) \<times> 'o)
     \<Rightarrow> (string \<Rightarrow> go_error + 'd list) \<Rightarrow> nat \<Rightarrow> 'o \<Rightarrow> 'o \<times> 'd list" where
  "ticks fetch mark publish 0 ob = (ob, [])"
| "ticks fetch mark publish (Suc k) ob =
     (let (ob1, d1) = OutboxPublisher_tick fetch mark publish ob;
          (ob2, d2) = ticks fetch mark publish k ob1
      in (ob2, d1 @ d2))"

section \<open>What the publisher relies on\<close>

text \<open>
  The contract of an outbox: the rows not yet sent, oldest first, with distinct identifiers;
  \<open>fetch\<close> returns the first of them and \<open>mark\<close> removes one.
\<close>

definition the_right :: "'a + 'd list \<Rightarrow> 'd list" where
  "the_right r = (case r of Inl _ \<Rightarrow> [] | Inr ds \<Rightarrow> ds)"

definition row_payload :: "(string \<Rightarrow> go_error + 'd list) \<Rightarrow> OutboxRow \<Rightarrow> 'd list" where
  "row_payload publish r = the_right (publish (ro_Data r))"

definition row_fails :: "(string \<Rightarrow> go_error + 'd list) \<Rightarrow> OutboxRow \<Rightarrow> bool" where
  "row_fails publish r \<longleftrightarrow> isl (publish (ro_Data r))"

lemma filter_unsent_take:
  assumes "distinct (map ro_ID xs)"
  shows "filter (\<lambda>r. r \<in> set (take n xs) \<longrightarrow> P r) xs = filter P (take n xs) @ drop n xs"
proof -
  have d: "set (take n xs) \<inter> set (drop n xs) = {}"
    using set_take_disj_set_drop_if_distinct [of xs n n] distinct_map assms by blast
  have "filter (\<lambda>r. r \<in> set (take n xs) \<longrightarrow> P r) (take n xs @ drop n xs)
      = filter P (take n xs) @ filter (\<lambda>r. True) (drop n xs)"
    unfolding filter_append using d by (intro arg_cong2 [where f = append] filter_cong) auto
  then show ?thesis by simp
qed

locale outbox_store =
  fixes fetch :: "'o \<Rightarrow> int \<Rightarrow> go_error + OutboxRow list"
    and mark :: "'o \<Rightarrow> string \<Rightarrow> (go_error + unit) \<times> 'o"
    and pending :: "'o \<Rightarrow> OutboxRow list"
    and inv :: "'o \<Rightarrow> bool"
  assumes fetch_ok: "inv ob \<Longrightarrow> 0 < n \<Longrightarrow> fetch ob n = Inr (take (nat n) (pending ob))"
    and mark_inv: "inv ob \<Longrightarrow> inv (snd (mark ob i))"
    and mark_pending: "inv ob \<Longrightarrow> row \<in> set (pending ob)
      \<Longrightarrow> pending (snd (mark ob (ro_ID row))) = filter (\<lambda>r. ro_ID r \<noteq> ro_ID row) (pending ob)"
    and ids_distinct: "inv ob \<Longrightarrow> distinct (map ro_ID (pending ob))"
begin

lemma same_row: "inv ob \<Longrightarrow> r \<in> set (pending ob) \<Longrightarrow> s \<in> set (pending ob) \<Longrightarrow> ro_ID r = ro_ID s \<Longrightarrow> r = s"
  using ids_distinct by (auto simp: distinct_map dest: inj_onD)

lemma rows_published:
  assumes "inv ob" "distinct rows" "set rows \<subseteq> set (pending ob)"
    and "publish_rows mark publish rows ob = (ob', ds)"
  shows "inv ob' \<and> ds = concat (map (row_payload publish) rows)
      \<and> pending ob' = filter (\<lambda>r. r \<in> set rows \<longrightarrow> row_fails publish r) (pending ob)"
  using assms
proof (induction rows arbitrary: ob ob' ds)
  case Nil
  then show ?case by simp
next
  case (Cons row rows)
  note a = Cons.prems
  from a have d: "distinct rows" by simp
  show ?case
  proof (cases "publish (ro_Data row)")
    case (Inl e)
    with a have q: "publish_rows mark publish rows ob = (ob', ds)" by simp
    from a have s: "set rows \<subseteq> set (pending ob)" by simp
    have "(\<lambda>r. r \<in> set rows \<longrightarrow> row_fails publish r) = (\<lambda>r. r \<in> set (row # rows) \<longrightarrow> row_fails publish r)"
      using Inl by (auto simp: row_fails_def)
    moreover have "row_payload publish row = []" using Inl by (simp add: row_payload_def the_right_def)
    ultimately show ?thesis using Cons.IH [OF a(1) d s q] by (metis append_Nil concat.simps(2) list.simps(9))
  next
    case (Inr d1)
    define ob1 where "ob1 = snd (mark ob (ro_ID row))"
    from a Inr obtain d2 where q: "publish_rows mark publish rows ob1 = (ob', d2)" "ds = d1 @ d2"
      by (auto simp: ob1_def split: prod.splits)
    have i1: "inv ob1" using a by (simp add: ob1_def mark_inv)
    have p1: "pending ob1 = filter (\<lambda>r. r \<noteq> row) (pending ob)"
      unfolding ob1_def using a same_row by (subst mark_pending) (auto intro!: filter_cong)
    have s1: "set rows \<subseteq> set (pending ob1)" using a by (auto simp: p1)
    have "(\<lambda>r. r \<noteq> row \<and> (r \<in> set rows \<longrightarrow> row_fails publish r))
        = (\<lambda>r. r \<in> set (row # rows) \<longrightarrow> row_fails publish r)"
      using a(2) Inr by (auto simp: row_fails_def)
    then have "filter (\<lambda>r. r \<in> set rows \<longrightarrow> row_fails publish r) (pending ob1)
        = filter (\<lambda>r. r \<in> set (row # rows) \<longrightarrow> row_fails publish r) (pending ob)"
      by (simp only: p1 filter_filter)
    moreover have "row_payload publish row = d1" using Inr by (simp add: row_payload_def the_right_def)
    ultimately show ?thesis using Cons.IH [OF i1 d s1 q(1)] q(2) by simp
  qed
qed

lemma tick_effect:
  assumes "inv ob" and "OutboxPublisher_tick fetch mark publish ob = (ob', ds)"
  shows "inv ob'"
    and "pending ob' = filter (row_fails publish) (take 100 (pending ob)) @ drop 100 (pending ob)"
    and "ds = concat (map (row_payload publish) (take 100 (pending ob)))"
proof -
  let ?rows = "take 100 (pending ob)"
  from assms have "publish_rows mark publish ?rows ob = (ob', ds)"
    by (simp add: OutboxPublisher_tick_def fetch_ok)
  moreover have "distinct ?rows" "set ?rows \<subseteq> set (pending ob)"
    using ids_distinct [OF assms(1)] by (auto simp: distinct_map dest: in_set_takeD)
  ultimately have *: "inv ob'" "ds = concat (map (row_payload publish) ?rows)"
      "pending ob' = filter (\<lambda>r. r \<in> set ?rows \<longrightarrow> row_fails publish r) (pending ob)"
    using rows_published assms(1) by blast+
  from * show "inv ob'" "ds = concat (map (row_payload publish) ?rows)" by blast+
  from *(3) filter_unsent_take [OF ids_distinct [OF assms(1)], of 100 "row_fails publish"]
  show "pending ob' = filter (row_fails publish) ?rows @ drop 100 (pending ob)" by metis
qed

lemma ticks_drain:
  assumes "inv ob" "list_all (\<lambda>r. \<not> row_fails publish r) (pending ob)"
    and "ticks fetch mark publish k ob = (ob', ds)"
  shows "inv ob' \<and> pending ob' = drop (100 * k) (pending ob)
      \<and> ds = concat (map (row_payload publish) (take (100 * k) (pending ob)))"
  using assms
proof (induction k arbitrary: ob ob' ds)
  case 0
  then show ?case by simp
next
  case (Suc k)
  from Suc.prems(3) obtain ob1 d1 d2 where
    t: "OutboxPublisher_tick fetch mark publish ob = (ob1, d1)"
       "ticks fetch mark publish k ob1 = (ob', d2)" "ds = d1 @ d2"
    by (auto split: prod.splits)
  note e = tick_effect [OF Suc.prems(1) t(1)]
  have "filter (row_fails publish) (take 100 (pending ob)) = []"
    using Suc.prems(2) by (auto simp: filter_empty_conv list_all_iff dest: in_set_takeD)
  with e have p: "pending ob1 = drop 100 (pending ob)" by simp
  have "list_all (\<lambda>r. \<not> row_fails publish r) (pending ob1)"
    using Suc.prems(2) by (auto simp: p list_all_iff dest: in_set_dropD)
  note ih = Suc.IH [OF e(1) this t(2)]
  have "take (100 * Suc k) (pending ob) = take 100 (pending ob) @ take (100 * k) (drop 100 (pending ob))"
    using take_add [of 100 "100 * k" "pending ob"] by (simp add: algebra_simps)
  with ih e t(3) show ?case by (simp add: p add.commute)
qed

end

section \<open>The in-memory outbox keeps the contract\<close>

definition pending :: "InMemoryOutbox option \<Rightarrow> OutboxRow list" where
  "pending ob = (case ob of None \<Rightarrow> [] | Some b \<Rightarrow> map oe_row (filter (\<lambda>e. \<not> oe_sent e) (ob_entries b)))"

definition ob_ids :: "InMemoryOutbox \<Rightarrow> string list" where
  "ob_ids ob = map (ro_ID \<circ> oe_row) (ob_entries ob)"

definition rows_ok :: "InMemoryOutbox option \<Rightarrow> bool" where
  "rows_ok ob = (case ob of None \<Rightarrow> False | Some b \<Rightarrow> distinct (ob_ids b) \<and> [] \<notin> set (ob_ids b))"

lemma fetch_loop_take:
  "int (length rows) < limit \<Longrightarrow>
     fetch_loop limit es rows
       = rows @ take (nat limit - length rows) (map oe_row (filter (\<lambda>e. \<not> oe_sent e) es))"
proof (induction es arbitrary: rows)
  case Nil
  then show ?case by simp
next
  case (Cons e es)
  show ?case
  proof (cases "oe_sent e \<or> int (length rows) + 1 < limit")
    case True
    moreover have "nat limit - length rows = Suc (nat limit - Suc (length rows))"
      using Cons.prems by linarith
    ultimately show ?thesis using Cons by (auto simp: Let_def)
  next
    case False
    then have "nat limit - length rows = 1" using Cons.prems by linarith
    with False show ?thesis by (simp add: Let_def)
  qed
qed

lemma mark_loop_ids: "mark_loop i es = Some es' \<Longrightarrow> map (ro_ID \<circ> oe_row) es' = map (ro_ID \<circ> oe_row) es"
  by (induction es arbitrary: es') (auto split: if_splits)

lemma mark_ids: "mark_loop i (ob_entries b) = Some es \<Longrightarrow> ob_ids (b\<lparr>ob_entries := es\<rparr>) = ob_ids b"
  using mark_loop_ids by (simp add: ob_ids_def)

lemma mark_loop_found:
  "i \<in> set (map (ro_ID \<circ> oe_row) es) \<Longrightarrow> distinct (map (ro_ID \<circ> oe_row) es) \<Longrightarrow>
     mark_loop i es = Some (map (\<lambda>e. if ro_ID (oe_row e) = i then e\<lparr>oe_sent := True\<rparr> else e) es)"
proof (induction es)
  case Nil
  then show ?case by simp
next
  case (Cons e es)
  show ?case
  proof (cases "ro_ID (oe_row e) = i")
    case True
    with Cons.prems have "map (\<lambda>e. if ro_ID (oe_row e) = i then e\<lparr>oe_sent := True\<rparr> else e) es = es"
      by (intro map_idI) (auto simp: image_iff)
    with True show ?thesis by simp
  next
    case False
    with Cons show ?thesis by auto
  qed
qed

lemma filter_marked:
  "map oe_row (filter (\<lambda>e. \<not> oe_sent e)
       (map (\<lambda>e. if ro_ID (oe_row e) = i then e\<lparr>oe_sent := True\<rparr> else e) es))
     = filter (\<lambda>r. ro_ID r \<noteq> i) (map oe_row (filter (\<lambda>e. \<not> oe_sent e) es))"
  by (induction es) auto

interpretation memory: outbox_store FetchPending MarkSent pending rows_ok
proof
  fix ob :: "InMemoryOutbox option" and n :: int
  assume "rows_ok ob" "0 < n"
  then show "FetchPending ob n = Inr (take (nat n) (pending ob))"
    by (auto simp: rows_ok_def pending_def fetch_loop_take split: option.splits)
next
  fix ob i
  assume "rows_ok ob"
  then show "rows_ok (snd (MarkSent ob i))"
    by (auto simp: rows_ok_def mark_ids split: option.splits)
next
  fix ob row
  assume a: "rows_ok ob" "row \<in> set (pending ob)"
  then obtain b where b: "ob = Some b" "distinct (ob_ids b)" "[] \<notin> set (ob_ids b)"
    by (auto simp: rows_ok_def split: option.splits)
  with a(2) have i: "ro_ID row \<in> set (ob_ids b)" by (auto simp: pending_def ob_ids_def)
  with b(3) have "ro_ID row \<noteq> []" by auto
  with b i show "pending (snd (MarkSent ob (ro_ID row))) = filter (\<lambda>r. ro_ID r \<noteq> ro_ID row) (pending ob)"
    by (simp add: ob_ids_def mark_loop_found pending_def filter_marked)
next
  fix ob
  assume "rows_ok ob"
  then show "distinct (map ro_ID (pending ob))"
    by (auto simp: rows_ok_def pending_def ob_ids_def distinct_map inj_on_def split: option.splits)
qed

section \<open>Inserts and the publisher interleaved\<close>

text \<open>
  One publisher and any number of inserting goroutines. A goroutine draws its identifier and
  later appends its row; the publisher fetches a batch when the previous one is finished and
  publishes its rows one by one. An event that is not enabled leaves the state as it is. The log
  records the rows that were published.
\<close>

record outbox_state =
  om_ob :: InMemoryOutbox
  om_drawn :: "OutboxRow list"
  om_batch :: "OutboxRow list"
  om_log :: "OutboxRow list"

datatype outbox_event = Draw string | Append nat | Fetch | Publish

definition om_init :: outbox_state where
  "om_init = \<lparr>om_ob = NewInMemoryOutbox, om_drawn = [], om_batch = [], om_log = []\<rparr>"

definition om_publish :: "(string \<Rightarrow> go_error + 'd list) \<Rightarrow> OutboxRow \<Rightarrow> outbox_state \<Rightarrow> outbox_state" where
  "om_publish publish row st =
     (if isl (publish (ro_Data row)) then st
      else case snd (MarkSent (Some (om_ob st)) (ro_ID row)) of
             None \<Rightarrow> st
           | Some ob \<Rightarrow> st\<lparr>om_ob := ob, om_log := om_log st @ [row]\<rparr>)"

fun om_step :: "(string \<Rightarrow> go_error + 'd list) \<Rightarrow> outbox_event \<Rightarrow> outbox_state \<Rightarrow> outbox_state" where
  "om_step publish (Draw data) st =
     (let (i, ob) = Insert_draw (om_ob st)
      in st\<lparr>om_ob := ob, om_drawn := om_drawn st @ [\<lparr>ro_ID = i, ro_Data = data\<rparr>]\<rparr>)"
| "om_step publish (Append n) st =
     (if n < length (om_drawn st)
      then let r = om_drawn st ! n
           in st\<lparr>om_ob := Insert_append (om_ob st) (ro_ID r) (ro_Data r),
                 om_drawn := take n (om_drawn st) @ drop (Suc n) (om_drawn st)\<rparr>
      else st)"
| "om_step publish Fetch st =
     (case (om_batch st, FetchPending (Some (om_ob st)) 100) of
        ([], Inr rows) \<Rightarrow> st\<lparr>om_batch := rows\<rparr>
      | _ \<Rightarrow> st)"
| "om_step publish Publish st =
     (case om_batch st of
        [] \<Rightarrow> st
      | row # rest \<Rightarrow> (om_publish publish row st)\<lparr>om_batch := rest\<rparr>)"

definition om_run :: "(string \<Rightarrow> go_error + 'd list) \<Rightarrow> outbox_event list \<Rightarrow> outbox_state \<Rightarrow> outbox_state" where
  "om_run publish evs st = fold (om_step publish) evs st"

fun drawn_data :: "outbox_event \<Rightarrow> string list" where
  "drawn_data (Draw d) = [d]"
| "drawn_data _ = []"

definition ob_rows :: "InMemoryOutbox \<Rightarrow> OutboxRow list" where
  "ob_rows ob = map oe_row (ob_entries ob)"

definition ob_sent :: "InMemoryOutbox \<Rightarrow> OutboxRow list" where
  "ob_sent ob = map oe_row (filter oe_sent (ob_entries ob))"

definition id_upto :: "int \<Rightarrow> string \<Rightarrow> bool" where
  "id_upto n i \<longleftrightarrow> (\<exists>m. 1 \<le> m \<and> m \<le> n \<and> i = FormatInt m)"

definition om_inv :: "outbox_state \<Rightarrow> bool" where
  "om_inv st \<longleftrightarrow> 0 \<le> ob_counter (om_ob st)
     \<and> distinct (map ro_ID (ob_rows (om_ob st) @ om_drawn st))
     \<and> list_all (\<lambda>r. id_upto (ob_counter (om_ob st)) (ro_ID r)) (ob_rows (om_ob st) @ om_drawn st)
     \<and> distinct (om_batch st) \<and> set (om_batch st) \<subseteq> set (pending (Some (om_ob st)))
     \<and> mset (om_log st) = mset (ob_sent (om_ob st))"

lemma id_upto_mono: "id_upto n i \<Longrightarrow> n \<le> m \<Longrightarrow> id_upto m i"
  by (force simp: id_upto_def)

lemma id_upto_nonempty: "id_upto n i \<Longrightarrow> i \<noteq> []"
  by (auto simp: id_upto_def)

lemma id_upto_fresh: "id_upto n i \<Longrightarrow> i \<noteq> FormatInt (n + 1)"
  by (auto simp: id_upto_def FormatInt_inj)

lemma pending_distinct: "rows_ok ob \<Longrightarrow> distinct (pending ob)"
  using memory.ids_distinct by (simp add: distinct_map)

lemma mset_filter_out:
  "distinct xs \<Longrightarrow> x \<in> set xs \<Longrightarrow> mset xs = add_mset x (mset (filter (\<lambda>y. y \<noteq> x) xs))"
proof -
  assume "distinct xs" "x \<in> set xs"
  then have "filter (\<lambda>y. y \<noteq> x) xs = remove1 x xs" by (simp add: distinct_remove1_removeAll removeAll_filter_not_eq eq_commute)
  with \<open>x \<in> set xs\<close> show ?thesis by simp
qed

lemma om_inv_rows_ok:
  assumes "om_inv st"
  shows "rows_ok (Some (om_ob st))"
proof -
  have ids: "ob_ids (om_ob st) = map ro_ID (ob_rows (om_ob st))" by (simp add: ob_ids_def ob_rows_def)
  from assms have "id_upto (ob_counter (om_ob st)) (ro_ID r)" if "r \<in> set (ob_rows (om_ob st))" for r
    using that by (auto simp: om_inv_def list_all_iff)
  then have "[] \<notin> set (map ro_ID (ob_rows (om_ob st)))" using id_upto_nonempty by fastforce
  with assms show ?thesis by (simp add: rows_ok_def ids om_inv_def)
qed

lemma pending_append: "pending (Some (Insert_append ob i d)) = pending (Some ob) @ [\<lparr>ro_ID = i, ro_Data = d\<rparr>]"
  by (simp add: pending_def Insert_append_def)

lemma append_rows [simp]:
  "ob_rows (Insert_append ob i d) = ob_rows ob @ [\<lparr>ro_ID = i, ro_Data = d\<rparr>]"
  "ob_sent (Insert_append ob i d) = ob_sent ob"
  "ob_counter (Insert_append ob i d) = ob_counter ob"
  by (simp_all add: ob_rows_def ob_sent_def Insert_append_def)

lemma counter_rows [simp]:
  "ob_rows (ob\<lparr>ob_counter := n\<rparr>) = ob_rows ob"
  "ob_sent (ob\<lparr>ob_counter := n\<rparr>) = ob_sent ob"
  "pending (Some (ob\<lparr>ob_counter := n\<rparr>)) = pending (Some ob)"
  by (simp_all add: ob_rows_def ob_sent_def pending_def)

lemma om_inv_draw:
  assumes "om_inv st" "ob_counter (om_ob st) < max_int64"
  shows "om_inv (om_step publish (Draw d) st)"
    and "ob_counter (om_ob (om_step publish (Draw d) st)) = ob_counter (om_ob st) + 1"
proof -
  let ?n = "ob_counter (om_ob st)"
  have w: "wrap64 (?n + 1) = ?n + 1" using assms by (simp add: om_inv_def int64_bounds)
  show "ob_counter (om_ob (om_step publish (Draw d) st)) = ?n + 1" by (simp add: Insert_draw_def w Let_def)
  have "0 \<le> ?n" using assms by (simp add: om_inv_def)
  then have "id_upto (?n + 1) (FormatInt (?n + 1))" unfolding id_upto_def by (intro exI [of _ "?n + 1"]) simp
  moreover have "FormatInt (?n + 1) \<notin> set (map ro_ID (ob_rows (om_ob st) @ om_drawn st))"
    using assms id_upto_fresh by (fastforce simp: om_inv_def list_all_iff)
  moreover have "list_all (\<lambda>r. id_upto (?n + 1) (ro_ID r)) (ob_rows (om_ob st) @ om_drawn st)"
    using assms(1) id_upto_mono [of ?n _ "?n + 1"] by (auto simp: om_inv_def list_all_iff)
  ultimately show "om_inv (om_step publish (Draw d) st)"
    using assms by (simp add: om_inv_def Insert_draw_def w Let_def)
qed

lemma om_inv_append:
  assumes "om_inv st"
  shows "om_inv (om_step publish (Append n) st)"
proof (cases "n < length (om_drawn st)")
  case True
  let ?d = "om_drawn st" let ?ds = "take n ?d @ drop (Suc n) ?d"
  have "mset ?d = mset (?d ! n # ?ds)" using True by (metis id_take_nth_drop mset.simps(2) mset_append union_mset_add_mset_right)
  then have "mset (map ro_ID ?d) = mset (map ro_ID (?d ! n # ?ds))" and s: "set ?d = set (?d ! n # ?ds)"
    by (metis mset_map, metis set_mset_mset)
  then have "distinct (map ro_ID (ob_rows (om_ob st) @ ?d))
      = distinct (map ro_ID (ob_rows (om_ob st) @ ?d ! n # ?ds))"
    by (intro mset_eq_imp_distinct_iff) simp
  with assms True s show ?thesis
    by (auto simp: om_inv_def Let_def list_all_iff pending_append)
next
  case False
  with assms show ?thesis by simp
qed

lemma om_inv_fetch: "om_inv st \<Longrightarrow> om_inv (om_step publish Fetch st)"
proof -
  assume i: "om_inv st"
  note pending_distinct [OF om_inv_rows_ok [OF i]]
  with i show ?thesis
    by (auto simp: om_inv_def memory.fetch_ok [OF om_inv_rows_ok [OF i]] simp del: FetchPending.simps
        split: list.splits dest: in_set_takeD)
qed

lemma mset_sent_pending: "mset (ob_rows ob) = mset (ob_sent ob) + mset (pending (Some ob))"
proof -
  have "mset (map oe_row es) = mset (map oe_row (filter oe_sent es))
      + mset (map oe_row (filter (\<lambda>e. \<not> oe_sent e) es))" for es
    by (induction es) auto
  then show ?thesis by (simp add: ob_rows_def ob_sent_def pending_def)
qed

lemma MarkSent_rows:
  assumes "MarkSent (Some ob) i = (res, Some ob')"
  shows "ob_rows ob' = ob_rows ob" and "ob_counter ob' = ob_counter ob"
proof -
  have "mark_loop i es = Some es' \<Longrightarrow> map oe_row es' = map oe_row es" for es es'
    by (induction es arbitrary: es') (auto split: if_splits)
  with assms show "ob_rows ob' = ob_rows ob" "ob_counter ob' = ob_counter ob"
    by (auto simp: ob_rows_def split: if_splits option.splits)
qed

lemma MarkSent_moves:
  assumes ok: "rows_ok (Some ob)" and p: "row \<in> set (pending (Some ob))"
    and m: "MarkSent (Some ob) (ro_ID row) = (res, Some ob')"
  shows "mset (ob_sent ob') = add_mset row (mset (ob_sent ob))"
    and "pending (Some ob') = filter (\<lambda>r. r \<noteq> row) (pending (Some ob))"
proof -
  show q: "pending (Some ob') = filter (\<lambda>r. r \<noteq> row) (pending (Some ob))"
    using memory.mark_pending [OF ok p] m memory.same_row [OF ok] p by (auto intro!: filter_cong)
  have "mset (pending (Some ob)) = add_mset row (mset (pending (Some ob')))"
    unfolding q using pending_distinct [OF ok] p by (rule mset_filter_out)
  then show "mset (ob_sent ob') = add_mset row (mset (ob_sent ob))"
    using mset_sent_pending [of ob] mset_sent_pending [of ob'] MarkSent_rows(1) [OF m] by simp
qed

lemma MarkSent_Some: "\<exists>res ob'. MarkSent (Some ob) i = (res, Some ob')"
  by (cases "mark_loop i (ob_entries ob)") auto

lemma om_inv_publish:
  assumes i: "om_inv st" and b: "om_batch st = row # rest"
  shows "om_inv (om_step publish Publish st)"
proof (cases "isl (publish (ro_Data row))")
  case True
  with i b show ?thesis by (auto simp: om_inv_def om_publish_def)
next
  case False
  obtain res ob' where m: "MarkSent (Some (om_ob st)) (ro_ID row) = (res, Some ob')"
    using MarkSent_Some by blast
  have p: "row \<in> set (pending (Some (om_ob st)))" using i b by (simp add: om_inv_def)
  note mv = MarkSent_moves [OF om_inv_rows_ok [OF i] p m]
  have "set rest \<subseteq> set (pending (Some ob'))" using i b by (auto simp: om_inv_def mv(2))
  with i b False m mv(1) MarkSent_rows [OF m] show ?thesis
    by (simp add: om_inv_def om_publish_def del: MarkSent.simps)
qed

text \<open>Every row that was drawn is kept, whatever the publisher does.\<close>

definition om_data :: "outbox_state \<Rightarrow> string multiset" where
  "om_data st = mset (map ro_Data (ob_rows (om_ob st) @ om_drawn st))"

lemma om_data_step: "om_data (om_step publish ev st) = om_data st + mset (drawn_data ev)"
proof (cases ev)
  case (Draw d)
  then show ?thesis by (simp add: om_data_def Insert_draw_def Let_def)
next
  case (Append n)
  have "n < length ds \<Longrightarrow> mset ds = add_mset (ds ! n) (mset (take n ds) + mset (drop (Suc n) ds))"
    for ds :: "OutboxRow list"
    by (metis id_take_nth_drop mset.simps(2) mset_append union_mset_add_mset_right)
  with Append show ?thesis by (auto simp: om_data_def Let_def)
next
  case Fetch
  then show ?thesis
    by (auto simp: om_data_def simp del: FetchPending.simps split: list.splits sum.splits)
next
  case Publish
  then show ?thesis
    using MarkSent_rows(1) [of "om_ob st"]
    by (auto simp: om_data_def om_publish_def simp del: MarkSent.simps split: list.splits option.splits)
       (metis prod.collapse)
qed

lemma om_step_inv:
  assumes "om_inv st" "ob_counter (om_ob st) < max_int64"
  shows "om_inv (om_step publish ev st)"
    and "ob_counter (om_ob (om_step publish ev st)) \<le> ob_counter (om_ob st) + 1"
proof -
  show "om_inv (om_step publish ev st)"
  proof (cases ev)
    case Publish
    with assms om_inv_publish show ?thesis by (cases "om_batch st") auto
  qed (use assms om_inv_draw om_inv_append om_inv_fetch in auto)
  show "ob_counter (om_ob (om_step publish ev st)) \<le> ob_counter (om_ob st) + 1"
  proof (cases ev)
    case (Draw d)
    with om_inv_draw(2) [OF assms] show ?thesis by simp
  next
    case Publish
    then show ?thesis
      using MarkSent_rows(2) [of "om_ob st"]
      by (auto simp: om_publish_def simp del: MarkSent.simps split: list.splits option.splits)
         (metis dual_order.refl le_add_same_cancel1 order_trans prod.collapse zero_le_one)
  qed (auto simp: Let_def simp del: FetchPending.simps split: list.splits sum.splits)
qed

lemma om_run_inv:
  assumes "om_inv st" "ob_counter (om_ob st) + int (length evs) \<le> max_int64"
  shows "om_inv (om_run publish evs st)
    \<and> om_data (om_run publish evs st) = om_data st + mset (concat (map drawn_data evs))"
  using assms
proof (induction evs arbitrary: st)
  case Nil
  then show ?case by (simp add: om_run_def)
next
  case (Cons ev evs)
  then have c: "ob_counter (om_ob st) < max_int64" by simp
  note s = om_step_inv [OF Cons.prems(1) c, of publish ev]
  have "ob_counter (om_ob (om_step publish ev st)) + int (length evs) \<le> max_int64"
    using s(2) Cons.prems(2) by simp
  from Cons.IH [OF s(1) this] show ?case by (simp add: om_run_def om_data_step)
qed

lemma om_inv_init: "om_inv om_init" "om_data om_init = {#}" "ob_counter (om_ob om_init) = 0"
  by (simp_all add: om_init_def om_inv_def om_data_def NewInMemoryOutbox_def ob_rows_def ob_sent_def
      pending_def)

section \<open>Subscriptions\<close>

definition chan_subs :: "'h InMemoryPubSub \<Rightarrow> string \<Rightarrow> 'h subs" where
  "chan_subs ps channel =
     (case ps_subs ps of None \<Rightarrow> [] | Some all \<Rightarrow>
        (case gm_get all channel of None \<Rightarrow> [] | Some chan \<Rightarrow> chan))"

definition ps_inv :: "'h InMemoryPubSub \<Rightarrow> bool" where
  "ps_inv ps \<longleftrightarrow> 0 \<le> ps_next ps
     \<and> (\<forall>channel. gm_wf (chan_subs ps channel)
          \<and> list_all (\<lambda>n. 1 \<le> n \<and> n \<le> ps_next ps) (map fst (chan_subs ps channel)))"

lemma update_append_fresh: "k \<notin> set (map fst m) \<Longrightarrow> AList.update k v m = m @ [(k, v)]"
  by (induction m) auto

lemma delete_append_fresh: "k \<notin> set (map fst m) \<Longrightarrow> AList.delete k (m @ [(k, v)]) = m"
  by (induction m) (auto simp: AList.delete_eq)

lemma Publish_live:
  "channel \<noteq> [] \<Longrightarrow> PubSub_Publish done_ctx (Some ps) channel data =
     Inr (map (\<lambda>s. \<lparr>dl_ctx = sb_ctx s, dl_handler = sb_handler s, dl_data = data\<rparr>)
           (filter (\<lambda>s. \<not> done_ctx (sb_ctx s)) (gm_vals (chan_subs ps channel))))"
  by (auto simp: chan_subs_def Let_def split: option.splits)

lemma Subscribe_subs:
  assumes "PubSub_Subscribe (Some ps) c channel (Some h) = (Inr rm, Some ps')"
    and "ps_inv ps" "ps_next ps < max_int64"
  shows "channel \<noteq> []" and "rm_channel rm = channel" and "rm_id rm = ps_next ps + 1" "ps_next ps' = ps_next ps + 1"
    and "chan_subs ps' ch = (if ch = channel
           then chan_subs ps ch @ [(rm_id rm, \<lparr>sb_ctx = rm_ctx rm, sb_handler = h\<rparr>)]
           else chan_subs ps ch)"
proof -
  have w: "wrap64 (ps_next ps + 1) = ps_next ps + 1"
    using assms by (simp add: ps_inv_def int64_bounds)
  from assms show "channel \<noteq> []" "rm_channel rm = channel" "rm_id rm = ps_next ps + 1" "ps_next ps' = ps_next ps + 1"
    by (auto simp: Let_def w split: if_splits)
  have "ps_next ps + 1 \<notin> set (map fst (chan_subs ps channel))"
    using assms(2) by (fastforce simp: ps_inv_def list_all_iff)
  then have "AList.update (ps_next ps + 1) v (chan_subs ps channel) = chan_subs ps channel @ [(ps_next ps + 1, v)]" for v
    by (simp add: update_append_fresh)
  with assms(1) show "chan_subs ps' ch = (if ch = channel
           then chan_subs ps ch @ [(rm_id rm, \<lparr>sb_ctx = rm_ctx rm, sb_handler = h\<rparr>)]
           else chan_subs ps ch)"
    by (auto simp: Let_def w chan_subs_def split: if_splits option.splits)
qed

lemma remove_subs: "chan_subs (PubSub_remove ps channel n) ch =
    (if ch = channel then gm_del n (chan_subs ps ch) else chan_subs ps ch)"
  by (auto simp: PubSub_remove_def chan_subs_def Let_def split: option.splits)

lemma ps_inv_subscribe:
  assumes "PubSub_Subscribe (Some ps) c channel (Some h) = (Inr rm, Some ps')"
    and "ps_inv ps" "ps_next ps < max_int64"
  shows "ps_inv ps'"
proof -
  note s = Subscribe_subs [OF assms]
  have "ps_next ps + 1 \<notin> set (map fst (chan_subs ps channel))"
    using assms(2) by (fastforce simp: ps_inv_def list_all_iff)
  moreover have "list_all (\<lambda>n. 1 \<le> n \<and> n \<le> ps_next ps + 1) (map fst (chan_subs ps ch))" for ch
    using assms(2) by (fastforce simp: ps_inv_def list_all_iff)
  ultimately show ?thesis
    using assms(2) by (auto simp: ps_inv_def s(3-5) gm_wf_def)
qed

lemma ps_inv_remove: "ps_inv ps \<Longrightarrow> ps_inv (PubSub_remove ps channel n)"
proof -
  assume i: "ps_inv ps"
  have "ps_next (PubSub_remove ps channel n) = ps_next ps"
    by (simp add: PubSub_remove_def Let_def split: option.splits)
  moreover have "list_all P (map fst (AList.delete n m))" if "list_all P (map fst m)" for P and m :: "'a subs"
    using that by (induction m) auto
  ultimately show ?thesis using i by (simp add: ps_inv_def remove_subs)
qed

section \<open>Properties\<close>

text \<open>C34 With any number of inserts interleaved with the publisher, step by step, and whichever
  publications fail: every row handed to \<^verbatim>\<open>Insert\<close> is kept, a stored row is either pending or was
  published, and no row is published twice.
\<close>

theorem outbox_exactly_once:
  assumes "int (length evs) \<le> max_int64"
  shows "let st = om_run publish evs om_init in
           distinct (om_log st)
           \<and> mset (ob_rows (om_ob st)) = mset (om_log st) + mset (pending (Some (om_ob st)))
           \<and> om_data st = mset (concat (map drawn_data evs))"
proof -
  let ?st = "om_run publish evs om_init"
  have i: "om_inv ?st" "om_data ?st = mset (concat (map drawn_data evs))"
    using om_run_inv [of om_init evs publish] assms by (simp_all add: om_inv_init)
  have l: "mset (om_log ?st) = mset (ob_sent (om_ob ?st))" using i(1) by (simp add: om_inv_def)
  have "distinct (ob_rows (om_ob ?st))" using i(1) by (auto simp: om_inv_def distinct_map)
  then have "distinct (ob_sent (om_ob ?st))"
    by (auto simp: ob_rows_def ob_sent_def distinct_map_filter)
  with l have "distinct (om_log ?st)" by (metis mset_eq_imp_distinct_iff)
  with l i(2) mset_sent_pending [of "om_ob ?st"] show ?thesis by (simp add: Let_def)
qed


definition sample_outbox :: "nat \<Rightarrow> InMemoryOutbox" where
  "sample_outbox n =
     \<lparr>ob_entries = map (\<lambda>i. \<lparr>oe_row = \<lparr>ro_ID = FormatInt (int i + 1), ro_Data = digits i\<rparr>, oe_sent = False\<rparr>) [0..<n],
      ob_counter = int n\<rparr>"

definition sample_subscribed :: "nat InMemoryPubSub" where
  "sample_subscribed = the (snd (PubSub_Subscribe (Some NewInMemoryPubSub) None ''c'' (Some 7)))"

lemma sample_outbox_ok: "rows_ok (Some (sample_outbox 3))"
  by code_simp

theorem outbox_exactly_once_witness:
  "let st = om_run (PubSub_Publish (\<lambda>c. False) (Some sample_subscribed) ''c'')
              [Draw ''a'', Draw ''b'', Append 1, Fetch, Append 0, Publish, Fetch, Publish] om_init in
     distinct (om_log st)
     \<and> mset (ob_rows (om_ob st)) = mset (om_log st) + mset (pending (Some (om_ob st)))
     \<and> om_data st = {#''a'', ''b''#} \<and> map ro_Data (om_log st) = [''b'', ''a'']"
proof -
  let ?evs = "[Draw ''a'', Draw ''b'', Append 1, Fetch, Append 0, Publish, Fetch, Publish]"
  let ?pub = "PubSub_Publish (\<lambda>c. False) (Some sample_subscribed) ''c''"
  have "map ro_Data (om_log (om_run ?pub ?evs om_init)) = [''b'', ''a'']" by code_simp
  with outbox_exactly_once [of ?evs ?pub] show ?thesis by (simp add: Let_def max_int64_def)
qed


text \<open>C36 A subscription is seen by the next publication on its channel and on no other, and the
  goroutine that removes it restores what every publication saw before.
\<close>

theorem pubsub_subscribe_remove:
  assumes "ps_inv ps" "ps_next ps < max_int64" "ch \<noteq> []"
    and "PubSub_Subscribe (Some ps) c channel (Some h) = (Inr rm, Some ps')"
  shows "ps_inv ps'
    \<and> the_right (PubSub_Publish done_ctx (Some ps') ch data)
       = the_right (PubSub_Publish done_ctx (Some ps) ch data)
         @ (if ch = channel \<and> \<not> done_ctx (rm_ctx rm)
            then [\<lparr>dl_ctx = rm_ctx rm, dl_handler = h, dl_data = data\<rparr>] else [])
    \<and> PubSub_Publish done_ctx (Some (PubSub_remove ps' (rm_channel rm) (rm_id rm))) ch data
       = PubSub_Publish done_ctx (Some ps) ch data"
proof (intro conjI)
  note s = Subscribe_subs [OF assms(4,1,2)]
  show "ps_inv ps'" by (rule ps_inv_subscribe [OF assms(4,1,2)])
  show "the_right (PubSub_Publish done_ctx (Some ps') ch data)
       = the_right (PubSub_Publish done_ctx (Some ps) ch data)
         @ (if ch = channel \<and> \<not> done_ctx (rm_ctx rm)
            then [\<lparr>dl_ctx = rm_ctx rm, dl_handler = h, dl_data = data\<rparr>] else [])"
    using assms(3) by (simp add: Publish_live s(5) the_right_def del: PubSub_Publish.simps)
  have "rm_id rm \<notin> set (map fst (chan_subs ps channel))"
    using assms(1) by (fastforce simp: ps_inv_def list_all_iff s(3))
  then have "AList.delete (rm_id rm) (chan_subs ps channel @ [(rm_id rm, v)]) = chan_subs ps channel" for v
    by (rule delete_append_fresh)
  then show "PubSub_Publish done_ctx (Some (PubSub_remove ps' (rm_channel rm) (rm_id rm))) ch data
       = PubSub_Publish done_ctx (Some ps) ch data"
    using assms(3) by (simp add: Publish_live remove_subs s(2,5) del: PubSub_Publish.simps)
qed

lemma sample_subscribed_inv: "ps_inv sample_subscribed" "ps_next sample_subscribed = 1"
  by (auto simp: sample_subscribed_def NewInMemoryPubSub_def ps_inv_def chan_subs_def gm_wf_def Let_def
      int64_bounds)

theorem pubsub_subscribe_remove_witness:
  "\<exists>rm ps'. PubSub_Subscribe (Some sample_subscribed) (Some 4) ''c'' (Some 9) = (Inr rm, Some ps')
     \<and> PubSub_Publish (\<lambda>c. False) (Some (PubSub_remove ps' (rm_channel rm) (rm_id rm))) ''c'' ''x''
       = PubSub_Publish (\<lambda>c. False) (Some sample_subscribed) ''c'' ''x''
     \<and> map dl_handler (the_right (PubSub_Publish (\<lambda>c. False) (Some ps') ''c'' ''x'')) = [7, 9]"
proof -
  obtain rm ps' where s: "PubSub_Subscribe (Some sample_subscribed) (Some 4) ''c'' (Some 9) = (Inr rm, Some ps')"
    by (simp add: Let_def)
  have n: "ps_next sample_subscribed < max_int64" "''c'' \<noteq> []" by (simp_all add: sample_subscribed_inv max_int64_def)
  have "map dl_handler (the_right (PubSub_Publish (\<lambda>c. False) (Some sample_subscribed) ''c'' ''x'')) = [7]"
    by code_simp
  then have "map dl_handler (the_right (PubSub_Publish (\<lambda>c. False) (Some ps') ''c'' ''x'')) = [7, 9]"
    using pubsub_subscribe_remove [OF sample_subscribed_inv(1) n s, of "\<lambda>c. False" "''x''"]
    by (simp del: PubSub_Publish.simps)
  with s pubsub_subscribe_remove [OF sample_subscribed_inv(1) n s, of "\<lambda>c. False" "''x''"]
  show ?thesis by (metis (no_types, lifting))
qed

end
