(* ===== verification/Control_Plane.thy ===== *)
theory Control_Plane
  imports Outbox Rule_Cache Rule_DB Limiter_Pool
begin

text \<open>
  The control plane: \<^verbatim>\<open>core/admin_handler.go\<close> writes rules to the database, to the cache of its
  own instance and, as an invalidation event, to the outbox; \<^verbatim>\<open>core/cache_invalidator.go\<close> applies the
  events that the channel delivers; \<^verbatim>\<open>core/cache_sync_worker.go\<close> and \<^verbatim>\<open>core/health_loop.go\<close> run on
  a timer. The components of one instance hold pointers to the same objects, so their state is one
  record; a nil field is \<^term>\<open>None\<close>. The database and the outbox are the in-memory ones, the only
  implementations of their interfaces. \<^verbatim>\<open>core/serialization.go\<close> hands the event to
  \<^verbatim>\<open>encoding/json\<close>: the two conversions are arguments, and a property that needs them to be inverse
  says on which strings and times.
\<close>

section \<open>Administration of rules\<close>

text \<open>The tracer and the metrics of the handler are stored and not used.\<close>

record AdminHandler =
  ah_db :: "InMemoryRuleDB option"
  ah_rules :: "RuleCache option"
  ah_outboxWriter :: "InMemoryOutbox option"

definition NewAdminHandler ::
    "InMemoryRuleDB option \<Rightarrow> RuleCache option \<Rightarrow> InMemoryOutbox option \<Rightarrow> AdminHandler" where
  "NewAdminHandler db rules outboxWriter =
     \<lparr>ah_db = db, ah_rules = rules, ah_outboxWriter = outboxWriter\<rparr>"

type_synonym marshaller = "InvalidationEvent \<Rightarrow> go_error + string"
type_synonym unmarshaller = "string \<Rightarrow> go_error + InvalidationEvent"

definition emitInvalidation ::
    "marshaller \<Rightarrow> time \<Rightarrow> 'a AdminHandler_scheme \<Rightarrow> string \<Rightarrow> string \<Rightarrow> string \<Rightarrow> int64
      \<Rightarrow> go_error option \<times> 'a AdminHandler_scheme" where
  "emitInvalidation marshal now h tenantID resource action version =
     (case ah_outboxWriter h of
        None \<Rightarrow> (Some (ErrorString ''outbox writer is not configured''), h)
      | Some ob \<Rightarrow>
          (let event = \<lparr>ie_TenantID = tenantID, ie_Resource = resource, ie_Action = action,
                        ie_Version = version, ie_Timestamp = now\<rparr>
           in case marshal event of
                Inl err \<Rightarrow> (Some err, h)
              | Inr data \<Rightarrow>
                  (case Outbox_Insert (Some ob) data of
                     (Inl err, ob1) \<Rightarrow> (Some err, h\<lparr>ah_outboxWriter := ob1\<rparr>)
                   | (Inr rowID, ob1) \<Rightarrow> (None, h\<lparr>ah_outboxWriter := ob1\<rparr>))))"

definition db_missing :: go_error where
  "db_missing = ErrorString ''rule db is not configured''"

text \<open>
  What \<^verbatim>\<open>CreateRule\<close> and \<^verbatim>\<open>UpdateRule\<close> do with the result of the database: the rule goes to the cache,
  then the event to the outbox. The database keeps its change when the event cannot be written.
\<close>

definition after_write ::
    "marshaller \<Rightarrow> time \<Rightarrow> 'a AdminHandler_scheme \<Rightarrow> (go_error + Rule) \<times> InMemoryRuleDB
      \<Rightarrow> (go_error + Rule) \<times> 'a AdminHandler_scheme" where
  "after_write marshal now h res =
     (case res of
        (Inl err, db1) \<Rightarrow> (Inl err, h\<lparr>ah_db := Some db1\<rparr>)
      | (Inr rule, db1) \<Rightarrow>
          (let h1 = h\<lparr>ah_db := Some db1,
                      ah_rules := map_option (\<lambda>rc. RuleCache_UpsertIfNewer rc (Some rule)) (ah_rules h)\<rparr>
           in case emitInvalidation marshal now h1 (ru_TenantID rule) (ru_Resource rule) ''upsert'' (ru_Version rule) of
                (Some err, h2) \<Rightarrow> (Inl err, h2)
              | (None, h2) \<Rightarrow> (Inr rule, h2)))"

fun CreateRule ::
    "marshaller \<Rightarrow> (string \<Rightarrow> string) \<Rightarrow> time \<Rightarrow> 'a AdminHandler_scheme option \<Rightarrow> CreateRuleRequest option
      \<Rightarrow> (go_error + Rule) \<times> 'a AdminHandler_scheme option" where
  "CreateRule marshal sha256hex now None req = (Inl db_missing, None)"
| "CreateRule marshal sha256hex now (Some h) req =
     (case ah_db h of
        None \<Rightarrow> (Inl db_missing, Some h)
      | Some db \<Rightarrow> map_prod id Some (after_write marshal now h (DB_Create sha256hex now db req)))"

fun UpdateRule ::
    "marshaller \<Rightarrow> time \<Rightarrow> 'a AdminHandler_scheme option \<Rightarrow> UpdateRuleRequest option
      \<Rightarrow> (go_error + Rule) \<times> 'a AdminHandler_scheme option" where
  "UpdateRule marshal now None req = (Inl db_missing, None)"
| "UpdateRule marshal now (Some h) req =
     (case ah_db h of
        None \<Rightarrow> (Inl db_missing, Some h)
      | Some db \<Rightarrow> map_prod id Some (after_write marshal now h (DB_Update now db req)))"

fun DeleteRule ::
    "marshaller \<Rightarrow> time \<Rightarrow> 'a AdminHandler_scheme option \<Rightarrow> string \<Rightarrow> string \<Rightarrow> int64
      \<Rightarrow> go_error option \<times> 'a AdminHandler_scheme option" where
  "DeleteRule marshal now None tenantID resource expectedVersion = (Some db_missing, None)"
| "DeleteRule marshal now (Some h) tenantID resource expectedVersion =
     (case ah_db h of
        None \<Rightarrow> (Some db_missing, Some h)
      | Some db \<Rightarrow>
          (case DB_Delete db tenantID resource expectedVersion of
             (Inl err, db1) \<Rightarrow> (Some err, Some (h\<lparr>ah_db := Some db1\<rparr>))
           | (Inr _, db1) \<Rightarrow>
               (let h1 = h\<lparr>ah_db := Some db1,
                           ah_rules := map_option (\<lambda>rc. RuleCache_DeleteIfOlderOrEqual rc tenantID resource expectedVersion) (ah_rules h)\<rparr>
                in map_prod id Some (emitInvalidation marshal now h1 tenantID resource ''delete'' expectedVersion))))"

fun GetRule :: "'a AdminHandler_scheme option \<Rightarrow> string \<Rightarrow> string \<Rightarrow> go_error + Rule" where
  "GetRule None tenantID resource = Inl db_missing"
| "GetRule (Some h) tenantID resource =
     (case ah_db h of None \<Rightarrow> Inl db_missing | Some db \<Rightarrow> DB_Get db tenantID resource)"

fun ListRules :: "'a AdminHandler_scheme option \<Rightarrow> string \<Rightarrow> go_error + Rule list" where
  "ListRules None tenantID = Inl db_missing"
| "ListRules (Some h) tenantID =
     (case ah_db h of None \<Rightarrow> Inl db_missing | Some db \<Rightarrow> DB_List db tenantID)"

section \<open>Invalidation\<close>

text \<open>One instance: the objects of its handler and its limiter pool.\<close>

record control_plane = AdminHandler +
  cp_pool :: "LimiterPool option"

record CacheInvalidator =
  ci_pubsub :: "nat option"
  ci_channel :: string

definition NewCacheInvalidator :: "nat option \<Rightarrow> string \<Rightarrow> CacheInvalidator" where
  "NewCacheInvalidator pubsub channel = \<lparr>ci_pubsub = pubsub, ci_channel = channel\<rparr>"

text \<open>
  \<^verbatim>\<open>Subscribe\<close> registers the instance's handler and then waits for its context; its result is what it
  returns before the wait.
\<close>

definition CacheInvalidator_Subscribe ::
    "CacheInvalidator option \<Rightarrow> 'h InMemoryPubSub option \<Rightarrow> ctx option \<Rightarrow> 'h
      \<Rightarrow> (go_error + remover) \<times> 'h InMemoryPubSub option" where
  "CacheInvalidator_Subscribe c ps x handler =
     (case c of
        None \<Rightarrow> (Inl (ErrorString ''cache invalidator is not configured''), ps)
      | Some v \<Rightarrow>
          if ci_pubsub v = None then (Inl (ErrorString ''cache invalidator is not configured''), ps)
          else PubSub_Subscribe ps (Some (case x of None \<Rightarrow> Background | Some c' \<Rightarrow> c')) (ci_channel v) (Some handler))"

definition cutover_pool :: "control_plane \<Rightarrow> string \<Rightarrow> string \<Rightarrow> control_plane option" where
  "cutover_pool c tenantID resource =
     (case cp_pool c of
        None \<Rightarrow> Some c
      | Some pool \<Rightarrow> map_option (\<lambda>p. c\<lparr>cp_pool := p\<rparr>) (Cutover_detach (Some pool) tenantID resource))"

definition handle_upsert :: "control_plane \<Rightarrow> InvalidationEvent \<Rightarrow> control_plane" where
  "handle_upsert c event =
     (case ah_db c of
        None \<Rightarrow> c
      | Some db \<Rightarrow>
          (case DB_Get db (ie_TenantID event) (ie_Resource event) of
             Inl err \<Rightarrow> c
           | Inr rule \<Rightarrow>
               c\<lparr>ah_rules := map_option (\<lambda>rc. RuleCache_UpsertIfNewer rc (Some rule)) (ah_rules c)\<rparr>))"

definition handle_delete :: "control_plane \<Rightarrow> InvalidationEvent \<Rightarrow> control_plane" where
  "handle_delete c event =
     c\<lparr>ah_rules := map_option (\<lambda>rc. RuleCache_DeleteIfOlderOrEqual rc (ie_TenantID event) (ie_Resource event) (ie_Version event))
          (ah_rules c)\<rparr>"

text \<open>The receiver is not nil, since only a configured invalidator subscribes. \<^term>\<open>None\<close> is the run-time
  panic of the pool's shard index.\<close>

definition CacheInvalidator_handle :: "unmarshaller \<Rightarrow> control_plane \<Rightarrow> string \<Rightarrow> control_plane option" where
  "CacheInvalidator_handle unmarshal c payload =
     (case unmarshal payload of
        Inl err \<Rightarrow> Some c
      | Inr event \<Rightarrow>
          if ie_Action event = ''delete'' then
            cutover_pool (handle_delete c event) (ie_TenantID event) (ie_Resource event)
          else if ie_Action event = ''upsert'' then
            cutover_pool (handle_upsert c event) (ie_TenantID event) (ie_Resource event)
          else Some c)"

section \<open>Periodic workers\<close>

record CacheSyncWorker =
  sw_db :: "nat option"
  sw_rules :: "nat option"
  sw_interval :: duration

definition NewCacheSyncWorker :: "nat option \<Rightarrow> nat option \<Rightarrow> duration \<Rightarrow> CacheSyncWorker" where
  "NewCacheSyncWorker db rules interval = \<lparr>sw_db = db, sw_rules = rules, sw_interval = interval\<rparr>"

definition CacheSyncWorker_Start :: "CacheSyncWorker option \<Rightarrow> go_error + duration" where
  "CacheSyncWorker_Start w =
     (case w of
        None \<Rightarrow> Inl (ErrorString ''cache sync worker is not configured'')
      | Some v \<Rightarrow>
          if sw_db v = None \<or> sw_rules v = None then Inl (ErrorString ''cache sync worker is not configured'')
          else Inr (if sw_interval v \<le> 0 then 200 * Millisecond else sw_interval v))"

text \<open>A tick reads the database and then replaces the cache; other goroutines run in between.\<close>

definition sync_apply :: "go_error + Rule list \<Rightarrow> RuleCache \<Rightarrow> RuleCache" where
  "sync_apply loaded rc =
     (case loaded of Inl err \<Rightarrow> rc | Inr rules \<Rightarrow> RuleCache_ReplaceAll rc (map Some rules))"

definition CacheSyncWorker_tick :: "InMemoryRuleDB \<Rightarrow> RuleCache \<Rightarrow> RuleCache" where
  "CacheSyncWorker_tick db rc = sync_apply (DB_LoadAll db) rc"

definition CacheSyncWorker_SetInterval :: "CacheSyncWorker option \<Rightarrow> duration \<Rightarrow> CacheSyncWorker option" where
  "CacheSyncWorker_SetInterval w interval = map_option (\<lambda>v. v\<lparr>sw_interval := interval\<rparr>) w"

record HealthLoop =
  hl_degrade :: "nat option"
  hl_interval :: duration

definition NewHealthLoop :: "nat option \<Rightarrow> duration \<Rightarrow> HealthLoop" where
  "NewHealthLoop degrade interval = \<lparr>hl_degrade = degrade, hl_interval = interval\<rparr>"

definition HealthLoop_Start :: "HealthLoop option \<Rightarrow> go_error + duration" where
  "HealthLoop_Start h =
     (case h of
        None \<Rightarrow> Inl (ErrorString ''health loop is not configured'')
      | Some l \<Rightarrow>
          if hl_degrade l = None then Inl (ErrorString ''health loop is not configured'')
          else Inr (if hl_interval l \<le> 0 then 100 * Millisecond else hl_interval l))"

definition HealthLoop_tick ::
    "time \<Rightarrow> bool option \<Rightarrow> Membership option \<Rightarrow> DegradeController option
      \<Rightarrow> DegradeController option \<times> (string \<times> string \<times> int64) list" where
  "HealthLoop_tick now redis mship degrade = Degrade_Update now redis mship degrade"

end
