(* ===== verification/Convergence.thy ===== *)
theory Convergence
  imports Control_Plane
begin

text \<open>
  Instances that share a database and a channel, each with its own rule cache and limiter pool.
  Administrative writes at any instance, publisher ticks, deliveries in any order and full
  synchronisations are the steps of a machine. The invariant that relates a cache to the database
  through the events still under way is stated and proved on abstract maps first; the machine
  keeps it, and a quiet machine has converged.
\<close>

section \<open>A cache that follows a database\<close>

definition ev_key :: "InvalidationEvent \<Rightarrow> string \<times> string" where
  "ev_key e = (ie_TenantID e, ie_Resource e)"

definition is_upsert :: "InvalidationEvent \<Rightarrow> bool" where
  "is_upsert e \<longleftrightarrow> ie_Action e = ''upsert''"

definition is_delete :: "InvalidationEvent \<Rightarrow> bool" where
  "is_delete e \<longleftrightarrow> ie_Action e = ''delete''"

text \<open>
  One key: the stored rule, the cached rule, the events for the key that have not reached the
  cache, and whether the key may still be created. A cached rule is the stored one or an older
  version of it; a difference has an event under way that removes it; a deletion under way is for
  a key that is gone for good.
\<close>

definition key_ok :: "Rule option \<Rightarrow> Rule option \<Rightarrow> InvalidationEvent set \<Rightarrow> bool \<Rightarrow> bool" where
  "key_ok d c out fresh \<longleftrightarrow>
     (case d of
        Some x \<Rightarrow>
          (c = Some x \<or> (\<exists>e\<in>out. is_upsert e) \<and> (\<forall>y. c = Some y \<longrightarrow> ru_Version y < ru_Version x))
          \<and> (\<forall>e\<in>out. \<not> is_delete e)
      | None \<Rightarrow>
          (\<forall>y. c = Some y \<longrightarrow> (\<exists>e\<in>out. is_delete e))
          \<and> (\<forall>e\<in>out. \<forall>y. is_delete e \<longrightarrow> c = Some y \<longrightarrow> ru_Version y \<le> ie_Version e)
          \<and> (fresh \<longrightarrow> c = None \<and> out = {}))"

definition about :: "string \<times> string \<Rightarrow> InvalidationEvent set \<Rightarrow> InvalidationEvent set" where
  "about k out = {e \<in> out. ev_key e = k}"

definition node_ok ::
    "rule_map \<Rightarrow> rule_map \<Rightarrow> InvalidationEvent set \<Rightarrow> (string \<times> string) set \<Rightarrow> bool" where
  "node_ok db cache out cr \<longleftrightarrow> (\<forall>k. key_ok (db k) (cache k) (about k out) (k \<in> cr))"

lemma action_excl: "is_upsert e \<Longrightarrow> \<not> is_delete e"
  by (simp add: is_upsert_def is_delete_def)

lemma about_insert: "about k (insert e out) = (if ev_key e = k then insert e (about k out) else about k out)"
  by (auto simp: about_def)

lemma node_okI: "(\<And>k. key_ok (db k) (cache k) (about k out) (k \<in> cr)) \<Longrightarrow> node_ok db cache out cr"
  by (simp add: node_ok_def)

lemma node_okD: "node_ok db cache out cr \<Longrightarrow> key_ok (db k) (cache k) (about k out) (k \<in> cr)"
  unfolding node_ok_def by blast

lemma key_ok_mono: "key_ok d c out fresh \<Longrightarrow> (fresh' \<Longrightarrow> fresh) \<Longrightarrow> key_ok d c out fresh'"
  by (auto simp: key_ok_def split: option.splits)

lemma node_ok_mono: "node_ok db cache out cr \<Longrightarrow> cr' \<subseteq> cr \<Longrightarrow> node_ok db cache out cr'"
  by (rule node_okI, rule key_ok_mono, erule node_okD, auto)

lemma node_ok_quiet:
  assumes "node_ok db cache {} cr"
  shows "cache = db"
proof
  fix k
  have "about k {} = {}" by (simp add: about_def)
  with node_okD [OF assms, of k] show "cache k = db k"
    by (cases "cache k") (auto simp: key_ok_def split: option.splits)
qed

text \<open>A cache filled from the database.\<close>

lemma key_ok_equal: "key_ok d c out fresh \<Longrightarrow> key_ok d d out fresh"
  by (auto simp: key_ok_def split: option.splits)

lemma node_ok_sync: "node_ok db cache out cr \<Longrightarrow> node_ok db db out cr"
  by (rule node_okI, rule key_ok_equal, erule node_okD)

text \<open>A stored rule replaces none, an older version, or itself.\<close>

definition may_replace :: "Rule option \<Rightarrow> Rule \<Rightarrow> bool \<Rightarrow> bool" where
  "may_replace old d fresh = (case old of None \<Rightarrow> fresh | Some x \<Rightarrow> x = d \<or> ru_Version x < ru_Version d)"

lemma key_ok_write:
  assumes "key_ok old c out fresh" "is_upsert e" "may_replace old d fresh"
    and "c' = c \<or> c' = Some d"
  shows "key_ok (Some d) c' (insert e out) fresh'"
  using assms action_excl [OF assms(2)]
  by (auto simp: key_ok_def may_replace_def split: option.splits)

lemma node_ok_write:
  assumes "node_ok db cache out cr" "ev_key e = rule_key d" "is_upsert e"
    and "may_replace (db (rule_key d)) d (rule_key d \<in> cr)"
    and "cache' = cache \<or> cache' = spec_upsert d cache"
  shows "node_ok (db(rule_key d \<mapsto> d)) cache' (insert e out) cr"
proof (rule node_okI)
  fix k
  show "key_ok ((db(rule_key d \<mapsto> d)) k) (cache' k) (about k (insert e out)) (k \<in> cr)"
  proof (cases "k = rule_key d")
    case True
    moreover have "cache' k = cache k \<or> cache' k = Some d"
      using assms(5) True by (auto simp: spec_upsert_def)
    ultimately show ?thesis
      using key_ok_write [OF node_okD [OF assms(1)] assms(3,4)] assms(2) by (simp add: about_insert)
  next
    case False
    moreover have "cache' k = cache k" using assms(5) False by (auto simp: spec_upsert_def)
    ultimately show ?thesis using node_okD [OF assms(1), of k] assms(2) by (simp add: about_insert)
  qed
qed

lemma key_ok_delete:
  assumes "key_ok (Some old) c out fresh" "is_delete e" "ie_Version e = ru_Version old"
    and "c' = c \<or> c' = None"
  shows "key_ok None c' (insert e out) False"
  using assms by (auto simp: key_ok_def split: option.splits)

lemma node_ok_delete:
  assumes "node_ok db cache out cr" "db (ev_key e) = Some old" "is_delete e" "ie_Version e = ru_Version old"
    and "ev_key e \<notin> cr" and "cache' = cache \<or> cache' = spec_delete (ev_key e) (ie_Version e) cache"
  shows "node_ok (db(ev_key e := None)) cache' (insert e out) cr"
proof (rule node_okI)
  fix k
  show "key_ok ((db(ev_key e := None)) k) (cache' k) (about k (insert e out)) (k \<in> cr)"
  proof (cases "k = ev_key e")
    case True
    moreover have "cache' k = cache k \<or> cache' k = None"
      using assms(6) True by (auto simp: spec_delete_def split: option.splits if_splits)
    moreover have "key_ok (Some old) (cache k) (about k out) (k \<in> cr)"
      using node_okD [OF assms(1), of k] assms(2) True by simp
    ultimately show ?thesis
      using key_ok_delete [OF _ assms(3,4)] assms(5) by (simp add: about_insert)
  next
    case False
    moreover have "cache' k = cache k" using assms(6) False by (auto simp: spec_delete_def split: option.splits)
    ultimately show ?thesis using node_okD [OF assms(1), of k] by (simp add: about_insert)
  qed
qed

text \<open>An event reaches the cache; another event that looks the same may still be under way.\<close>

definition spec_handle :: "rule_map \<Rightarrow> InvalidationEvent \<Rightarrow> rule_map \<Rightarrow> rule_map" where
  "spec_handle db e cache =
     (if is_delete e then spec_delete (ev_key e) (ie_Version e) cache
      else if is_upsert e then (case db (ev_key e) of None \<Rightarrow> cache | Some d \<Rightarrow> spec_upsert d cache)
      else cache)"

lemma key_ok_handle:
  assumes "key_ok d c out fresh" "e \<in> out" "out' = out \<or> out' = out - {e}" "is_upsert e \<or> is_delete e"
    and "c' = (if is_delete e then (case c of None \<Rightarrow> None | Some y \<Rightarrow> if ru_Version y \<le> ie_Version e then None else c)
               else (case d of None \<Rightarrow> c | Some x \<Rightarrow>
                       (case c of None \<Rightarrow> Some x | Some y \<Rightarrow> if ru_Version y < ru_Version x then Some x else c)))"
  shows "key_ok d c' out' fresh"
  using assms action_excl [of e]
  by (cases d; cases c) (auto simp: key_ok_def split: if_splits)

lemma node_ok_handle:
  assumes "node_ok db cache out cr" "e \<in> out" "out' = out \<or> out' = out - {e}" "is_upsert e \<or> is_delete e"
    and own: "\<And>k d. db k = Some d \<Longrightarrow> rule_key d = k"
  shows "node_ok db (spec_handle db e cache) out' cr"
proof (rule node_okI)
  fix k
  have out': "about k out' = about k out \<or> about k out' = about k out - {e}"
    using assms(3) by (auto simp: about_def)
  show "key_ok (db k) (spec_handle db e cache k) (about k out') (k \<in> cr)"
  proof (cases "k = ev_key e")
    case True
    then have "e \<in> about k out" using assms(2) by (simp add: about_def)
    moreover have "spec_handle db e cache k =
        (if is_delete e then (case cache k of None \<Rightarrow> None | Some y \<Rightarrow> if ru_Version y \<le> ie_Version e then None else cache k)
         else (case db k of None \<Rightarrow> cache k | Some x \<Rightarrow>
            (case cache k of None \<Rightarrow> Some x | Some y \<Rightarrow> if ru_Version y < ru_Version x then Some x else cache k)))"
      using assms(4) True own [of k]
      by (auto simp: spec_handle_def spec_delete_def spec_upsert_def newer_than_def split: option.splits)
    ultimately show ?thesis using key_ok_handle [OF node_okD [OF assms(1)] _ out' assms(4)] by blast
  next
    case False
    then have "about k out' = about k out" using out' by (auto simp: about_def)
    moreover have "spec_handle db e cache k = cache k"
      using False own [of "ev_key e"]
      by (auto simp: spec_handle_def spec_delete_def spec_upsert_def split: option.splits)
    ultimately show ?thesis using node_okD [OF assms(1), of k] by simp
  qed
qed

section \<open>The machine\<close>

record node =
  nd_rules :: RuleCache
  nd_pool :: "LimiterPool option"

record cluster =
  cl_db :: InMemoryRuleDB
  cl_outbox :: InMemoryOutbox
  cl_nodes :: "node list"
  cl_flight :: "nat delivery list"

datatype cluster_event =
    CreateAt nat time CreateRuleRequest
  | UpdateAt nat time UpdateRuleRequest
  | DeleteAt nat time string string int64
  | PublishTick
  | Deliver nat
  | SyncAt nat

text \<open>The objects that the components of instance \<open>i\<close> see, and the state after they changed them.\<close>

definition view :: "cluster \<Rightarrow> nat \<Rightarrow> control_plane" where
  "view cl i = \<lparr>ah_db = Some (cl_db cl), ah_rules = Some (nd_rules (cl_nodes cl ! i)),
     ah_outboxWriter = Some (cl_outbox cl), cp_pool = nd_pool (cl_nodes cl ! i)\<rparr>"

definition put_view :: "cluster \<Rightarrow> nat \<Rightarrow> control_plane \<Rightarrow> cluster" where
  "put_view cl i c =
     (case (ah_db c, ah_rules c, ah_outboxWriter c) of
        (Some db, Some rc, Some ob) \<Rightarrow>
          cl\<lparr>cl_db := db, cl_outbox := ob, cl_nodes := (cl_nodes cl)[i := \<lparr>nd_rules = rc, nd_pool = cp_pool c\<rparr>]\<rparr>
      | _ \<Rightarrow> cl)"

definition at_node :: "cluster \<Rightarrow> nat \<Rightarrow> (control_plane \<Rightarrow> control_plane option) \<Rightarrow> cluster" where
  "at_node cl i f =
     (if i < length (cl_nodes cl)
      then (case f (view cl i) of None \<Rightarrow> cl | Some c \<Rightarrow> put_view cl i c) else cl)"

definition drop_nth :: "nat \<Rightarrow> 'a list \<Rightarrow> 'a list" where
  "drop_nth n xs = take n xs @ drop (Suc n) xs"

fun cl_step ::
    "marshaller \<Rightarrow> unmarshaller \<Rightarrow> (string \<Rightarrow> string) \<Rightarrow> (string \<Rightarrow> go_error + nat delivery list)
      \<Rightarrow> cluster_event \<Rightarrow> cluster \<Rightarrow> cluster" where
  "cl_step marshal unmarshal sha256hex publish (CreateAt i now req) cl =
     at_node cl i (\<lambda>c. snd (CreateRule marshal sha256hex now (Some c) (Some req)))"
| "cl_step marshal unmarshal sha256hex publish (UpdateAt i now req) cl =
     at_node cl i (\<lambda>c. snd (UpdateRule marshal now (Some c) (Some req)))"
| "cl_step marshal unmarshal sha256hex publish (DeleteAt i now t r v) cl =
     at_node cl i (\<lambda>c. snd (DeleteRule marshal now (Some c) t r v))"
| "cl_step marshal unmarshal sha256hex publish PublishTick cl =
     (case OutboxPublisher_tick FetchPending MarkSent publish (Some (cl_outbox cl)) of
        (None, ds) \<Rightarrow> cl
      | (Some ob, ds) \<Rightarrow> cl\<lparr>cl_outbox := ob, cl_flight := cl_flight cl @ ds\<rparr>)"
| "cl_step marshal unmarshal sha256hex publish (Deliver n) cl =
     (if n < length (cl_flight cl) then
        let d = cl_flight cl ! n; i = dl_handler d in
        if i < length (cl_nodes cl) then
          (case CacheInvalidator_handle unmarshal (view cl i) (dl_data d) of
             None \<Rightarrow> cl
           | Some c \<Rightarrow> (put_view cl i c)\<lparr>cl_flight := drop_nth n (cl_flight cl)\<rparr>)
        else cl
      else cl)"
| "cl_step marshal unmarshal sha256hex publish (SyncAt i) cl =
     at_node cl i (\<lambda>c. Some (c\<lparr>ah_rules := map_option (CacheSyncWorker_tick (cl_db cl)) (ah_rules c)\<rparr>))"

definition cl_run ::
    "marshaller \<Rightarrow> unmarshaller \<Rightarrow> (string \<Rightarrow> string) \<Rightarrow> (string \<Rightarrow> go_error + nat delivery list)
      \<Rightarrow> cluster_event list \<Rightarrow> cluster \<Rightarrow> cluster" where
  "cl_run marshal unmarshal sha256hex publish evs cl =
     fold (cl_step marshal unmarshal sha256hex publish) evs cl"

definition cl_start :: "LimiterPool option list \<Rightarrow> cluster" where
  "cl_start pools = \<lparr>cl_db = NewInMemoryRuleDB, cl_outbox = NewInMemoryOutbox,
     cl_nodes = map (\<lambda>p. \<lparr>nd_rules = NewRuleCache, nd_pool = p\<rparr>) pools, cl_flight = []\<rparr>"

text \<open>
  What a run may contain: identifiers and times that the event encoding preserves, tenants without
  the key separator, and no creation of a rule that an earlier step deletes.
\<close>

fun creates :: "cluster_event \<Rightarrow> (string \<times> string) list" where
  "creates (CreateAt i now req) = [(cq_TenantID req, cq_Resource req)]"
| "creates _ = []"

definition created_in :: "cluster_event list \<Rightarrow> (string \<times> string) set" where
  "created_in evs = set (concat (map creates evs))"

fun no_recreate :: "cluster_event list \<Rightarrow> bool" where
  "no_recreate [] = True"
| "no_recreate (DeleteAt i now t r v # evs) = ((t, r) \<notin> created_in evs \<and> no_recreate evs)"
| "no_recreate (ev # evs) = no_recreate evs"

definition key_text :: "(string \<Rightarrow> bool) \<Rightarrow> string \<times> string \<Rightarrow> bool" where
  "key_text txt k \<longleftrightarrow> txt (fst k) \<and> txt (snd k) \<and> sep \<notin> set (fst k)"

fun event_text :: "(string \<Rightarrow> bool) \<Rightarrow> (time \<Rightarrow> bool) \<Rightarrow> cluster_event \<Rightarrow> bool" where
  "event_text txt stamp (CreateAt i now req) = (key_text txt (cq_TenantID req, cq_Resource req) \<and> stamp now)"
| "event_text txt stamp (UpdateAt i now req) = (key_text txt (uq_TenantID req, uq_Resource req) \<and> stamp now)"
| "event_text txt stamp (DeleteAt i now t r v) = (key_text txt (t, r) \<and> stamp now)"
| "event_text txt stamp _ = True"

definition codec_ok :: "marshaller \<Rightarrow> unmarshaller \<Rightarrow> (string \<Rightarrow> bool) \<Rightarrow> (time \<Rightarrow> bool) \<Rightarrow> bool" where
  "codec_ok marshal unmarshal txt stamp \<longleftrightarrow>
     (\<forall>e. txt (ie_TenantID e) \<longrightarrow> txt (ie_Resource e) \<longrightarrow> is_upsert e \<or> is_delete e
        \<longrightarrow> in_int64 (ie_Version e) \<longrightarrow> stamp (ie_Timestamp e) \<longrightarrow> (\<exists>d. marshal e = Inr d \<and> unmarshal d = Inr e))"

lemma codec_okD:
  "codec_ok marshal unmarshal txt stamp \<Longrightarrow> txt (ie_TenantID e) \<Longrightarrow> txt (ie_Resource e) \<Longrightarrow> is_upsert e \<or> is_delete e
    \<Longrightarrow> in_int64 (ie_Version e) \<Longrightarrow> stamp (ie_Timestamp e) \<Longrightarrow> \<exists>d. marshal e = Inr d \<and> unmarshal d = Inr e"
  unfolding codec_ok_def by blast

section \<open>The database as a map\<close>

definition db_abs :: "InMemoryRuleDB \<Rightarrow> rule_map" where
  "db_abs db k = (case gm_get (db_rules db) (ruleKey (fst k) (snd k)) of
      None \<Rightarrow> None | Some x \<Rightarrow> if rule_key x = k then Some x else None)"

definition db_text :: "(string \<Rightarrow> bool) \<Rightarrow> InMemoryRuleDB \<Rightarrow> bool" where
  "db_text txt db \<longleftrightarrow> (\<forall>k x. gm_get (db_rules db) k = Some x \<longrightarrow> key_text txt (rule_key x))"

lemma ruleKey_inj: "sep \<notin> set t \<Longrightarrow> sep \<notin> set t' \<Longrightarrow> ruleKey t r = ruleKey t' r' \<longleftrightarrow> t = t' \<and> r = r'"
  using limiterPoolKey_inj [of t t' r r'] by (simp add: ruleKey_def limiterPoolKey_def)

lemma db_abs_own: "db_abs db k = Some x \<Longrightarrow> rule_key x = k"
  by (auto simp: db_abs_def split: option.splits if_splits)

lemma stored_own:
  assumes "db_inv db" "gm_get (db_rules db) key = Some x"
  shows "key = ruleKey (ru_TenantID x) (ru_Resource x)" "db_abs db (rule_key x) = Some x"
proof -
  from assms show k: "key = ruleKey (ru_TenantID x) (ru_Resource x)" by (auto simp: db_inv_def)
  with assms(2) show "db_abs db (rule_key x) = Some x" by (simp add: db_abs_def rule_key_def)
qed

lemma db_abs_get:
  assumes "db_inv db" "db_text txt db" "sep \<notin> set t"
  shows "db_abs db (t, r) = gm_get (db_rules db) (ruleKey t r)"
proof (cases "gm_get (db_rules db) (ruleKey t r)")
  case None
  then show ?thesis by (simp add: db_abs_def)
next
  case (Some x)
  from assms(2) Some have "sep \<notin> set (ru_TenantID x)" by (auto simp: db_text_def key_text_def rule_key_def)
  with stored_own(1) [OF assms(1) Some] assms(3) have "rule_key x = (t, r)"
    by (simp add: ruleKey_inj rule_key_def)
  with Some show ?thesis by (simp add: db_abs_def)
qed

lemma db_abs_put:
  assumes "sep \<notin> set (ru_TenantID x)" "db_text txt db" "db_inv db"
    and "db_rules db' = gm_put (ruleKey (ru_TenantID x) (ru_Resource x)) x (db_rules db)"
  shows "db_abs db' = (db_abs db)(rule_key x \<mapsto> x)"
proof
  fix k :: "string \<times> string"
  have "rule_key y \<noteq> k" if "ruleKey (fst k) (snd k) = ruleKey (ru_TenantID x) (ru_Resource x)" "k \<noteq> rule_key x"
    "gm_get (db_rules db) (ruleKey (fst k) (snd k)) = Some y" for y
    using that assms(1,2) ruleKey_inj [of "fst k" "ru_TenantID x"]
    by (auto simp: db_text_def key_text_def rule_key_def)
  then show "db_abs db' k = ((db_abs db)(rule_key x \<mapsto> x)) k"
    by (auto simp: db_abs_def assms(4) rule_key_def split: option.splits)
qed

lemma db_abs_del:
  assumes "sep \<notin> set t" "db_text txt db" "db_inv db" "db_rules db' = gm_del (ruleKey t r) (db_rules db)"
  shows "db_abs db' = (db_abs db)((t, r) := None)"
proof
  fix k :: "string \<times> string"
  have "rule_key y \<noteq> k" if "ruleKey (fst k) (snd k) = ruleKey t r" "k \<noteq> (t, r)"
    "gm_get (db_rules db) (ruleKey (fst k) (snd k)) = Some y" for y
    using that assms(1,2) ruleKey_inj [of "fst k" t]
    by (auto simp: db_text_def key_text_def rule_key_def)
  then show "db_abs db' k = ((db_abs db)((t, r) := None)) k"
    by (auto simp: db_abs_def assms(4) split: option.splits)
qed

lemma spec_replace_iff:
  assumes "inj_on rule_key (set rules)"
  shows "spec_replace (map Some rules) k = Some x \<longleftrightarrow> x \<in> set rules \<and> rule_key x = k"
  using assms
proof (induction rules rule: rev_induct)
  case Nil
  then show ?case by (simp add: spec_replace_def)
next
  case (snoc y rules)
  then have "spec_replace (map Some rules) k = Some x \<longleftrightarrow> x \<in> set rules \<and> rule_key x = k" by simp
  moreover have "spec_replace (map Some (rules @ [y])) k =
      (if rule_key y = k then Some y else spec_replace (map Some rules) k)"
    by (simp add: spec_replace_def)
  ultimately show ?case using snoc.prems by (auto simp: inj_on_def)
qed

lemma sync_refines:
  assumes "db_inv db"
  shows "rc_inv (CacheSyncWorker_tick db rc)" "rc_abs (CacheSyncWorker_tick db rc) = db_abs db"
proof -
  let ?rules = "gm_vals (db_rules db)"
  have tick: "CacheSyncWorker_tick db rc = RuleCache_ReplaceAll rc (map Some ?rules)"
    by (auto simp: CacheSyncWorker_tick_def sync_apply_def DB_LoadAll_def)
  have wf: "gm_wf (db_rules db)" using assms by (simp add: db_inv_def)
  have vals: "x \<in> set ?rules \<longleftrightarrow> db_abs db (rule_key x) = Some x" for x
  proof
    assume "x \<in> set ?rules"
    then obtain key where "gm_get (db_rules db) key = Some x" using gm_in_set [OF wf] by fastforce
    then show "db_abs db (rule_key x) = Some x" by (rule stored_own(2) [OF assms])
  next
    assume "db_abs db (rule_key x) = Some x"
    then have "gm_get (db_rules db) (ruleKey (ru_TenantID x) (ru_Resource x)) = Some x"
      by (auto simp: db_abs_def rule_key_def split: option.splits if_splits)
    then show "x \<in> set ?rules" using gm_in_set [OF wf] by force
  qed
  then have inj: "inj_on rule_key (set ?rules)" by (intro inj_onI) (metis option.inject)
  have "spec_replace (map Some ?rules) k = db_abs db k" for k
  proof (cases "db_abs db k")
    case None
    then show ?thesis using spec_replace_iff [OF inj, of k] vals by (cases "spec_replace (map Some ?rules) k") auto
  next
    case (Some x)
    with spec_replace_iff [OF inj, of k x] vals [of x] db_abs_own [OF Some] show ?thesis by simp
  qed
  then show "rc_inv (CacheSyncWorker_tick db rc)" "rc_abs (CacheSyncWorker_tick db rc) = db_abs db"
    using replace_refines [of rc "map Some ?rules"] by (auto simp: tick)
qed

section \<open>The outbox under the machine\<close>

definition ob_good :: "InMemoryOutbox \<Rightarrow> bool" where
  "ob_good ob \<longleftrightarrow> 0 \<le> ob_counter ob \<and> distinct (map ro_ID (ob_rows ob))
     \<and> list_all (\<lambda>r. id_upto (ob_counter ob) (ro_ID r)) (ob_rows ob)"

lemma ob_good_om: "ob_good ob \<longleftrightarrow> om_inv \<lparr>om_ob = ob, om_drawn = [], om_batch = [], om_log = ob_sent ob\<rparr>"
  by (simp add: ob_good_def om_inv_def)

lemma ob_good_rows: "ob_good ob \<Longrightarrow> rows_ok (Some ob)"
  unfolding ob_good_om by (drule om_inv_rows_ok) simp

lemma insert_good:
  assumes "ob_good ob" "ob_counter ob < max_int64"
  obtains rowID ob' where "Outbox_Insert (Some ob) d = (Inr rowID, Some ob')" "ob_good ob'"
    "map ro_Data (pending (Some ob')) = map ro_Data (pending (Some ob)) @ [d]" "ob_counter ob' = ob_counter ob + 1"
proof -
  let ?st = "\<lparr>om_ob = ob, om_drawn = [], om_batch = [], om_log = ob_sent ob\<rparr>"
  let ?pub = "(\<lambda>_. Inr []) :: string \<Rightarrow> go_error + unit list"
  let ?st' = "om_step ?pub (Append 0) (om_step ?pub (Draw d) ?st)"
  have "om_inv ?st'"
    using assms by (intro om_inv_append om_inv_draw(1)) (simp_all add: ob_good_om)
  moreover have "om_drawn ?st' = []" "om_batch ?st' = []" "om_log ?st' = ob_sent (om_ob ?st')"
    by (simp_all add: Insert_draw_def Let_def)
  ultimately have g: "ob_good (om_ob ?st')" by (simp add: ob_good_def om_inv_def del: om_step.simps)
  let ?n = "ob_counter ob + 1"
  have w: "wrap64 ?n = ?n" using assms by (simp add: ob_good_def int64_bounds)
  let ?ob = "Insert_append (ob\<lparr>ob_counter := ?n\<rparr>) (FormatInt ?n) d"
  have "Outbox_Insert (Some ob) d = (Inr (FormatInt ?n), Some ?ob)" by (simp add: Insert_draw_def w Let_def)
  moreover have "om_ob ?st' = ?ob" by (simp add: Insert_draw_def w Let_def)
  ultimately show ?thesis using that g by (simp add: pending_append)
qed

lemma publish_rows_keeps:
  "publish_rows MarkSent publish rows (Some ob) = (ob', ds) \<Longrightarrow>
     \<exists>ob1. ob' = Some ob1 \<and> ob_rows ob1 = ob_rows ob \<and> ob_counter ob1 = ob_counter ob"
proof (induction rows arbitrary: ob ob' ds)
  case Nil
  then show ?case by auto
next
  case (Cons row rows)
  obtain res ob1 where m: "MarkSent (Some ob) (ro_ID row) = (res, Some ob1)" using MarkSent_Some by blast
  note MarkSent_rows [OF m]
  with Cons m show ?case
    by (auto simp del: MarkSent.simps split: sum.splits prod.splits) metis+
qed

lemma tick_keeps:
  assumes "ob_good ob" "OutboxPublisher_tick FetchPending MarkSent publish (Some ob) = (ob', ds)"
  obtains ob1 where "ob' = Some ob1" "ob_good ob1" "ob_counter ob1 = ob_counter ob"
proof -
  have "\<exists>ob1. ob' = Some ob1 \<and> ob_rows ob1 = ob_rows ob \<and> ob_counter ob1 = ob_counter ob"
    using assms(2) publish_rows_keeps
    by (auto simp: OutboxPublisher_tick_def simp del: FetchPending.simps split: sum.splits)
  with that assms(1) show ?thesis by (auto simp: ob_good_def)
qed

section \<open>The invariant of the machine\<close>

definition waiting :: "cluster \<Rightarrow> nat \<Rightarrow> string set" where
  "waiting cl i = ro_Data ` set (pending (Some (cl_outbox cl)))
     \<union> dl_data ` {d \<in> set (cl_flight cl). dl_handler d = i}"

definition ev_out :: "unmarshaller \<Rightarrow> cluster \<Rightarrow> nat \<Rightarrow> InvalidationEvent set" where
  "ev_out unmarshal cl i = {e. \<exists>d \<in> waiting cl i. unmarshal d = Inr e}"

definition events_ok :: "(string \<Rightarrow> bool) \<Rightarrow> InvalidationEvent set \<Rightarrow> bool" where
  "events_ok txt out \<longleftrightarrow> (\<forall>e\<in>out. (is_upsert e \<or> is_delete e) \<and> key_text txt (ev_key e))"

text \<open>\<open>m\<close> bounds the steps to come, so that no version and no row identifier wraps around.\<close>

definition store_ok :: "(string \<Rightarrow> bool) \<Rightarrow> int \<Rightarrow> InMemoryRuleDB \<Rightarrow> bool" where
  "store_ok txt m db \<longleftrightarrow> db_inv db \<and> db_text txt db
     \<and> (\<forall>k x. gm_get (db_rules db) k = Some x \<longrightarrow> 1 \<le> ru_Version x \<and> ru_Version x + m \<le> max_int64)"

definition cl_inv :: "(string \<Rightarrow> bool) \<Rightarrow> unmarshaller \<Rightarrow> (string \<times> string) set \<Rightarrow> int \<Rightarrow> cluster \<Rightarrow> bool" where
  "cl_inv txt unmarshal cr m cl \<longleftrightarrow>
     store_ok txt m (cl_db cl) \<and> ob_good (cl_outbox cl) \<and> ob_counter (cl_outbox cl) + m \<le> max_int64
     \<and> (\<forall>i < length (cl_nodes cl).
          rc_inv (nd_rules (cl_nodes cl ! i)) \<and> events_ok txt (ev_out unmarshal cl i)
          \<and> node_ok (db_abs (cl_db cl)) (rc_abs (nd_rules (cl_nodes cl ! i))) (ev_out unmarshal cl i) cr)"

lemma store_ok_mono: "store_ok txt m db \<Longrightarrow> m' \<le> m \<Longrightarrow> store_ok txt m' db"
  by (force simp: store_ok_def)

lemma cl_inv_mono: "cl_inv txt unmarshal cr m cl \<Longrightarrow> cr' \<subseteq> cr \<Longrightarrow> m' \<le> m \<Longrightarrow> cl_inv txt unmarshal cr' m' cl"
  using store_ok_mono node_ok_mono by (fastforce simp: cl_inv_def)

text \<open>An administrative write at instance \<open>i\<close>: a new database, one event, and at \<open>i\<close> a new cache.\<close>

lemma cl_inv_admin:
  assumes inv: "cl_inv txt unmarshal cr (m + 1) cl" and i: "i < length (cl_nodes cl)" and m: "0 \<le> m"
    and codec: "codec_ok marshal unmarshal txt stamp" "stamp now"
    and e: "key_text txt (t, r)" "action = ''upsert'' \<or> action = ''delete''" "in_int64 v"
    and db: "store_ok txt m db'"
    and rc: "rc_inv rc'"
    and ok: "\<And>j cache' ev. j < length (cl_nodes cl) \<Longrightarrow> ev_key ev = (t, r) \<Longrightarrow> ie_Action ev = action
        \<Longrightarrow> ie_Version ev = v \<Longrightarrow> cache' = rc_abs (nd_rules (cl_nodes cl ! j)) \<or> j = i \<and> cache' = rc_abs rc'
        \<Longrightarrow> node_ok (db_abs db') cache' (insert ev (ev_out unmarshal cl j)) cr"
  shows "\<exists>c. emitInvalidation marshal now ((view cl i)\<lparr>ah_db := Some db', ah_rules := Some rc'\<rparr>) t r action v = (None, c)
      \<and> cl_inv txt unmarshal cr m (put_view cl i c)"
proof -
  let ?ev = "\<lparr>ie_TenantID = t, ie_Resource = r, ie_Action = action, ie_Version = v, ie_Timestamp = now\<rparr>"
  obtain d where d: "marshal ?ev = Inr d" "unmarshal d = Inr ?ev"
    using codec_okD [OF codec(1), of ?ev] codec(2) e by (auto simp: key_text_def is_upsert_def is_delete_def)
  have g: "ob_good (cl_outbox cl)" "ob_counter (cl_outbox cl) < max_int64" using inv m by (auto simp: cl_inv_def)
  then obtain rowID ob' where ob: "Outbox_Insert (Some (cl_outbox cl)) d = (Inr rowID, Some ob')" "ob_good ob'"
      "map ro_Data (pending (Some ob')) = map ro_Data (pending (Some (cl_outbox cl))) @ [d]"
      "ob_counter ob' = ob_counter (cl_outbox cl) + 1"
    by (rule insert_good)
  define c where "c = (view cl i)\<lparr>ah_db := Some db', ah_rules := Some rc', ah_outboxWriter := Some ob'\<rparr>"
  have emit: "emitInvalidation marshal now ((view cl i)\<lparr>ah_db := Some db', ah_rules := Some rc'\<rparr>) t r action v = (None, c)"
    by (simp add: emitInvalidation_def view_def d ob c_def del: Outbox_Insert.simps)
  let ?cl = "put_view cl i c"
  have cl: "?cl = cl\<lparr>cl_db := db', cl_outbox := ob',
      cl_nodes := (cl_nodes cl)[i := \<lparr>nd_rules = rc', nd_pool = nd_pool (cl_nodes cl ! i)\<rparr>]\<rparr>"
    by (simp add: put_view_def c_def view_def)
  have "ro_Data ` set (pending (Some ob')) = insert d (ro_Data ` set (pending (Some (cl_outbox cl))))"
    using arg_cong [OF ob(3), of set] by simp
  then have out: "ev_out unmarshal ?cl j = insert ?ev (ev_out unmarshal cl j)" for j
    using d(2) by (auto simp: ev_out_def waiting_def cl)
  have evs: "events_ok txt (insert ?ev out)" if "events_ok txt out" for out
    using that e by (auto simp: events_ok_def is_upsert_def is_delete_def ev_key_def)
  have "rc_inv (nd_rules (cl_nodes ?cl ! j)) \<and> events_ok txt (ev_out unmarshal ?cl j)
      \<and> node_ok (db_abs (cl_db ?cl)) (rc_abs (nd_rules (cl_nodes ?cl ! j))) (ev_out unmarshal ?cl j) cr"
    if j: "j < length (cl_nodes ?cl)" for j
  proof -
    from j have jl: "j < length (cl_nodes cl)" by (simp add: cl)
    with inv have nj: "rc_inv (nd_rules (cl_nodes cl ! j))" "events_ok txt (ev_out unmarshal cl j)" by (auto simp: cl_inv_def)
    have nd: "nd_rules (cl_nodes ?cl ! j) = (if j = i then rc' else nd_rules (cl_nodes cl ! j))"
      using jl by (simp add: cl nth_list_update)
    have "node_ok (db_abs db') (rc_abs (nd_rules (cl_nodes ?cl ! j))) (insert ?ev (ev_out unmarshal cl j)) cr"
      using jl by (intro ok) (simp_all add: nd ev_key_def)
    moreover have "cl_db ?cl = db'" by (simp add: cl)
    ultimately show ?thesis unfolding out using nj evs rc by (simp add: nd)
  qed
  then have "cl_inv txt unmarshal cr m ?cl"
    using inv db ob by (simp add: cl_inv_def cl)
  with emit show ?thesis by blast
qed

lemma cl_inv_write:
  assumes inv: "cl_inv txt unmarshal cr (m + 1) cl" and i: "i < length (cl_nodes cl)" and m: "0 \<le> m"
    and codec: "codec_ok marshal unmarshal txt stamp" "stamp now"
    and x: "key_text txt (rule_key x)" "may_replace (db_abs (cl_db cl) (rule_key x)) x (rule_key x \<in> cr)"
    and db: "store_ok txt m db'" "db_abs db' = (db_abs (cl_db cl))(rule_key x \<mapsto> x)"
  shows "\<exists>c. after_write marshal now (view cl i) (Inr x, db') = (Inr x, c) \<and> cl_inv txt unmarshal cr m (put_view cl i c)"
proof -
  let ?rc = "nd_rules (cl_nodes cl ! i)"
  have rci: "rc_inv ?rc" using inv i by (simp add: cl_inv_def)
  note up = upsert_refines [OF rci, of x]
  have "\<exists>c. emitInvalidation marshal now ((view cl i)\<lparr>ah_db := Some db', ah_rules := Some (RuleCache_UpsertIfNewer ?rc (Some x))\<rparr>)
        (ru_TenantID x) (ru_Resource x) ''upsert'' (ru_Version x) = (None, c)
      \<and> cl_inv txt unmarshal cr m (put_view cl i c)"
  proof (rule cl_inv_admin [OF inv i m codec _ _ _ db(1) up(1)])
    have "gm_get (db_rules db') (ruleKey (ru_TenantID x) (ru_Resource x)) = Some x"
      using fun_cong [OF db(2), of "rule_key x"] by (auto simp: db_abs_def rule_key_def split: option.splits if_splits)
    then show "in_int64 (ru_Version x)" using db(1) m by (force simp: store_ok_def int64_bounds)
    show "key_text txt (ru_TenantID x, ru_Resource x)" using x(1) by (simp add: rule_key_def)
    fix j cache' ev
    assume j: "j < length (cl_nodes cl)" "ev_key ev = (ru_TenantID x, ru_Resource x)" "ie_Action ev = ''upsert''"
      "ie_Version ev = ru_Version x"
      "cache' = rc_abs (nd_rules (cl_nodes cl ! j)) \<or> j = i \<and> cache' = rc_abs (RuleCache_UpsertIfNewer ?rc (Some x))"
    have n: "node_ok (db_abs (cl_db cl)) (rc_abs (nd_rules (cl_nodes cl ! j))) (ev_out unmarshal cl j) cr"
      using inv j(1) by (simp add: cl_inv_def)
    have u: "ev_key ev = rule_key x" "is_upsert ev" using j by (simp_all add: rule_key_def is_upsert_def)
    have "cache' = rc_abs (nd_rules (cl_nodes cl ! j)) \<or> cache' = spec_upsert x (rc_abs (nd_rules (cl_nodes cl ! j)))"
      using j(5) up(2) by auto
    from node_ok_write [OF n u x(2) this]
    show "node_ok (db_abs db') cache' (insert ev (ev_out unmarshal cl j)) cr" unfolding db(2) .
  qed simp
  then show ?thesis by (auto simp: after_write_def view_def Let_def)
qed

lemma node_eta: "\<lparr>nd_rules = nd_rules n, nd_pool = nd_pool n\<rparr> = n"
  by (cases n) simp

lemma cl_inv_refused:
  assumes "cl_inv txt unmarshal cr (m + 1) cl" "i < length (cl_nodes cl)"
  shows "cl_inv txt unmarshal cr m (put_view cl i ((view cl i)\<lparr>ah_db := Some (cl_db cl)\<rparr>))"
proof -
  have "put_view cl i ((view cl i)\<lparr>ah_db := Some (cl_db cl)\<rparr>) = cl"
    using assms(2) by (simp add: put_view_def view_def node_eta)
  with cl_inv_mono [OF assms(1) order.refl] show ?thesis by simp
qed

lemma store_ok_put:
  assumes "store_ok txt (m + 1) db" "0 \<le> m" "db_inv db'" "key_text txt (rule_key x)"
    and "db_rules db' = gm_put key x (db_rules db)" "1 \<le> ru_Version x" "ru_Version x + m \<le> max_int64"
  shows "store_ok txt m db'"
  using assms by (auto simp: store_ok_def db_text_def) force

lemma cl_inv_create:
  assumes inv: "cl_inv txt unmarshal cr (m + 1) cl" and m: "0 \<le> m" "m < max_int64"
    and codec: "codec_ok marshal unmarshal txt stamp" "event_text txt stamp (CreateAt i now req)"
    and cr: "(cq_TenantID req, cq_Resource req) \<in> cr"
  shows "cl_inv txt unmarshal cr m (cl_step marshal unmarshal sha256hex publish (CreateAt i now req) cl)"
proof (cases "i < length (cl_nodes cl)")
  case True
  from inv have st: "store_ok txt (m + 1) (cl_db cl)" by (simp add: cl_inv_def)
  then have dbi: "db_inv (cl_db cl)" "db_text txt (cl_db cl)" by (simp_all add: store_ok_def)
  obtain res db' where c: "DB_Create sha256hex now (cl_db cl) (Some req) = (res, db')" by fastforce
  have step: "cl_step marshal unmarshal sha256hex publish (CreateAt i now req) cl
      = put_view cl i (snd (after_write marshal now (view cl i) (res, db')))"
    using True c by (simp add: at_node_def view_def del: DB_Create.simps)
  from DB_Create_cases [OF c] consider
      (refused) e where "res = Inl e" "db' = cl_db cl"
    | (replay) x where "res = Inr x" "db' = cl_db cl" "create_replay sha256hex (cl_db cl) req x"
    | (created) "res = Inr (rule_of_create req now)" "create_ok sha256hex now (cl_db cl) req db'"
    by blast
  then show ?thesis
  proof cases
    case refused
    with cl_inv_refused [OF inv True] show ?thesis by (simp only: step) (simp add: after_write_def)
  next
    case replay
    then obtain key where k: "gm_get (db_rules (cl_db cl)) key = Some x" by (auto simp: create_replay_def)
    note x = stored_own(2) [OF dbi(1) k]
    have "key_text txt (rule_key x)" using dbi(2) k by (auto simp: db_text_def)
    moreover have "may_replace (db_abs (cl_db cl) (rule_key x)) x (rule_key x \<in> cr)" by (simp add: x may_replace_def)
    moreover have "db_abs (cl_db cl) = (db_abs (cl_db cl))(rule_key x \<mapsto> x)" using x by (simp add: fun_upd_idem)
    ultimately show ?thesis
      using cl_inv_write [OF inv True m(1) codec(1) _ _ _ store_ok_mono [OF st]] codec(2) replay
      by (simp only: step) (fastforce simp: event_text.simps)
  next
    case created
    let ?x = "rule_of_create req now"
    have key: "rule_key ?x = (cq_TenantID req, cq_Resource req)" by (simp add: rule_key_def rule_of_create_def)
    have kt: "key_text txt (rule_key ?x)" "stamp now" using codec(2) by (simp_all add: key)
    then have sp: "sep \<notin> set (ru_TenantID ?x)" by (simp add: key_text_def rule_key_def)
    have put: "db_rules db' = gm_put (ruleKey (ru_TenantID ?x) (ru_Resource ?x)) ?x (db_rules (cl_db cl))"
      and none: "gm_get (db_rules (cl_db cl)) (ruleKey (cq_TenantID req) (cq_Resource req)) = None"
      using created(2) by (simp_all add: create_ok_def rule_of_create_def)
    have "db_inv db'" using DB_Create_inv [OF dbi(1), of sha256hex now "Some req"] c by simp
    then have "store_ok txt m db'" using m by (intro store_ok_put [OF st m(1) _ kt(1) put]) (simp_all add: rule_of_create_def)
    moreover have "may_replace (db_abs (cl_db cl) (rule_key ?x)) ?x (rule_key ?x \<in> cr)"
      using none cr by (simp add: key db_abs_def may_replace_def)
    ultimately show ?thesis
      using cl_inv_write [OF inv True m(1) codec(1) kt(2,1) _ _ db_abs_put [OF sp dbi(2,1) put]] created(1)
      by (simp only: step) fastforce
  qed
next
  case False
  with cl_inv_mono [OF inv order.refl, of m] show ?thesis by (simp add: at_node_def)
qed

lemma cl_inv_update:
  assumes inv: "cl_inv txt unmarshal cr (m + 1) cl" and m: "0 \<le> m"
    and codec: "codec_ok marshal unmarshal txt stamp" "event_text txt stamp (UpdateAt i now req)"
  shows "cl_inv txt unmarshal cr m (cl_step marshal unmarshal sha256hex publish (UpdateAt i now req) cl)"
proof (cases "i < length (cl_nodes cl)")
  case True
  from inv have st: "store_ok txt (m + 1) (cl_db cl)" by (simp add: cl_inv_def)
  then have dbi: "db_inv (cl_db cl)" "db_text txt (cl_db cl)" by (simp_all add: store_ok_def)
  obtain res db' where c: "DB_Update now (cl_db cl) (Some req) = (res, db')" by fastforce
  have step: "cl_step marshal unmarshal sha256hex publish (UpdateAt i now req) cl
      = put_view cl i (snd (after_write marshal now (view cl i) (res, db')))"
    using True c by (simp add: at_node_def view_def del: DB_Update.simps)
  from DB_Update_cases [OF c] consider
      (refused) e where "res = Inl e" "db' = cl_db cl"
    | (updated) old where "gm_get (db_rules (cl_db cl)) (ruleKey (uq_TenantID req) (uq_Resource req)) = Some old"
        "res = Inr (rule_of_update req old now)"
        "db_rules db' = gm_put (ruleKey (uq_TenantID req) (uq_Resource req)) (rule_of_update req old now) (db_rules (cl_db cl))"
    by fastforce
  then show ?thesis
  proof cases
    case refused
    with cl_inv_refused [OF inv True] show ?thesis by (simp only: step) (simp add: after_write_def)
  next
    case updated
    let ?x = "rule_of_update req old now"
    have v: "1 \<le> ru_Version old" "ru_Version old + (m + 1) \<le> max_int64" using st updated(1) by (auto simp: store_ok_def)
    then have ver: "ru_Version ?x = ru_Version old + 1" using m by (simp add: rule_of_update_def int64_bounds)
    have key: "rule_key ?x = (uq_TenantID req, uq_Resource req)" by (simp add: rule_key_def rule_of_update_def)
    have kt: "key_text txt (rule_key ?x)" "stamp now" using codec(2) by (simp_all add: key)
    then have sp: "sep \<notin> set (ru_TenantID ?x)" "sep \<notin> set (uq_TenantID req)"
      by (simp_all add: key_text_def rule_key_def rule_of_update_def)
    have put: "db_rules db' = gm_put (ruleKey (ru_TenantID ?x) (ru_Resource ?x)) ?x (db_rules (cl_db cl))"
      using updated(3) by (simp add: rule_of_update_def)
    have "db_inv db'" using DB_Update_inv [OF dbi(1), of now "Some req"] c by simp
    then have "store_ok txt m db'" using v by (intro store_ok_put [OF st m _ kt(1) put]) (simp_all add: ver)
    moreover have "may_replace (db_abs (cl_db cl) (rule_key ?x)) ?x (rule_key ?x \<in> cr)"
      using updated(1) by (simp add: key db_abs_get [OF dbi sp(2)] may_replace_def ver)
    ultimately show ?thesis
      using cl_inv_write [OF inv True m codec(1) kt(2,1) _ _ db_abs_put [OF sp(1) dbi(2,1) put]] updated(2)
      by (simp only: step) fastforce
  qed
next
  case False
  with cl_inv_mono [OF inv order.refl, of m] show ?thesis by (simp add: at_node_def)
qed

lemma cl_inv_delete:
  assumes inv: "cl_inv txt unmarshal cr (m + 1) cl" and m: "0 \<le> m"
    and codec: "codec_ok marshal unmarshal txt stamp" "event_text txt stamp (DeleteAt i now t r v)"
    and cr: "(t, r) \<notin> cr"
  shows "cl_inv txt unmarshal cr m (cl_step marshal unmarshal sha256hex publish (DeleteAt i now t r v) cl)"
proof (cases "i < length (cl_nodes cl)")
  case True
  from inv have st: "store_ok txt (m + 1) (cl_db cl)" by (simp add: cl_inv_def)
  then have dbi: "db_inv (cl_db cl)" "db_text txt (cl_db cl)" by (simp_all add: store_ok_def)
  let ?rc = "nd_rules (cl_nodes cl ! i)"
  have rci: "rc_inv ?rc" using inv True by (simp add: cl_inv_def)
  note del = delete_refines [OF rci, of t r v]
  obtain res db' where c: "DB_Delete (cl_db cl) t r v = (res, db')" by fastforce
  from DB_Delete_cases [OF c] consider
      (refused) e where "res = Inl e" "db' = cl_db cl"
    | (deleted) old where "gm_get (db_rules (cl_db cl)) (ruleKey t r) = Some old" "ru_Version old = v" "res = Inr ()"
        "db_rules db' = gm_del (ruleKey t r) (db_rules (cl_db cl))"
    by fastforce
  then show ?thesis
  proof cases
    case refused
    with cl_inv_refused [OF inv True] c True show ?thesis by (simp add: at_node_def view_def)
  next
    case deleted
    have kt: "key_text txt (t, r)" "stamp now" "sep \<notin> set t" using codec(2) by (simp_all add: key_text_def)
    have abs: "db_abs db' = (db_abs (cl_db cl))((t, r) := None)" by (rule db_abs_del [OF kt(3) dbi(2,1) deleted(4)])
    have "db_inv db'" using DB_Delete_inv [OF dbi(1), of t r v] c by simp
    then have sto: "store_ok txt m db'" using st deleted(4) by (auto simp: store_ok_def db_text_def split: if_splits) force
    have "\<exists>c. emitInvalidation marshal now ((view cl i)\<lparr>ah_db := Some db', ah_rules := Some (RuleCache_DeleteIfOlderOrEqual ?rc t r v)\<rparr>)
          t r ''delete'' v = (None, c) \<and> cl_inv txt unmarshal cr m (put_view cl i c)"
    proof (rule cl_inv_admin [OF inv True m codec(1) kt(2,1) _ _ sto del(1)])
      show "in_int64 v" using st deleted(1,2) m by (force simp: store_ok_def int64_bounds)
      fix j cache' ev
      assume j: "j < length (cl_nodes cl)" "ev_key ev = (t, r)" "ie_Action ev = ''delete''" "ie_Version ev = v"
        "cache' = rc_abs (nd_rules (cl_nodes cl ! j)) \<or> j = i \<and> cache' = rc_abs (RuleCache_DeleteIfOlderOrEqual ?rc t r v)"
      have n: "node_ok (db_abs (cl_db cl)) (rc_abs (nd_rules (cl_nodes cl ! j))) (ev_out unmarshal cl j) cr"
        using inv j(1) by (simp add: cl_inv_def)
      have d: "db_abs (cl_db cl) (ev_key ev) = Some old" "is_delete ev" "ie_Version ev = ru_Version old" "ev_key ev \<notin> cr"
        using j deleted cr by (simp_all add: db_abs_get [OF dbi kt(3)] is_delete_def)
      have "cache' = rc_abs (nd_rules (cl_nodes cl ! j)) \<or>
          cache' = spec_delete (ev_key ev) (ie_Version ev) (rc_abs (nd_rules (cl_nodes cl ! j)))"
        using j del(2) by auto
      from node_ok_delete [OF n d this]
      show "node_ok (db_abs db') cache' (insert ev (ev_out unmarshal cl j)) cr" by (simp add: abs j(2))
    qed simp
    with c deleted(3) True show ?thesis by (auto simp: at_node_def view_def Let_def)
  qed
next
  case False
  with cl_inv_mono [OF inv order.refl, of m] show ?thesis by (simp add: at_node_def)
qed

text \<open>A channel that reaches all \<open>n\<close> instances.\<close>

definition reaches :: "(string \<Rightarrow> go_error + nat delivery list) \<Rightarrow> nat \<Rightarrow> bool" where
  "reaches publish n \<longleftrightarrow> (\<forall>d. \<exists>ds. publish d = Inr ds \<and> dl_data ` set ds \<subseteq> {d} \<and> {..<n} \<subseteq> dl_handler ` set ds)"

lemma reachesD:
  assumes "reaches publish n" "i < n"
  shows "dl_data ` {x \<in> set (the_right (publish d)). dl_handler x = i} = {d}" "\<not> isl (publish d)"
proof -
  from assms(1) have "\<exists>ds. publish d = Inr ds \<and> dl_data ` set ds \<subseteq> {d} \<and> {..<n} \<subseteq> dl_handler ` set ds"
    unfolding reaches_def by (rule spec)
  then obtain ds where ds: "publish d = Inr ds" "dl_data ` set ds \<subseteq> {d}" "{..<n} \<subseteq> dl_handler ` set ds"
    by (elim exE conjE)
  have "i \<in> dl_handler ` set ds" using ds(3) assms(2) by blast
  then obtain x where x: "x \<in> set ds" "dl_handler x = i" by blast
  show "\<not> isl (publish d)" by (simp add: ds(1))
  have "dl_data y = d" if "y \<in> set ds" for y using that ds(2) by blast
  with x show "dl_data ` {x \<in> set (the_right (publish d)). dl_handler x = i} = {d}"
    unfolding ds(1) the_right_def sum.case by blast
qed

lemma cl_inv_frame:
  assumes "cl_inv txt unmarshal cr (m + 1) cl" "cl_db cl' = cl_db cl"
    and "ob_good (cl_outbox cl')" "ob_counter (cl_outbox cl') = ob_counter (cl_outbox cl)"
    and "length (cl_nodes cl') = length (cl_nodes cl)"
    and "\<And>j. j < length (cl_nodes cl) \<Longrightarrow> rc_inv (nd_rules (cl_nodes cl' ! j)) \<and> events_ok txt (ev_out unmarshal cl' j)
        \<and> node_ok (db_abs (cl_db cl)) (rc_abs (nd_rules (cl_nodes cl' ! j))) (ev_out unmarshal cl' j) cr"
  shows "cl_inv txt unmarshal cr m cl'"
  using assms store_ok_mono [of "txt" "m + 1" "cl_db cl" m] by (auto simp: cl_inv_def)

lemma cl_inv_tick:
  assumes inv: "cl_inv txt unmarshal cr (m + 1) cl" and pub: "reaches publish (length (cl_nodes cl))"
  shows "cl_inv txt unmarshal cr m (cl_step marshal unmarshal sha256hex publish PublishTick cl)"
proof (cases "cl_nodes cl = []")
  case True
  from inv have g: "ob_good (cl_outbox cl)" by (simp add: cl_inv_def)
  obtain ob' ds where t: "OutboxPublisher_tick FetchPending MarkSent publish (Some (cl_outbox cl)) = (ob', ds)" by fastforce
  from tick_keeps [OF g t] obtain ob1 where "ob' = Some ob1" "ob_good ob1" "ob_counter ob1 = ob_counter (cl_outbox cl)" .
  with t True show ?thesis by (intro cl_inv_frame [OF inv]) simp_all
next
  case False
  from inv have g: "ob_good (cl_outbox cl)" by (simp add: cl_inv_def)
  let ?P = "pending (Some (cl_outbox cl))"
  obtain ob' ds where t: "OutboxPublisher_tick FetchPending MarkSent publish (Some (cl_outbox cl)) = (ob', ds)" by fastforce
  from tick_keeps [OF g t] obtain ob1 where ob: "ob' = Some ob1" "ob_good ob1" "ob_counter ob1 = ob_counter (cl_outbox cl)" .
  note e = memory.tick_effect [OF ob_good_rows [OF g] t]
  have "filter (row_fails publish) (take 100 ?P) = []"
    using reachesD(2) [OF pub] False by (auto simp: row_fails_def filter_empty_conv)
  with e(2) ob(1) have P: "pending (Some ob1) = drop 100 ?P" by simp
  let ?cl = "cl\<lparr>cl_outbox := ob1, cl_flight := cl_flight cl @ ds\<rparr>"
  have "waiting ?cl j = waiting cl j" if j: "j < length (cl_nodes cl)" for j
  proof -
    have "{x \<in> set ds. dl_handler x = j}
        = (\<Union>r \<in> set (take 100 ?P). {x \<in> set (the_right (publish (ro_Data r))). dl_handler x = j})"
      by (auto simp: e(3) row_payload_def)
    then have "dl_data ` {x \<in> set ds. dl_handler x = j} = ro_Data ` set (take 100 ?P)"
      using reachesD(1) [OF pub j] by (simp add: image_UN) auto
    moreover have "ro_Data ` set ?P = ro_Data ` set (take 100 ?P) \<union> ro_Data ` set (drop 100 ?P)"
      by (metis append_take_drop_id image_Un set_append)
    moreover have "{d \<in> set (cl_flight ?cl). dl_handler d = j}
        = {d \<in> set (cl_flight cl). dl_handler d = j} \<union> {d \<in> set ds. dl_handler d = j}" by auto
    moreover have "pending (Some (cl_outbox ?cl)) = drop 100 ?P" by (simp add: P)
    ultimately show ?thesis unfolding waiting_def by (simp only: image_Un) blast
  qed
  then have "ev_out unmarshal ?cl j = ev_out unmarshal cl j" if "j < length (cl_nodes cl)" for j
    using that by (simp add: ev_out_def)
  then have "cl_inv txt unmarshal cr m ?cl"
    using ob inv by (intro cl_inv_frame [OF inv]) (simp_all add: cl_inv_def)
  with t ob(1) show ?thesis by simp
qed

lemma cl_inv_sync:
  assumes inv: "cl_inv txt unmarshal cr (m + 1) cl"
  shows "cl_inv txt unmarshal cr m (cl_step marshal unmarshal sha256hex publish (SyncAt i) cl)"
proof (cases "i < length (cl_nodes cl)")
  case True
  let ?cl = "cl_step marshal unmarshal sha256hex publish (SyncAt i) cl"
  from inv have dbi: "db_inv (cl_db cl)" "db_text txt (cl_db cl)" by (simp_all add: cl_inv_def store_ok_def)
  note sync = sync_refines [OF dbi(1), of "nd_rules (cl_nodes cl ! i)"]
  have cl: "?cl = cl\<lparr>cl_nodes := (cl_nodes cl)[i := \<lparr>nd_rules = CacheSyncWorker_tick (cl_db cl) (nd_rules (cl_nodes cl ! i)),
      nd_pool = nd_pool (cl_nodes cl ! i)\<rparr>]\<rparr>"
    using True by (simp add: at_node_def put_view_def view_def)
  have out: "ev_out unmarshal ?cl j = ev_out unmarshal cl j" for j unfolding cl by (simp add: ev_out_def waiting_def)
  have "node_ok (db_abs (cl_db cl)) (db_abs (cl_db cl)) (ev_out unmarshal cl i) cr"
    using inv True node_ok_sync by (fastforce simp: cl_inv_def)
  moreover have "nd_rules (cl_nodes ?cl ! j) = (if j = i then CacheSyncWorker_tick (cl_db cl) (nd_rules (cl_nodes cl ! i))
      else nd_rules (cl_nodes cl ! j))" if "j < length (cl_nodes cl)" for j
    using that True by (simp only: cl) (simp add: nth_list_update)
  ultimately show ?thesis
    using inv sync by (intro cl_inv_frame [OF inv]) (simp_all add: out cl_inv_def del: cl_step.simps, simp_all add: cl del: cl_step.simps)
next
  case False
  with cl_inv_mono [OF inv order.refl, of m] show ?thesis by (simp add: at_node_def)
qed

lemma DB_Get_abs:
  assumes "db_inv db" "db_text txt db" "key_text txt (t, r)"
  shows "db_abs db (t, r) = (case DB_Get db t r of Inl e \<Rightarrow> None | Inr x \<Rightarrow> Some x)"
proof -
  have get: "db_abs db (t, r) = gm_get (db_rules db) (ruleKey t r)"
    using db_abs_get [OF assms(1,2)] assms(3) by (simp add: key_text_def)
  have "t \<noteq> [] \<and> r \<noteq> []" if "db_abs db (t, r) = Some x" for x
    using that assms(1) get db_abs_own [OF that] by (auto simp: db_inv_def rule_key_def)
  with get show ?thesis by (cases "db_abs db (t, r)") (auto simp: DB_Get_def split: option.splits)
qed

lemma handle_refines:
  assumes db: "db_inv db" "db_text txt db" and c: "ah_db c = Some db" "ah_rules c = Some rc" "rc_inv rc"
    and e: "unmarshal d = Inr e" "key_text txt (ev_key e)" "is_upsert e \<or> is_delete e"
    and h: "CacheInvalidator_handle unmarshal c d = Some c'"
  obtains rc' pool where "c' = c\<lparr>ah_rules := Some rc', cp_pool := pool\<rparr>" "rc_inv rc'"
    "rc_abs rc' = spec_handle (db_abs db) e (rc_abs rc)"
proof -
  let ?t = "ie_TenantID e" and ?r = "ie_Resource e"
  have key: "ev_key e = (?t, ?r)" by (simp add: ev_key_def)
  have cut: "\<exists>pool. c'' = b\<lparr>cp_pool := pool\<rparr>" if "cutover_pool b ?t ?r = Some c''" for b c''
    using that by (auto simp: cutover_pool_def split: option.splits) (metis control_plane.surjective control_plane.update_convs(1))
  show ?thesis
  proof (cases "is_delete e")
    case True
    then have "cutover_pool (handle_delete c e) ?t ?r = Some c'"
      using h e(1) by (simp add: CacheInvalidator_handle_def is_delete_def)
    then obtain pool where p: "c' = (handle_delete c e)\<lparr>cp_pool := pool\<rparr>" using cut by blast
    have "c' = c\<lparr>ah_rules := Some (RuleCache_DeleteIfOlderOrEqual rc ?t ?r (ie_Version e)), cp_pool := pool\<rparr>"
      by (simp add: p handle_delete_def c)
    with that delete_refines [OF c(3)] True show ?thesis by (simp add: spec_handle_def key)
  next
    case False
    then have u: "is_upsert e" using e(3) by simp
    then have "cutover_pool (handle_upsert c e) ?t ?r = Some c'"
      using h e(1) by (simp add: CacheInvalidator_handle_def is_upsert_def)
    then obtain pool where p: "c' = (handle_upsert c e)\<lparr>cp_pool := pool\<rparr>" using cut by blast
    note get = DB_Get_abs [OF db e(2) [unfolded key]]
    show ?thesis
    proof (cases "DB_Get db ?t ?r")
      case (Inl err)
      then have "c' = c\<lparr>ah_rules := Some rc, cp_pool := pool\<rparr>" by (simp add: p handle_upsert_def c(1,2))
      with that c(3) u False get Inl show ?thesis by (simp add: spec_handle_def key)
    next
      case (Inr x)
      have "c' = c\<lparr>ah_rules := Some (RuleCache_UpsertIfNewer rc (Some x)), cp_pool := pool\<rparr>"
        by (simp add: p handle_upsert_def c Inr)
      with that upsert_refines [OF c(3)] u False get Inr show ?thesis by (simp add: spec_handle_def key)
    qed
  qed
qed

text \<open>A delivery to instance \<open>i\<close>, seen from the maps: the event is applied, or the payload ignored.\<close>

lemma handle_node:
  assumes inv: "cl_inv txt unmarshal cr (m + 1) cl" and i: "i < length (cl_nodes cl)" and d: "d \<in> waiting cl i"
    and h: "CacheInvalidator_handle unmarshal (view cl i) d = Some c'"
    and out': "out' \<subseteq> ev_out unmarshal cl i" "\<And>e. e \<in> ev_out unmarshal cl i \<Longrightarrow> unmarshal d \<noteq> Inr e \<Longrightarrow> e \<in> out'"
  obtains rc' pool where "c' = (view cl i)\<lparr>ah_rules := Some rc', cp_pool := pool\<rparr>" "rc_inv rc'"
    "node_ok (db_abs (cl_db cl)) (rc_abs rc') out' cr"
proof -
  let ?rc = "nd_rules (cl_nodes cl ! i)" and ?out = "ev_out unmarshal cl i"
  from inv have dbi: "db_inv (cl_db cl)" "db_text txt (cl_db cl)" by (simp_all add: cl_inv_def store_ok_def)
  from inv i have ri: "rc_inv ?rc" "events_ok txt ?out" "node_ok (db_abs (cl_db cl)) (rc_abs ?rc) ?out cr"
    by (auto simp: cl_inv_def)
  show ?thesis
  proof (cases "unmarshal d")
    case (Inl err)
    then have "c' = (view cl i)\<lparr>ah_rules := Some ?rc, cp_pool := nd_pool (cl_nodes cl ! i)\<rparr>"
      using h by (auto simp: CacheInvalidator_handle_def view_def)
    moreover have "out' = ?out" using out' Inl by auto
    ultimately show ?thesis using that ri by simp
  next
    case (Inr e)
    then have eo: "e \<in> ?out" using d by (auto simp: ev_out_def)
    then have ok: "key_text txt (ev_key e)" "is_upsert e \<or> is_delete e" using ri(2) by (auto simp: events_ok_def)
    have "?out - {e} \<subseteq> out'" using out'(2) Inr by auto
    then have "out' = ?out \<or> out' = ?out - {e}" using out'(1) by blast
    note n = node_ok_handle [OF ri(3) eo this ok(2) db_abs_own]
    have v: "ah_db (view cl i) = Some (cl_db cl)" "ah_rules (view cl i) = Some ?rc" by (simp_all add: view_def)
    from handle_refines [OF dbi v ri(1) Inr ok h] obtain rc' pool where
      r: "c' = (view cl i)\<lparr>ah_rules := Some rc', cp_pool := pool\<rparr>" "rc_inv rc'"
        "rc_abs rc' = spec_handle (db_abs (cl_db cl)) e (rc_abs ?rc)" by blast
    from r(1,2) n show ?thesis unfolding r(3) [symmetric] by (rule that)
  qed
qed

lemma drop_nth_set: "n < length xs \<Longrightarrow> set xs = insert (xs ! n) (set (drop_nth n xs))"
  unfolding drop_nth_def by (metis Un_insert_right id_take_nth_drop list.simps(15) set_append)

lemma deliver_waiting:
  assumes "n < length (cl_flight cl)" "cl_outbox cl' = cl_outbox cl" "cl_flight cl' = drop_nth n (cl_flight cl)"
  shows "waiting cl' j \<subseteq> waiting cl j"
    and "waiting cl j \<subseteq> waiting cl' j \<union> (if j = dl_handler (cl_flight cl ! n) then {dl_data (cl_flight cl ! n)} else {})"
  unfolding waiting_def assms(2,3) using drop_nth_set [OF assms(1)] by auto

lemma cl_inv_deliver:
  assumes inv: "cl_inv txt unmarshal cr (m + 1) cl"
  shows "cl_inv txt unmarshal cr m (cl_step marshal unmarshal sha256hex publish (Deliver n) cl)"
proof (cases "n < length (cl_flight cl) \<and> dl_handler (cl_flight cl ! n) < length (cl_nodes cl)
    \<and> CacheInvalidator_handle unmarshal (view cl (dl_handler (cl_flight cl ! n))) (dl_data (cl_flight cl ! n)) \<noteq> None")
  case False
  with cl_inv_mono [OF inv order.refl, of m] show ?thesis by (auto simp: Let_def)
next
  case True
  let ?d = "dl_data (cl_flight cl ! n)" let ?i = "dl_handler (cl_flight cl ! n)"
  from True have n: "n < length (cl_flight cl)" and i: "?i < length (cl_nodes cl)" by simp_all
  from True obtain c' where h: "CacheInvalidator_handle unmarshal (view cl ?i) ?d = Some c'" by blast
  define cl' where "cl' = (put_view cl ?i c')\<lparr>cl_flight := drop_nth n (cl_flight cl)\<rparr>"
  have d: "?d \<in> waiting cl ?i" using n by (auto simp: waiting_def)
  let ?w = "\<lambda>j. waiting (cl\<lparr>cl_flight := drop_nth n (cl_flight cl)\<rparr>) j"
  let ?o = "\<lambda>j. {e. \<exists>d \<in> ?w j. unmarshal d = Inr e}"
  note w = deliver_waiting [OF n, of "cl\<lparr>cl_flight := drop_nth n (cl_flight cl)\<rparr>", simplified]
  have sub: "?o j \<subseteq> ev_out unmarshal cl j" for j using w(1) [of j] by (auto simp: ev_out_def)
  have keeps: "e \<in> ev_out unmarshal cl j \<Longrightarrow> j \<noteq> ?i \<or> unmarshal ?d \<noteq> Inr e \<Longrightarrow> e \<in> ?o j" for e j
    using w(2) [of j] by (auto simp: ev_out_def split: if_splits)
  obtain rc' pool where c': "c' = (view cl ?i)\<lparr>ah_rules := Some rc', cp_pool := pool\<rparr>" "rc_inv rc'"
      "node_ok (db_abs (cl_db cl)) (rc_abs rc') (?o ?i) cr"
    using handle_node [OF inv i d h sub keeps] by blast
  have cl': "cl' = cl\<lparr>cl_nodes := (cl_nodes cl)[?i := \<lparr>nd_rules = rc', nd_pool = pool\<rparr>], cl_flight := drop_nth n (cl_flight cl)\<rparr>"
    by (simp add: cl'_def put_view_def c'(1) view_def)
  have out: "ev_out unmarshal cl' j = ?o j" for j by (simp add: cl' ev_out_def waiting_def)
  have "cl_inv txt unmarshal cr m cl'"
  proof (rule cl_inv_frame [OF inv])
    fix j assume j: "j < length (cl_nodes cl)"
    have nd: "nd_rules (cl_nodes cl' ! j) = (if j = ?i then rc' else nd_rules (cl_nodes cl ! j))"
      using j by (simp add: cl' nth_list_update)
    from inv j have nj: "rc_inv (nd_rules (cl_nodes cl ! j))" "events_ok txt (ev_out unmarshal cl j)"
      "node_ok (db_abs (cl_db cl)) (rc_abs (nd_rules (cl_nodes cl ! j))) (ev_out unmarshal cl j) cr"
      by (auto simp: cl_inv_def)
    have "events_ok txt (?o j)" using nj(2) sub [of j] unfolding events_ok_def by blast
    moreover have "?o j = ev_out unmarshal cl j" if "j \<noteq> ?i" using that sub [of j] keeps [of _ j] by blast
    ultimately show "rc_inv (nd_rules (cl_nodes cl' ! j)) \<and> events_ok txt (ev_out unmarshal cl' j)
        \<and> node_ok (db_abs (cl_db cl)) (rc_abs (nd_rules (cl_nodes cl' ! j))) (ev_out unmarshal cl' j) cr"
      unfolding out nd using nj c'(2,3) by (cases "j = ?i") simp_all
  next
    show "ob_good (cl_outbox cl')" using inv by (simp add: cl' cl_inv_def)
  qed (simp_all add: cl')
  then show ?thesis using n i h by (simp add: Let_def cl'_def)
qed

section \<open>Runs\<close>

lemma cl_nodes_length: "length (cl_nodes (cl_step marshal unmarshal sha256hex publish ev cl)) = length (cl_nodes cl)"
proof (cases ev)
  case (Deliver n)
  then show ?thesis by (simp add: Let_def put_view_def split: option.split)
next
  case PublishTick
  then show ?thesis by (simp split: prod.split option.split)
qed (simp_all add: at_node_def put_view_def split: option.split)

lemma cl_step_inv:
  assumes inv: "cl_inv txt unmarshal (created_in (ev # evs)) (m + 1) cl" and m: "0 \<le> m" "m < max_int64"
    and codec: "codec_ok marshal unmarshal txt stamp" "event_text txt stamp ev" and fresh: "no_recreate (ev # evs)"
    and pub: "reaches publish (length (cl_nodes cl))"
  shows "cl_inv txt unmarshal (created_in evs) m (cl_step marshal unmarshal sha256hex publish ev cl)"
proof -
  have sub: "created_in evs \<subseteq> created_in (ev # evs)" by (auto simp: created_in_def)
  note inv' = cl_inv_mono [OF inv sub order.refl]
  show ?thesis
  proof (cases ev)
    case (CreateAt i now req)
    then have "(cq_TenantID req, cq_Resource req) \<in> created_in (ev # evs)" by (simp add: created_in_def)
    from cl_inv_mono [OF cl_inv_create [OF inv m codec(1) _ this] sub order.refl] codec(2)
    show ?thesis unfolding CreateAt by blast
  next
    case (UpdateAt i now req)
    from cl_inv_update [OF inv' m(1) codec(1)] codec(2) show ?thesis unfolding UpdateAt by blast
  next
    case (DeleteAt i now t r v)
    then have "(t, r) \<notin> created_in evs" using fresh by simp
    from cl_inv_delete [OF inv' m(1) codec(1) _ this] codec(2) show ?thesis unfolding DeleteAt by blast
  next
    case PublishTick
    from cl_inv_tick [OF inv' pub] show ?thesis unfolding PublishTick .
  next
    case (Deliver n)
    from cl_inv_deliver [OF inv'] show ?thesis unfolding Deliver .
  next
    case (SyncAt i)
    from cl_inv_sync [OF inv'] show ?thesis unfolding SyncAt .
  qed
qed

lemma no_recreate_tl: "no_recreate (ev # evs) \<Longrightarrow> no_recreate evs"
  by (cases ev) simp_all

lemma cl_run_inv:
  assumes "cl_inv txt unmarshal (created_in evs) (int (length evs)) cl" "int (length evs) \<le> max_int64"
    and "codec_ok marshal unmarshal txt stamp" "list_all (event_text txt stamp) evs" "no_recreate evs"
    and "reaches publish (length (cl_nodes cl))"
  shows "cl_inv txt unmarshal {} 0 (cl_run marshal unmarshal sha256hex publish evs cl)"
  using assms
proof (induction evs arbitrary: cl)
  case Nil
  then show ?case by (simp add: cl_run_def created_in_def)
next
  case (Cons ev evs)
  let ?cl = "cl_step marshal unmarshal sha256hex publish ev cl"
  have "cl_inv txt unmarshal (created_in evs) (int (length evs)) ?cl"
    using Cons.prems by (intro cl_step_inv [where stamp = stamp]) (simp_all add: add.commute)
  then have "cl_inv txt unmarshal {} 0 (cl_run marshal unmarshal sha256hex publish evs ?cl)"
    using Cons.prems no_recreate_tl by (intro Cons.IH) (auto simp: cl_nodes_length simp del: no_recreate.simps)
  then show ?case by (simp add: cl_run_def)
qed

lemma cl_inv_start:
  assumes "m \<le> max_int64"
  shows "cl_inv txt unmarshal cr m (cl_start pools)"
proof -
  have "pending (Some NewInMemoryOutbox) = []" "ob_good NewInMemoryOutbox"
    by (simp_all add: pending_def NewInMemoryOutbox_def ob_good_def ob_rows_def)
  moreover have "db_abs NewInMemoryRuleDB = Map.empty"
    by (auto simp: db_abs_def NewInMemoryRuleDB_def)
  moreover have "store_ok txt m NewInMemoryRuleDB"
    using db_inv_New by (simp add: store_ok_def db_text_def NewInMemoryRuleDB_def)
  moreover have "node_ok Map.empty Map.empty {} cr"
    by (rule node_okI) (simp add: key_ok_def about_def)
  ultimately show ?thesis
    using assms by (simp add: cl_inv_def cl_start_def ev_out_def waiting_def events_ok_def rc_inv_New rc_abs_New
        NewInMemoryOutbox_def)
qed

lemma cl_run_length:
  "length (cl_nodes (cl_run marshal unmarshal sha256hex publish evs cl)) = length (cl_nodes cl)"
  unfolding cl_run_def by (induction evs arbitrary: cl) (simp_all add: cl_nodes_length del: cl_step.simps)

section \<open>Properties\<close>

definition stored :: "InMemoryRuleDB \<Rightarrow> string \<Rightarrow> string \<Rightarrow> Rule option" where
  "stored db t r = (case DB_Get db t r of Inl err \<Rightarrow> None | Inr rule \<Rightarrow> Some rule)"


text \<open>An invalidation takes the limiter of its key out of the pool, so that the next check builds one from the
  cached rule.\<close>

lemma handle_cutover:
  assumes "CacheInvalidator_handle unmarshal c d = Some c'" "unmarshal d = Inr e" "is_upsert e \<or> is_delete e"
    and "cp_pool c = Some pool" "pool_inv late pool live" "0 < length (lp_shards pool)"
  shows "\<exists>pool' i. cp_pool c' = Some pool' \<and> pool_inv late pool' live \<and> shardFor pool (ie_TenantID e) (ie_Resource e) = Some i
    \<and> gm_get (sh_m (lp_shards pool' ! i)) (limiterPoolKey (ie_TenantID e) (ie_Resource e)) = None"
proof -
  let ?t = "ie_TenantID e" and ?r = "ie_Resource e"
  obtain b where b: "cutover_pool b ?t ?r = Some c'" "cp_pool b = Some pool"
  proof (cases "is_delete e")
    case True
    with assms(1,2,4) that [of "handle_delete c e"] show ?thesis
      by (simp add: CacheInvalidator_handle_def is_delete_def handle_delete_def)
  next
    case False
    moreover have "cp_pool (handle_upsert c e) = Some pool"
      using assms(4) by (simp add: handle_upsert_def split: option.split sum.split)
    ultimately show ?thesis using assms(1-3) that [of "handle_upsert c e"]
      by (simp add: CacheInvalidator_handle_def is_delete_def is_upsert_def)
  qed
  then obtain i where i: "shardFor pool ?t ?r = Some i" "cp_pool c' = Some (cutover_locked pool i (limiterPoolKey ?t ?r))"
    by (auto simp: cutover_pool_def split: option.splits)
  note lt = shardFor_bound [OF i(1) assms(6)]
  from i cutover_preserves [OF assms(5) lt] cutover_absent(1) [OF assms(5) lt] show ?thesis by blast
qed

section \<open>A concrete run\<close>

text \<open>An encoding of events that is invertible on strings without the separator.\<close>

definition sample_marshal :: marshaller where
  "sample_marshal e = Inr (ie_TenantID e @ sep # ie_Resource e @ sep # ie_Action e @ sep
     # FormatInt (ie_Version e) @ sep # FormatInt (ie_Timestamp e))"

definition sample_unmarshal :: unmarshaller where
  "sample_unmarshal d =
     (case SplitN2 sep d of
        [t, d1] \<Rightarrow> (case SplitN2 sep d1 of
          [r, d2] \<Rightarrow> (case SplitN2 sep d2 of
            [a, d3] \<Rightarrow> (case SplitN2 sep d3 of
              [v, s] \<Rightarrow> (case (ParseInt v, ParseInt s) of
                 (Some n, Some now) \<Rightarrow> Inr \<lparr>ie_TenantID = t, ie_Resource = r, ie_Action = a, ie_Version = n, ie_Timestamp = now\<rparr>
               | _ \<Rightarrow> Inl (ErrorString ''number''))
            | _ \<Rightarrow> Inl (ErrorString ''fields'')) | _ \<Rightarrow> Inl (ErrorString ''fields'')) | _ \<Rightarrow> Inl (ErrorString ''fields''))
      | _ \<Rightarrow> Inl (ErrorString ''fields''))"

lemma sample_codec_ok: "codec_ok sample_marshal sample_unmarshal (\<lambda>s. sep \<notin> set s) in_int64"
  unfolding codec_ok_def
proof (intro allI impI)
  fix e :: InvalidationEvent
  assume a: "sep \<notin> set (ie_TenantID e)" "sep \<notin> set (ie_Resource e)" "is_upsert e \<or> is_delete e"
    "in_int64 (ie_Version e)" "in_int64 (ie_Timestamp e)"
  have "sep \<notin> set (ie_Action e)" using a(3) by (auto simp: is_upsert_def is_delete_def sep_def)
  with a show "\<exists>d. sample_marshal e = Inr d \<and> sample_unmarshal d = Inr e"
    by (simp add: sample_marshal_def sample_unmarshal_def SplitN2_sep FormatInt_no_sep ParseInt_FormatInt)
qed

definition sample_channel :: "nat InMemoryPubSub" where
  "sample_channel = \<lparr>ps_subs = Some [(''c'', [(1, \<lparr>sb_ctx = 1, sb_handler = 0\<rparr>), (2, \<lparr>sb_ctx = 2, sb_handler = 1\<rparr>)])], ps_next = 2\<rparr>"

definition sample_publish :: "string \<Rightarrow> go_error + nat delivery list" where
  "sample_publish = PubSub_Publish (\<lambda>c. False) (Some sample_channel) ''c''"

lemma sample_reaches: "reaches sample_publish 2"
  unfolding reaches_def
proof
  fix d
  have "sample_publish d = Inr [\<lparr>dl_ctx = 1, dl_handler = 0, dl_data = d\<rparr>, \<lparr>dl_ctx = 2, dl_handler = 1, dl_data = d\<rparr>]"
    by (simp add: sample_publish_def sample_channel_def)
  moreover have "{..<2} = {0, 1::nat}" by auto
  ultimately show "\<exists>ds. sample_publish d = Inr ds \<and> dl_data ` set ds \<subseteq> {d} \<and> {..<2} \<subseteq> dl_handler ` set ds" by auto
qed

definition sample_cluster :: "cluster_event list \<Rightarrow> cluster" where
  "sample_cluster evs = cl_run sample_marshal sample_unmarshal (\<lambda>s. s) sample_publish evs (cl_start [None, None])"

definition create_event :: "string \<Rightarrow> cluster_event" where
  "create_event idem = CreateAt 0 0 (sample_create idem 5)"

definition update_event :: "int64 \<Rightarrow> cluster_event" where
  "update_event v = UpdateAt 0 0 (sample_update 7 v)"


text \<open>
  Why a deleted rule must not be created again: the version of the new rule starts at 1, deliveries
  overtake each other, and an instance that handles the new event before the deletion keeps its old rule first
  and then loses it. All events have been handled, and the instance has no rule while the database has one.
\<close>

definition recreate_events :: "cluster_event list" where
  "recreate_events = [create_event [], update_event 1, PublishTick, Deliver 0, Deliver 0, Deliver 0, Deliver 0,
     DeleteAt 0 0 ''t'' ''r'' 2, create_event [], PublishTick, Deliver 3, Deliver 1, Deliver 0, Deliver 0]"

lemma recreate_lost:
  "pending (Some (cl_outbox (sample_cluster recreate_events))) = []
   \<and> cl_flight (sample_cluster recreate_events) = []
   \<and> map_option ru_Version (stored (cl_db (sample_cluster recreate_events)) ''t'' ''r'') = Some 1
   \<and> RuleCache_Get (nd_rules (cl_nodes (sample_cluster recreate_events) ! 1)) ''t'' ''r'' = None"
  by code_simp

text \<open>
  A full synchronisation that read the database before an update and replaces the cache after it takes the
  cache back to the older version.
\<close>

lemma sync_rolls_back:
  "map_option ru_Version (RuleCache_Get
     (sync_apply (DB_LoadAll (cl_db (sample_cluster [create_event []])))
        (nd_rules (cl_nodes (sample_cluster [create_event [], update_event 1]) ! 0))) ''t'' ''r'') = Some 1
   \<and> map_option ru_Version (stored (cl_db (sample_cluster [create_event [], update_event 1])) ''t'' ''r'') = Some 2"
  by code_simp

text \<open>
  When the event cannot be written the caller sees an error, and the database and the cache keep the change.
\<close>

lemma write_survives_emit_error:
  assumes "ah_outboxWriter h = None" "ah_db h = Some db" "ah_rules h = Some rc"
    and "DB_Update now db (Some req) = (Inr rule, db')"
  shows "UpdateRule marshal now (Some h) (Some req) =
     (Inl (ErrorString ''outbox writer is not configured''),
      Some (h\<lparr>ah_db := Some db', ah_rules := Some (RuleCache_UpsertIfNewer rc (Some rule))\<rparr>))"
  using assms by (simp add: after_write_def emitInvalidation_def Let_def del: DB_Update.simps)

end
