(* ===== verification/Config.thy ===== *)
theory Config
  imports Go_Conv Circuit Limiter_Pool Fallback Degrade
begin

text \<open>
  Configuration: \<^verbatim>\<open>config/config.go\<close>, \<^verbatim>\<open>config/config_load.go\<close> and \<^verbatim>\<open>config/config_env.go\<close>. A
  configuration starts from the defaults and is overridden by a file, then by the environment, then by
  flags. Reading the file, parsing its text into a JSON value and converting a decimal literal to a
  double are arguments; what \<^verbatim>\<open>encoding/json\<close> does with a JSON value and what \<^verbatim>\<open>flag\<close> does with the
  arguments is modelled here. An error message of those two packages or of \<^verbatim>\<open>strconv\<close> is not modelled beyond
  being an error.
\<close>

section \<open>The configuration\<close>

text \<open>A dependency (a store, a database, a tracer) is nil or a reference.\<close>

record Config =
  cf_Region :: string
  cf_RegionGroup :: string
  cf_EnableGlobalOwnership :: bool
  cf_GlobalOwnershipFallback :: bool
  cf_RegionInstanceWeight :: int64
  cf_DegradeRequireRegionQuorum :: bool
  cf_RegionQuorumFraction :: float64
  cf_Redis :: "nat option"
  cf_RuleDB :: "nat option"
  cf_Outbox :: "nat option"
  cf_PubSub :: "nat option"
  cf_Membership :: "nat option"
  cf_Channel :: string
  cf_HTTPListenAddr :: string
  cf_EnableHTTP :: bool
  cf_EnableGRPC :: bool
  cf_GRPCListenAddr :: string
  cf_GRPCKeepAlive :: duration
  cf_TraceSampleRate :: int64
  cf_CoalesceEnabled :: bool
  cf_CoalesceTTL :: duration
  cf_CoalesceShards :: int64
  cf_BreakerOptions :: CircuitOptions
  cf_CacheSyncInterval :: duration
  cf_HealthInterval :: duration
  cf_LimiterPolicy :: LimiterPolicy
  cf_FallbackPolicy :: FallbackPolicy
  cf_DegradeThresh :: DegradeThresholds
  cf_Tracer :: "nat option"
  cf_Sampler :: "nat option"
  cf_Metrics :: "nat option"
  cf_HTTPReadTimeout :: duration
  cf_HTTPWriteTimeout :: duration
  cf_HTTPIdleTimeout :: duration
  cf_RequestTimeout :: duration
  cf_DrainTimeout :: duration
  cf_MaxBodyBytes :: int64
  cf_EnableAuth :: bool
  cf_AdminToken :: string
  cf_Logger :: "nat option"

definition defaultConfig :: Config where
  "defaultConfig = \<lparr>
     cf_Region = ''local'',
     cf_RegionGroup = [],
     cf_EnableGlobalOwnership = False,
     cf_GlobalOwnershipFallback = False,
     cf_RegionInstanceWeight = 0,
     cf_DegradeRequireRegionQuorum = False,
     cf_RegionQuorumFraction = 0,
     cf_Redis = None,
     cf_RuleDB = None,
     cf_Outbox = None,
     cf_PubSub = None,
     cf_Membership = None,
     cf_Channel = [],
     cf_HTTPListenAddr = '':8080'',
     cf_EnableHTTP = True,
     cf_EnableGRPC = True,
     cf_GRPCListenAddr = '':9090'',
     cf_GRPCKeepAlive = 60 * Second,
     cf_TraceSampleRate = 100,
     cf_CoalesceEnabled = True,
     cf_CoalesceTTL = 10 * Millisecond,
     cf_CoalesceShards = 64,
     cf_BreakerOptions = \<lparr>co_FailureThreshold = 10, co_OpenDuration = 200 * Millisecond, co_HalfOpenMaxCalls = 5\<rparr>,
     cf_CacheSyncInterval = 200 * Millisecond,
     cf_HealthInterval = 100 * Millisecond,
     cf_LimiterPolicy = \<lparr>po_Shards = 16, po_MaxEntriesShard = 1024, po_QuiesceWindow = 50 * Millisecond, po_CloseTimeout = 2 * Second\<rparr>,
     cf_FallbackPolicy = \<lparr>fp_LocalCapPerWindow = 100, fp_DenyWhenNotOwner = True, fp_EmergencyAllowSmallCap = True, fp_EmergencyCapPerWindow = 10\<rparr>,
     cf_DegradeThresh = \<lparr>dt_RedisUnhealthyFor = 500 * Millisecond, dt_MembershipUnhealthy = 2 * Second, dt_ErrorRateWindow = 0\<rparr>,
     cf_Tracer = None,
     cf_Sampler = None,
     cf_Metrics = None,
     cf_HTTPReadTimeout = 5 * Second,
     cf_HTTPWriteTimeout = 10 * Second,
     cf_HTTPIdleTimeout = 60 * Second,
     cf_RequestTimeout = 2 * Second,
     cf_DrainTimeout = 5 * Second,
     cf_MaxBodyBytes = 2 ^ 20,
     cf_EnableAuth = False,
     cf_AdminToken = [],
     cf_Logger = None\<rparr>"

section \<open>Overrides\<close>

record durationValue =
  dv_Value :: duration
  dv_Set :: bool

record circuitOptionsInput =
  ci_FailureThreshold :: "int64 option"
  ci_OpenDuration :: "durationValue option"
  ci_HalfOpenMaxCalls :: "int64 option"

record limiterPolicyInput =
  pi_Shards :: "int64 option"
  pi_MaxEntriesShard :: "int64 option"
  pi_QuiesceWindow :: "durationValue option"
  pi_CloseTimeout :: "durationValue option"

record fallbackPolicyInput =
  fi_LocalCapPerWindow :: "int64 option"
  fi_DenyWhenNotOwner :: "bool option"
  fi_EmergencyAllowSmallCap :: "bool option"
  fi_EmergencyCapPerWindow :: "int64 option"

record degradeThreshInput =
  di_RedisUnhealthyFor :: "durationValue option"
  di_MembershipUnhealthy :: "durationValue option"
  di_ErrorRateWindow :: "durationValue option"

record configOverrides =
  ov_Region :: "string option"
  ov_RegionGroup :: "string option"
  ov_EnableGlobalOwnership :: "bool option"
  ov_GlobalOwnershipFallback :: "bool option"
  ov_RegionInstanceWeight :: "int64 option"
  ov_DegradeRequireRegionQuorum :: "bool option"
  ov_RegionQuorumFraction :: "float64 option"
  ov_Channel :: "string option"
  ov_HTTPListenAddr :: "string option"
  ov_EnableHTTP :: "bool option"
  ov_EnableGRPC :: "bool option"
  ov_GRPCListenAddr :: "string option"
  ov_GRPCKeepAlive :: "durationValue option"
  ov_TraceSampleRate :: "int64 option"
  ov_CoalesceEnabled :: "bool option"
  ov_CoalesceTTL :: "durationValue option"
  ov_CoalesceShards :: "int64 option"
  ov_BreakerOptions :: "circuitOptionsInput option"
  ov_CacheSyncInterval :: "durationValue option"
  ov_HealthInterval :: "durationValue option"
  ov_LimiterPolicy :: "limiterPolicyInput option"
  ov_FallbackPolicy :: "fallbackPolicyInput option"
  ov_DegradeThresh :: "degradeThreshInput option"
  ov_HTTPReadTimeout :: "durationValue option"
  ov_HTTPWriteTimeout :: "durationValue option"
  ov_HTTPIdleTimeout :: "durationValue option"
  ov_RequestTimeout :: "durationValue option"
  ov_DrainTimeout :: "durationValue option"
  ov_MaxBodyBytes :: "int64 option"
  ov_EnableAuth :: "bool option"
  ov_AdminToken :: "string option"

definition or_else :: "'a option \<Rightarrow> 'a \<Rightarrow> 'a" where
  "or_else v old = (case v of None \<Rightarrow> old | Some x \<Rightarrow> x)"

definition dur_or :: "durationValue option \<Rightarrow> duration \<Rightarrow> duration" where
  "dur_or v old = (case v of None \<Rightarrow> old | Some d \<Rightarrow> if dv_Set d then dv_Value d else old)"

definition apply_circuitOptionsInput :: "circuitOptionsInput option \<Rightarrow> CircuitOptions \<Rightarrow> CircuitOptions" where
  "apply_circuitOptionsInput input v =
     (case input of
        None \<Rightarrow> v
      | Some x \<Rightarrow> v\<lparr>co_FailureThreshold := or_else (ci_FailureThreshold x) (co_FailureThreshold v),
          co_OpenDuration := dur_or (ci_OpenDuration x) (co_OpenDuration v),
          co_HalfOpenMaxCalls := or_else (ci_HalfOpenMaxCalls x) (co_HalfOpenMaxCalls v)\<rparr>)"

definition apply_limiterPolicyInput :: "limiterPolicyInput option \<Rightarrow> LimiterPolicy \<Rightarrow> LimiterPolicy" where
  "apply_limiterPolicyInput input v =
     (case input of
        None \<Rightarrow> v
      | Some x \<Rightarrow> v\<lparr>po_Shards := or_else (pi_Shards x) (po_Shards v),
          po_MaxEntriesShard := or_else (pi_MaxEntriesShard x) (po_MaxEntriesShard v),
          po_QuiesceWindow := dur_or (pi_QuiesceWindow x) (po_QuiesceWindow v),
          po_CloseTimeout := dur_or (pi_CloseTimeout x) (po_CloseTimeout v)\<rparr>)"

definition apply_fallbackPolicyInput :: "fallbackPolicyInput option \<Rightarrow> FallbackPolicy \<Rightarrow> FallbackPolicy" where
  "apply_fallbackPolicyInput input v =
     (case input of
        None \<Rightarrow> v
      | Some x \<Rightarrow> v\<lparr>fp_LocalCapPerWindow := or_else (fi_LocalCapPerWindow x) (fp_LocalCapPerWindow v),
          fp_DenyWhenNotOwner := or_else (fi_DenyWhenNotOwner x) (fp_DenyWhenNotOwner v),
          fp_EmergencyAllowSmallCap := or_else (fi_EmergencyAllowSmallCap x) (fp_EmergencyAllowSmallCap v),
          fp_EmergencyCapPerWindow := or_else (fi_EmergencyCapPerWindow x) (fp_EmergencyCapPerWindow v)\<rparr>)"

definition apply_degradeThreshInput :: "degradeThreshInput option \<Rightarrow> DegradeThresholds \<Rightarrow> DegradeThresholds" where
  "apply_degradeThreshInput input v =
     (case input of
        None \<Rightarrow> v
      | Some x \<Rightarrow> v\<lparr>dt_RedisUnhealthyFor := dur_or (di_RedisUnhealthyFor x) (dt_RedisUnhealthyFor v),
          dt_MembershipUnhealthy := dur_or (di_MembershipUnhealthy x) (dt_MembershipUnhealthy v),
          dt_ErrorRateWindow := dur_or (di_ErrorRateWindow x) (dt_ErrorRateWindow v)\<rparr>)"

definition apply_overrides :: "configOverrides \<Rightarrow> Config \<Rightarrow> Config" where
  "apply_overrides ov cfg = cfg\<lparr>
     cf_Region := or_else (ov_Region ov) (cf_Region cfg),
     cf_RegionGroup := or_else (ov_RegionGroup ov) (cf_RegionGroup cfg),
     cf_EnableGlobalOwnership := or_else (ov_EnableGlobalOwnership ov) (cf_EnableGlobalOwnership cfg),
     cf_GlobalOwnershipFallback := or_else (ov_GlobalOwnershipFallback ov) (cf_GlobalOwnershipFallback cfg),
     cf_RegionInstanceWeight := or_else (ov_RegionInstanceWeight ov) (cf_RegionInstanceWeight cfg),
     cf_DegradeRequireRegionQuorum := or_else (ov_DegradeRequireRegionQuorum ov) (cf_DegradeRequireRegionQuorum cfg),
     cf_RegionQuorumFraction := or_else (ov_RegionQuorumFraction ov) (cf_RegionQuorumFraction cfg),
     cf_Channel := or_else (ov_Channel ov) (cf_Channel cfg),
     cf_HTTPListenAddr := or_else (ov_HTTPListenAddr ov) (cf_HTTPListenAddr cfg),
     cf_EnableHTTP := or_else (ov_EnableHTTP ov) (cf_EnableHTTP cfg),
     cf_EnableGRPC := or_else (ov_EnableGRPC ov) (cf_EnableGRPC cfg),
     cf_GRPCListenAddr := or_else (ov_GRPCListenAddr ov) (cf_GRPCListenAddr cfg),
     cf_GRPCKeepAlive := dur_or (ov_GRPCKeepAlive ov) (cf_GRPCKeepAlive cfg),
     cf_TraceSampleRate := or_else (ov_TraceSampleRate ov) (cf_TraceSampleRate cfg),
     cf_CoalesceEnabled := or_else (ov_CoalesceEnabled ov) (cf_CoalesceEnabled cfg),
     cf_CoalesceTTL := dur_or (ov_CoalesceTTL ov) (cf_CoalesceTTL cfg),
     cf_CoalesceShards := or_else (ov_CoalesceShards ov) (cf_CoalesceShards cfg),
     cf_BreakerOptions := apply_circuitOptionsInput (ov_BreakerOptions ov) (cf_BreakerOptions cfg),
     cf_CacheSyncInterval := dur_or (ov_CacheSyncInterval ov) (cf_CacheSyncInterval cfg),
     cf_HealthInterval := dur_or (ov_HealthInterval ov) (cf_HealthInterval cfg),
     cf_LimiterPolicy := apply_limiterPolicyInput (ov_LimiterPolicy ov) (cf_LimiterPolicy cfg),
     cf_FallbackPolicy := apply_fallbackPolicyInput (ov_FallbackPolicy ov) (cf_FallbackPolicy cfg),
     cf_DegradeThresh := apply_degradeThreshInput (ov_DegradeThresh ov) (cf_DegradeThresh cfg),
     cf_HTTPReadTimeout := dur_or (ov_HTTPReadTimeout ov) (cf_HTTPReadTimeout cfg),
     cf_HTTPWriteTimeout := dur_or (ov_HTTPWriteTimeout ov) (cf_HTTPWriteTimeout cfg),
     cf_HTTPIdleTimeout := dur_or (ov_HTTPIdleTimeout ov) (cf_HTTPIdleTimeout cfg),
     cf_RequestTimeout := dur_or (ov_RequestTimeout ov) (cf_RequestTimeout cfg),
     cf_DrainTimeout := dur_or (ov_DrainTimeout ov) (cf_DrainTimeout cfg),
     cf_MaxBodyBytes := or_else (ov_MaxBodyBytes ov) (cf_MaxBodyBytes cfg),
     cf_EnableAuth := or_else (ov_EnableAuth ov) (cf_EnableAuth cfg),
     cf_AdminToken := or_else (ov_AdminToken ov) (cf_AdminToken cfg)\<rparr>"

fun applyConfigOverrides :: "Config option \<Rightarrow> configOverrides option \<Rightarrow> Config option" where
  "applyConfigOverrides (Some cfg) (Some ov) = Some (apply_overrides ov cfg)"
| "applyConfigOverrides cfg ov = cfg"

section \<open>JSON values\<close>

datatype json = JNull | JBool bool | JNumber string | JString string | JArray "json list" | JObject "(string \<times> json) list"

definition json_error :: go_error where "json_error = ErrorString ''json''"

definition parse_error :: go_error where "parse_error = ErrorString ''strconv''"

definition duration_millis :: "string \<Rightarrow> go_error + durationValue" where
  "duration_millis s =
     (case ParseInt s of
        None \<Rightarrow> Inl parse_error
      | Some value \<Rightarrow> Inr \<lparr>dv_Value = wrap64 (value * Millisecond), dv_Set = True\<rparr>)"

text \<open>
  A number, or a string: one that is a number literal is taken as a number, any other is parsed as
  text, with the same conversion.
\<close>

fun UnmarshalJSON :: "durationValue option \<Rightarrow> json \<Rightarrow> go_error + durationValue option" where
  "UnmarshalJSON None v = Inr None"
| "UnmarshalJSON (Some d) JNull = Inr (Some d)"
| "UnmarshalJSON (Some d) (JNumber s) = map_sum id Some (duration_millis s)"
| "UnmarshalJSON (Some d) (JString s) = map_sum id Some (duration_millis s)"
| "UnmarshalJSON (Some d) v = Inl (ErrorString ''invalid duration value'')"

text \<open>How \<^verbatim>\<open>encoding/json\<close> stores a value through a pointer: null makes it nil.\<close>

fun dec_string :: "json \<Rightarrow> go_error + string option" where
  "dec_string JNull = Inr None"
| "dec_string (JString s) = Inr (Some s)"
| "dec_string v = Inl json_error"

fun dec_bool :: "json \<Rightarrow> go_error + bool option" where
  "dec_bool JNull = Inr None"
| "dec_bool (JBool b) = Inr (Some b)"
| "dec_bool v = Inl json_error"

fun dec_int :: "json \<Rightarrow> go_error + int64 option" where
  "dec_int JNull = Inr None"
| "dec_int (JNumber s) = (case ParseInt s of None \<Rightarrow> Inl json_error | Some n \<Rightarrow> Inr (Some n))"
| "dec_int v = Inl json_error"

fun dec_float :: "(string \<Rightarrow> float64 option) \<Rightarrow> json \<Rightarrow> go_error + float64 option" where
  "dec_float parse_float JNull = Inr None"
| "dec_float parse_float (JNumber s) = (case parse_float s of None \<Rightarrow> Inl json_error | Some x \<Rightarrow> Inr (Some x))"
| "dec_float parse_float v = Inl json_error"

definition dec_duration :: "json \<Rightarrow> go_error + durationValue option" where
  "dec_duration v = (if v = JNull then Inr None else UnmarshalJSON (Some \<lparr>dv_Value = 0, dv_Set = False\<rparr>) v)"

text \<open>Field names are matched up to the folding of upper and lower case: ASCII letters, and the two characters
  outside ASCII that fold to ASCII (U+017F, bytes C5 BF, to \<^verbatim>\<open>S\<close> and U+212A, bytes E2 84 AA, to \<^verbatim>\<open>K\<close>).\<close>

definition fold_letter :: "char \<Rightarrow> char" where
  "fold_letter c =
     (case map_of (zip ''abcdefghijklmnopqrstuvwxyz'' ''ABCDEFGHIJKLMNOPQRSTUVWXYZ'') c of
        None \<Rightarrow> c | Some u \<Rightarrow> u)"

function foldName :: "string \<Rightarrow> string" where
  "foldName s =
     (if s = [] then []
      else if take 2 s = [CHR 0xC5, CHR 0xBF] then CHR ''S'' # foldName (drop 2 s)
      else if take 3 s = [CHR 0xE2, CHR 0x84, CHR 0xAA] then CHR ''K'' # foldName (drop 3 s)
      else fold_letter (hd s) # foldName (tl s))"
  by pat_completeness auto
termination
  by (relation "measure length") auto

declare foldName.simps [simp del]

lemma foldName_plain:
  "CHR 0xC5 \<notin> set s \<Longrightarrow> CHR 0xE2 \<notin> set s \<Longrightarrow> foldName s = map fold_letter s"
proof (induction s)
  case Nil
  then show ?case by (simp add: foldName.simps)
next
  case (Cons c s)
  then have "take 2 (c # s) \<noteq> [CHR 0xC5, CHR 0xBF]" "take 3 (c # s) \<noteq> [CHR 0xE2, CHR 0x84, CHR 0xAA]"
    by (auto simp: numeral_2_eq_2 numeral_3_eq_3)
  with Cons show ?case by (subst foldName.simps) auto
qed

type_synonym 'r field_table = "(string \<times> (json \<Rightarrow> 'r \<Rightarrow> go_error + 'r)) list"

definition store_field :: "(json \<Rightarrow> go_error + 'a) \<Rightarrow> ('a \<Rightarrow> 'r \<Rightarrow> 'r) \<Rightarrow> json \<Rightarrow> 'r \<Rightarrow> go_error + 'r" where
  "store_field dec put v x = (case dec v of Inl e \<Rightarrow> Inl e | Inr a \<Rightarrow> Inr (put a x))"

fun decode_fields :: "'r field_table \<Rightarrow> (string \<times> json) list \<Rightarrow> 'r \<Rightarrow> go_error + 'r" where
  "decode_fields table [] x = Inr x"
| "decode_fields table ((k, v) # fs) x =
     (case map_of (map (\<lambda>(n, f). (foldName n, f)) table) (foldName k) of
        None \<Rightarrow> decode_fields table fs x
      | Some f \<Rightarrow> (case f v x of Inl e \<Rightarrow> Inl e | Inr x1 \<Rightarrow> decode_fields table fs x1))"

text \<open>A nested structure behind a pointer: an object that occurs again is decoded into the same structure.\<close>

definition store_struct ::
    "'s field_table \<Rightarrow> 's \<Rightarrow> ('r \<Rightarrow> 's option) \<Rightarrow> ('s option \<Rightarrow> 'r \<Rightarrow> 'r) \<Rightarrow> json \<Rightarrow> 'r \<Rightarrow> go_error + 'r" where
  "store_struct table zero get put v x =
     (case v of
        JNull \<Rightarrow> Inr (put None x)
      | JObject fs \<Rightarrow>
          (case decode_fields table fs (or_else (get x) zero) of
             Inl e \<Rightarrow> Inl e | Inr s \<Rightarrow> Inr (put (Some s) x))
      | _ \<Rightarrow> Inl json_error)"

definition circuitOptionsInput_table :: "circuitOptionsInput field_table" where
  "circuitOptionsInput_table = [
     (''FailureThreshold'', store_field (dec_int) (\<lambda>v x. x\<lparr>ci_FailureThreshold := v\<rparr>)),
     (''OpenDuration'', store_field (dec_duration) (\<lambda>v x. x\<lparr>ci_OpenDuration := v\<rparr>)),
     (''HalfOpenMaxCalls'', store_field (dec_int) (\<lambda>v x. x\<lparr>ci_HalfOpenMaxCalls := v\<rparr>))]"

definition no_circuitOptionsInput :: circuitOptionsInput where
  "no_circuitOptionsInput = \<lparr>ci_FailureThreshold = None, ci_OpenDuration = None, ci_HalfOpenMaxCalls = None\<rparr>"

definition limiterPolicyInput_table :: "limiterPolicyInput field_table" where
  "limiterPolicyInput_table = [
     (''Shards'', store_field (dec_int) (\<lambda>v x. x\<lparr>pi_Shards := v\<rparr>)),
     (''MaxEntriesShard'', store_field (dec_int) (\<lambda>v x. x\<lparr>pi_MaxEntriesShard := v\<rparr>)),
     (''QuiesceWindow'', store_field (dec_duration) (\<lambda>v x. x\<lparr>pi_QuiesceWindow := v\<rparr>)),
     (''CloseTimeout'', store_field (dec_duration) (\<lambda>v x. x\<lparr>pi_CloseTimeout := v\<rparr>))]"

definition no_limiterPolicyInput :: limiterPolicyInput where
  "no_limiterPolicyInput = \<lparr>pi_Shards = None, pi_MaxEntriesShard = None, pi_QuiesceWindow = None, pi_CloseTimeout = None\<rparr>"

definition fallbackPolicyInput_table :: "fallbackPolicyInput field_table" where
  "fallbackPolicyInput_table = [
     (''LocalCapPerWindow'', store_field (dec_int) (\<lambda>v x. x\<lparr>fi_LocalCapPerWindow := v\<rparr>)),
     (''DenyWhenNotOwner'', store_field (dec_bool) (\<lambda>v x. x\<lparr>fi_DenyWhenNotOwner := v\<rparr>)),
     (''EmergencyAllowSmallCap'', store_field (dec_bool) (\<lambda>v x. x\<lparr>fi_EmergencyAllowSmallCap := v\<rparr>)),
     (''EmergencyCapPerWindow'', store_field (dec_int) (\<lambda>v x. x\<lparr>fi_EmergencyCapPerWindow := v\<rparr>))]"

definition no_fallbackPolicyInput :: fallbackPolicyInput where
  "no_fallbackPolicyInput = \<lparr>fi_LocalCapPerWindow = None, fi_DenyWhenNotOwner = None, fi_EmergencyAllowSmallCap = None, fi_EmergencyCapPerWindow = None\<rparr>"

definition degradeThreshInput_table :: "degradeThreshInput field_table" where
  "degradeThreshInput_table = [
     (''RedisUnhealthyFor'', store_field (dec_duration) (\<lambda>v x. x\<lparr>di_RedisUnhealthyFor := v\<rparr>)),
     (''MembershipUnhealthy'', store_field (dec_duration) (\<lambda>v x. x\<lparr>di_MembershipUnhealthy := v\<rparr>)),
     (''ErrorRateWindow'', store_field (dec_duration) (\<lambda>v x. x\<lparr>di_ErrorRateWindow := v\<rparr>))]"

definition no_degradeThreshInput :: degradeThreshInput where
  "no_degradeThreshInput = \<lparr>di_RedisUnhealthyFor = None, di_MembershipUnhealthy = None, di_ErrorRateWindow = None\<rparr>"

definition configOverrides_table :: "(string \<Rightarrow> float64 option) \<Rightarrow> configOverrides field_table" where
  "configOverrides_table parse_float = [
     (''Region'', store_field (dec_string) (\<lambda>v x. x\<lparr>ov_Region := v\<rparr>)),
     (''RegionGroup'', store_field (dec_string) (\<lambda>v x. x\<lparr>ov_RegionGroup := v\<rparr>)),
     (''EnableGlobalOwnership'', store_field (dec_bool) (\<lambda>v x. x\<lparr>ov_EnableGlobalOwnership := v\<rparr>)),
     (''GlobalOwnershipFallback'', store_field (dec_bool) (\<lambda>v x. x\<lparr>ov_GlobalOwnershipFallback := v\<rparr>)),
     (''RegionInstanceWeight'', store_field (dec_int) (\<lambda>v x. x\<lparr>ov_RegionInstanceWeight := v\<rparr>)),
     (''DegradeRequireRegionQuorum'', store_field (dec_bool) (\<lambda>v x. x\<lparr>ov_DegradeRequireRegionQuorum := v\<rparr>)),
     (''RegionQuorumFraction'', store_field (dec_float parse_float) (\<lambda>v x. x\<lparr>ov_RegionQuorumFraction := v\<rparr>)),
     (''Channel'', store_field (dec_string) (\<lambda>v x. x\<lparr>ov_Channel := v\<rparr>)),
     (''HTTPListenAddr'', store_field (dec_string) (\<lambda>v x. x\<lparr>ov_HTTPListenAddr := v\<rparr>)),
     (''EnableHTTP'', store_field (dec_bool) (\<lambda>v x. x\<lparr>ov_EnableHTTP := v\<rparr>)),
     (''EnableGRPC'', store_field (dec_bool) (\<lambda>v x. x\<lparr>ov_EnableGRPC := v\<rparr>)),
     (''GRPCListenAddr'', store_field (dec_string) (\<lambda>v x. x\<lparr>ov_GRPCListenAddr := v\<rparr>)),
     (''GRPCKeepAlive'', store_field (dec_duration) (\<lambda>v x. x\<lparr>ov_GRPCKeepAlive := v\<rparr>)),
     (''TraceSampleRate'', store_field (dec_int) (\<lambda>v x. x\<lparr>ov_TraceSampleRate := v\<rparr>)),
     (''CoalesceEnabled'', store_field (dec_bool) (\<lambda>v x. x\<lparr>ov_CoalesceEnabled := v\<rparr>)),
     (''CoalesceTTL'', store_field (dec_duration) (\<lambda>v x. x\<lparr>ov_CoalesceTTL := v\<rparr>)),
     (''CoalesceShards'', store_field (dec_int) (\<lambda>v x. x\<lparr>ov_CoalesceShards := v\<rparr>)),
     (''BreakerOptions'', store_struct circuitOptionsInput_table no_circuitOptionsInput ov_BreakerOptions (\<lambda>v x. x\<lparr>ov_BreakerOptions := v\<rparr>)),
     (''CacheSyncInterval'', store_field (dec_duration) (\<lambda>v x. x\<lparr>ov_CacheSyncInterval := v\<rparr>)),
     (''HealthInterval'', store_field (dec_duration) (\<lambda>v x. x\<lparr>ov_HealthInterval := v\<rparr>)),
     (''LimiterPolicy'', store_struct limiterPolicyInput_table no_limiterPolicyInput ov_LimiterPolicy (\<lambda>v x. x\<lparr>ov_LimiterPolicy := v\<rparr>)),
     (''FallbackPolicy'', store_struct fallbackPolicyInput_table no_fallbackPolicyInput ov_FallbackPolicy (\<lambda>v x. x\<lparr>ov_FallbackPolicy := v\<rparr>)),
     (''DegradeThresh'', store_struct degradeThreshInput_table no_degradeThreshInput ov_DegradeThresh (\<lambda>v x. x\<lparr>ov_DegradeThresh := v\<rparr>)),
     (''HTTPReadTimeout'', store_field (dec_duration) (\<lambda>v x. x\<lparr>ov_HTTPReadTimeout := v\<rparr>)),
     (''HTTPWriteTimeout'', store_field (dec_duration) (\<lambda>v x. x\<lparr>ov_HTTPWriteTimeout := v\<rparr>)),
     (''HTTPIdleTimeout'', store_field (dec_duration) (\<lambda>v x. x\<lparr>ov_HTTPIdleTimeout := v\<rparr>)),
     (''RequestTimeout'', store_field (dec_duration) (\<lambda>v x. x\<lparr>ov_RequestTimeout := v\<rparr>)),
     (''DrainTimeout'', store_field (dec_duration) (\<lambda>v x. x\<lparr>ov_DrainTimeout := v\<rparr>)),
     (''MaxBodyBytes'', store_field (dec_int) (\<lambda>v x. x\<lparr>ov_MaxBodyBytes := v\<rparr>)),
     (''EnableAuth'', store_field (dec_bool) (\<lambda>v x. x\<lparr>ov_EnableAuth := v\<rparr>)),
     (''AdminToken'', store_field (dec_string) (\<lambda>v x. x\<lparr>ov_AdminToken := v\<rparr>))]"

definition no_overrides :: configOverrides where
  "no_overrides = \<lparr>ov_Region = None,
     ov_RegionGroup = None,
     ov_EnableGlobalOwnership = None,
     ov_GlobalOwnershipFallback = None,
     ov_RegionInstanceWeight = None,
     ov_DegradeRequireRegionQuorum = None,
     ov_RegionQuorumFraction = None,
     ov_Channel = None,
     ov_HTTPListenAddr = None,
     ov_EnableHTTP = None,
     ov_EnableGRPC = None,
     ov_GRPCListenAddr = None,
     ov_GRPCKeepAlive = None,
     ov_TraceSampleRate = None,
     ov_CoalesceEnabled = None,
     ov_CoalesceTTL = None,
     ov_CoalesceShards = None,
     ov_BreakerOptions = None,
     ov_CacheSyncInterval = None,
     ov_HealthInterval = None,
     ov_LimiterPolicy = None,
     ov_FallbackPolicy = None,
     ov_DegradeThresh = None,
     ov_HTTPReadTimeout = None,
     ov_HTTPWriteTimeout = None,
     ov_HTTPIdleTimeout = None,
     ov_RequestTimeout = None,
     ov_DrainTimeout = None,
     ov_MaxBodyBytes = None,
     ov_EnableAuth = None,
     ov_AdminToken = None\<rparr>"

fun decode_overrides :: "(string \<Rightarrow> float64 option) \<Rightarrow> json \<Rightarrow> go_error + configOverrides" where
  "decode_overrides parse_float (JObject fs) =
     decode_fields (configOverrides_table parse_float) fs no_overrides"
| "decode_overrides parse_float JNull = Inr no_overrides"
| "decode_overrides parse_float v = Inl json_error"

text \<open>What the host gives: the contents of a file, the JSON value of a text, the double of a literal.\<close>

record host =
  ho_ReadFile :: "string \<Rightarrow> go_error + string"
  ho_json :: "string \<Rightarrow> json option"
  ho_float :: "string \<Rightarrow> float64 option"
  ho_Args :: "string list"
  ho_Environ :: "string list"

definition loadConfigFile :: "host \<Rightarrow> string \<Rightarrow> go_error + configOverrides" where
  "loadConfigFile host path =
     (case ho_ReadFile host path of
        Inl err \<Rightarrow> Inl err
      | Inr data \<Rightarrow>
          (case ho_json host data of
             None \<Rightarrow> Inl json_error
           | Some v \<Rightarrow> decode_overrides (ho_float host) v))"

section \<open>The environment\<close>

definition envMap :: "string list \<Rightarrow> (string, string) gomap" where
  "envMap environ = fold (\<lambda>entry values.
     (case SplitN2 (CHR ''='') entry of
        [k, v] \<Rightarrow> (let key = TrimSpace k in if key = [] then values else gm_put key v values)
      | _ \<Rightarrow> values)) environ []"

definition env_error :: "string \<Rightarrow> go_error" where
  "env_error name = ErrorString (''invalid env value for '' @ name)"

definition parseBoolEnv :: "string \<Rightarrow> string \<Rightarrow> go_error + bool" where
  "parseBoolEnv name v = (case ParseBool (TrimSpace v) of None \<Rightarrow> Inl (env_error name) | Some b \<Rightarrow> Inr b)"

definition parseIntEnv :: "string \<Rightarrow> string \<Rightarrow> go_error + int64" where
  "parseIntEnv name v = (case ParseInt (TrimSpace v) of None \<Rightarrow> Inl (env_error name) | Some n \<Rightarrow> Inr n)"

text \<open>One setting: absent, stored, or an error that ends the loop.\<close>

definition env_setting ::
    "(string \<Rightarrow> string \<Rightarrow> go_error + 'a) \<Rightarrow> string \<Rightarrow> ('a \<Rightarrow> Config \<Rightarrow> Config)
      \<Rightarrow> (string, string) gomap \<Rightarrow> go_error + Config \<Rightarrow> go_error + Config" where
  "env_setting parse name put values r =
     (case r of
        Inl e \<Rightarrow> Inl e
      | Inr cfg \<Rightarrow>
          (case gm_get values name of
             None \<Rightarrow> Inr cfg
           | Some v \<Rightarrow> (case parse name v of Inl e \<Rightarrow> Inl e | Inr x \<Rightarrow> Inr (put x cfg))))"

definition millis :: "int64 \<Rightarrow> duration" where
  "millis n = wrap64 (n * Millisecond)"

definition env_settings :: "((string, string) gomap \<Rightarrow> go_error + Config \<Rightarrow> go_error + Config) list" where
  "env_settings = [
     env_setting (\<lambda>n. Inr) ''RATELIMIT_REGION'' (\<lambda>v cfg. cfg\<lparr>cf_Region := v\<rparr>),
     env_setting parseBoolEnv ''RATELIMIT_ENABLE_HTTP'' (\<lambda>v cfg. cfg\<lparr>cf_EnableHTTP := v\<rparr>),
     env_setting (\<lambda>n. Inr) ''RATELIMIT_HTTP_ADDR'' (\<lambda>v cfg. cfg\<lparr>cf_HTTPListenAddr := v\<rparr>),
     env_setting parseBoolEnv ''RATELIMIT_ENABLE_GRPC'' (\<lambda>v cfg. cfg\<lparr>cf_EnableGRPC := v\<rparr>),
     env_setting (\<lambda>n. Inr) ''RATELIMIT_GRPC_ADDR'' (\<lambda>v cfg. cfg\<lparr>cf_GRPCListenAddr := v\<rparr>),
     env_setting parseBoolEnv ''RATELIMIT_ENABLE_AUTH'' (\<lambda>v cfg. cfg\<lparr>cf_EnableAuth := v\<rparr>),
     env_setting (\<lambda>n. Inr) ''RATELIMIT_ADMIN_TOKEN'' (\<lambda>v cfg. cfg\<lparr>cf_AdminToken := v\<rparr>),
     env_setting parseIntEnv ''RATELIMIT_TRACE_SAMPLE_RATE'' (\<lambda>v cfg. cfg\<lparr>cf_TraceSampleRate := v\<rparr>),
     env_setting parseBoolEnv ''RATELIMIT_COALESCE_ENABLED'' (\<lambda>v cfg. cfg\<lparr>cf_CoalesceEnabled := v\<rparr>),
     env_setting parseIntEnv ''RATELIMIT_COALESCE_TTL_MS'' (\<lambda>v cfg. cfg\<lparr>cf_CoalesceTTL := millis v\<rparr>),
     env_setting parseIntEnv ''RATELIMIT_BREAKER_FAILURE_THRESHOLD''
       (\<lambda>v cfg. cfg\<lparr>cf_BreakerOptions := (cf_BreakerOptions cfg)\<lparr>co_FailureThreshold := v\<rparr>\<rparr>),
     env_setting parseIntEnv ''RATELIMIT_BREAKER_OPEN_MS''
       (\<lambda>v cfg. cfg\<lparr>cf_BreakerOptions := (cf_BreakerOptions cfg)\<lparr>co_OpenDuration := millis v\<rparr>\<rparr>)]"

fun applyEnvOverrides :: "Config option \<Rightarrow> string list \<Rightarrow> go_error + Config" where
  "applyEnvOverrides None environ = Inl (ErrorString ''config is required'')"
| "applyEnvOverrides (Some cfg) environ =
     fold (\<lambda>setting. setting (envMap environ)) env_settings (Inr cfg)"

section \<open>Flags\<close>

text \<open>\<^verbatim>\<open>strconv.ParseInt(s, 0, 64)\<close>, the conversion of an integer flag: the base follows from the prefix, and
  single underscores may separate digits.\<close>

definition lower_letter :: "char \<Rightarrow> nat" where
  "lower_letter c = (let n = of_char c in if 65 \<le> n \<and> n \<le> 90 then n + 32 else n)"

definition digit_value :: "char \<Rightarrow> nat option" where
  "digit_value c =
     (let n = lower_letter c in
      if 48 \<le> n \<and> n \<le> 57 then Some (n - 48) else if 97 \<le> n \<and> n \<le> 122 then Some (n - 87) else None)"

fun base_value :: "nat \<Rightarrow> nat \<Rightarrow> string \<Rightarrow> nat option" where
  "base_value b n [] = Some n"
| "base_value b n (c # s) =
     (if c = CHR ''_'' then base_value b n s
      else case digit_value c of
             None \<Rightarrow> None
           | Some d \<Rightarrow> if d \<ge> b then None else base_value b (b * n + d) s)"

definition base_prefix :: "string \<Rightarrow> nat \<times> string" where
  "base_prefix s =
     (if take 1 s \<noteq> ''0'' then (10, s)
      else if length s \<ge> 3 \<and> lower_letter (s ! 1) = 98 then (2, drop 2 s)
      else if length s \<ge> 3 \<and> lower_letter (s ! 1) = 111 then (8, drop 2 s)
      else if length s \<ge> 3 \<and> lower_letter (s ! 1) = 120 then (16, drop 2 s)
      else (8, drop 1 s))"

text \<open>The scan of \<^verbatim>\<open>underscoreOK\<close>; \<open>prev\<close> is the class of the previous character.\<close>

datatype seen = SeenStart | SeenDigit | SeenUnderscore | SeenOther

fun underscore_scan :: "bool \<Rightarrow> seen \<Rightarrow> string \<Rightarrow> bool" where
  "underscore_scan hex prev [] = (prev \<noteq> SeenUnderscore)"
| "underscore_scan hex prev (c # s) =
     (if 48 \<le> lower_letter c \<and> lower_letter c \<le> 57 \<or> hex \<and> 97 \<le> lower_letter c \<and> lower_letter c \<le> 102
      then underscore_scan hex SeenDigit s
      else if c = CHR ''_'' then prev = SeenDigit \<and> underscore_scan hex SeenUnderscore s
      else prev \<noteq> SeenUnderscore \<and> underscore_scan hex SeenOther s)"

definition underscoreOK :: "string \<Rightarrow> bool" where
  "underscoreOK s =
     (if length s \<ge> 2 \<and> s ! 0 = CHR ''0'' \<and> lower_letter (s ! 1) \<in> {98, 111, 120}
      then underscore_scan (lower_letter (s ! 1) = 120) SeenDigit (drop 2 s)
      else underscore_scan False SeenStart s)"

definition ParseInt0 :: "string \<Rightarrow> int64 option" where
  "ParseInt0 s =
     (case s of
        [] \<Rightarrow> None
      | c # r \<Rightarrow>
          (let u = (if c = CHR ''-'' \<or> c = CHR ''+'' then r else s);
               (b, ds) = base_prefix u
           in if u = [] \<or> CHR ''_'' \<in> set u \<and> \<not> underscoreOK u then None
              else case base_value b 0 ds of
                     None \<Rightarrow> None
                   | Some n \<Rightarrow>
                       (let v = (if c = CHR ''-'' then - int n else int n)
                        in if in_int64 v then Some v else None)))"

datatype flag_value = FString string | FBool bool | FInt int64

datatype flag_kind = StringFlag | BoolFlag | IntFlag

definition flag_table :: "(string \<times> flag_kind) list" where
  "flag_table = [(''config'', StringFlag), (''region'', StringFlag), (''enable_http'', BoolFlag),
     (''http_addr'', StringFlag), (''enable_grpc'', BoolFlag), (''grpc_addr'', StringFlag), (''enable_auth'', BoolFlag),
     (''admin_token'', StringFlag), (''trace_sample_rate'', IntFlag), (''coalesce_enabled'', BoolFlag),
     (''coalesce_ttl_ms'', IntFlag), (''breaker_failure_threshold'', IntFlag), (''breaker_open_ms'', IntFlag)]"

fun flag_Set :: "flag_kind \<Rightarrow> string \<Rightarrow> flag_value option" where
  "flag_Set StringFlag s = Some (FString s)"
| "flag_Set BoolFlag s = map_option FBool (ParseBool s)"
| "flag_Set IntFlag s = map_option FInt (ParseInt0 s)"

text \<open>A flag argument without its dashes: its name, and its value after the first \<^verbatim>\<open>=\<close> past the first byte.\<close>

definition split_flag :: "string \<Rightarrow> string \<times> string option" where
  "split_flag s =
     (case SplitN2 (CHR ''='') (tl s) of
        [a, b] \<Rightarrow> (hd s # a, Some b)
      | _ \<Rightarrow> (s, None))"

text \<open>\<^verbatim>\<open>FlagSet.Parse\<close>: the flags that were set, or \<^term>\<open>None\<close> for any error; the first argument that
  is not a flag, or \<^verbatim>\<open>--\<close>, ends the flags.\<close>

function parse_flags :: "string list \<Rightarrow> (string, flag_value) gomap \<Rightarrow> (string, flag_value) gomap option" where
  "parse_flags args set' =
     (case args of
        [] \<Rightarrow> Some set'
      | s # rest \<Rightarrow>
          if length s < 2 \<or> hd s \<noteq> CHR ''-'' then Some set'
          else if s = ''--'' then Some set'
          else
            let body = (if s ! 1 = CHR ''-'' then drop 2 s else drop 1 s) in
            if body = [] \<or> hd body = CHR ''-'' \<or> hd body = CHR ''='' then None
            else
              (case split_flag body of
                 (name, value) \<Rightarrow>
                   (case map_of flag_table name of
                      None \<Rightarrow> None
                    | Some kind \<Rightarrow>
                        (case value of
                           Some v \<Rightarrow>
                             (case flag_Set kind v of None \<Rightarrow> None | Some x \<Rightarrow> parse_flags rest (gm_put name x set'))
                         | None \<Rightarrow>
                             if kind = BoolFlag then parse_flags rest (gm_put name (FBool True) set')
                             else (case rest of
                                     [] \<Rightarrow> None
                                   | v # rest1 \<Rightarrow>
                                       (case flag_Set kind v of None \<Rightarrow> None | Some x \<Rightarrow> parse_flags rest1 (gm_put name x set')))))))"
  by pat_completeness auto
termination
  by (relation "measure (\<lambda>(args, s). length args)") auto

declare parse_flags.simps [simp del]

record flagOverrides =
  fo_ConfigPath :: "string option"
  fo_Region :: "string option"
  fo_EnableHTTP :: "bool option"
  fo_HTTPListenAddr :: "string option"
  fo_EnableGRPC :: "bool option"
  fo_GRPCListenAddr :: "string option"
  fo_EnableAuth :: "bool option"
  fo_AdminToken :: "string option"
  fo_TraceSampleRate :: "int64 option"
  fo_CoalesceEnabled :: "bool option"
  fo_CoalesceTTLMS :: "int64 option"
  fo_BreakerFailureThreshold :: "int64 option"
  fo_BreakerOpenMS :: "int64 option"

definition flag_string :: "(string, flag_value) gomap \<Rightarrow> string \<Rightarrow> string option" where
  "flag_string m n = (case gm_get m n of Some (FString s) \<Rightarrow> Some s | _ \<Rightarrow> None)"

definition flag_bool :: "(string, flag_value) gomap \<Rightarrow> string \<Rightarrow> bool option" where
  "flag_bool m n = (case gm_get m n of Some (FBool b) \<Rightarrow> Some b | _ \<Rightarrow> None)"

definition flag_int :: "(string, flag_value) gomap \<Rightarrow> string \<Rightarrow> int64 option" where
  "flag_int m n = (case gm_get m n of Some (FInt i) \<Rightarrow> Some i | _ \<Rightarrow> None)"

definition parseFlagOverrides :: "string list \<Rightarrow> go_error + flagOverrides" where
  "parseFlagOverrides args =
     (case parse_flags args [] of
        None \<Rightarrow> Inl (ErrorString ''invalid flag values'')
      | Some m \<Rightarrow> Inr \<lparr>
          fo_ConfigPath = flag_string m ''config'', fo_Region = flag_string m ''region'',
          fo_EnableHTTP = flag_bool m ''enable_http'', fo_HTTPListenAddr = flag_string m ''http_addr'',
          fo_EnableGRPC = flag_bool m ''enable_grpc'', fo_GRPCListenAddr = flag_string m ''grpc_addr'',
          fo_EnableAuth = flag_bool m ''enable_auth'', fo_AdminToken = flag_string m ''admin_token'',
          fo_TraceSampleRate = flag_int m ''trace_sample_rate'', fo_CoalesceEnabled = flag_bool m ''coalesce_enabled'',
          fo_CoalesceTTLMS = flag_int m ''coalesce_ttl_ms'',
          fo_BreakerFailureThreshold = flag_int m ''breaker_failure_threshold'',
          fo_BreakerOpenMS = flag_int m ''breaker_open_ms''\<rparr>)"

definition apply_flags :: "flagOverrides \<Rightarrow> Config \<Rightarrow> Config" where
  "apply_flags fo cfg = cfg\<lparr>
     cf_Region := or_else (fo_Region fo) (cf_Region cfg),
     cf_EnableHTTP := or_else (fo_EnableHTTP fo) (cf_EnableHTTP cfg),
     cf_HTTPListenAddr := or_else (fo_HTTPListenAddr fo) (cf_HTTPListenAddr cfg),
     cf_EnableGRPC := or_else (fo_EnableGRPC fo) (cf_EnableGRPC cfg),
     cf_GRPCListenAddr := or_else (fo_GRPCListenAddr fo) (cf_GRPCListenAddr cfg),
     cf_EnableAuth := or_else (fo_EnableAuth fo) (cf_EnableAuth cfg),
     cf_AdminToken := or_else (fo_AdminToken fo) (cf_AdminToken cfg),
     cf_TraceSampleRate := or_else (fo_TraceSampleRate fo) (cf_TraceSampleRate cfg),
     cf_CoalesceEnabled := or_else (fo_CoalesceEnabled fo) (cf_CoalesceEnabled cfg),
     cf_CoalesceTTL := or_else (map_option millis (fo_CoalesceTTLMS fo)) (cf_CoalesceTTL cfg),
     cf_BreakerOptions := (cf_BreakerOptions cfg)\<lparr>
       co_FailureThreshold := or_else (fo_BreakerFailureThreshold fo) (co_FailureThreshold (cf_BreakerOptions cfg)),
       co_OpenDuration := or_else (map_option millis (fo_BreakerOpenMS fo)) (co_OpenDuration (cf_BreakerOptions cfg))\<rparr>\<rparr>"

definition applyFlagOverrides :: "Config option \<Rightarrow> flagOverrides \<Rightarrow> Config option" where
  "applyFlagOverrides cfg fo = map_option (apply_flags fo) cfg"

section \<open>Loading\<close>

record LoadOptions =
  lo_ConfigPath :: string
  lo_Args :: "string list option"
  lo_Environ :: "string list option"

definition base_config :: "host \<Rightarrow> string \<Rightarrow> go_error + Config" where
  "base_config host path =
     (if path = [] then Inr defaultConfig
      else map_sum id (\<lambda>ov. apply_overrides ov defaultConfig) (loadConfigFile host path))"

definition LoadConfig :: "host \<Rightarrow> LoadOptions \<Rightarrow> go_error + Config" where
  "LoadConfig host opts =
     (let args = or_else (lo_Args opts) (tl (ho_Args host));
          environ = or_else (lo_Environ opts) (ho_Environ host)
      in case parseFlagOverrides args of
           Inl err \<Rightarrow> Inl err
         | Inr fo \<Rightarrow>
             (let configPath = or_else (fo_ConfigPath fo) (lo_ConfigPath opts)
              in case base_config host configPath of
                   Inl err \<Rightarrow> Inl err
                 | Inr cfg \<Rightarrow>
                     (case applyEnvOverrides (Some cfg) environ of
                        Inl err \<Rightarrow> Inl err
                      | Inr cfg1 \<Rightarrow> Inr (apply_flags fo cfg1))))"

section \<open>Reference definitions\<close>

text \<open>The value a variable gives, when it is there and well-formed.\<close>

definition env_string :: "(string, string) gomap \<Rightarrow> string \<Rightarrow> string option" where
  "env_string values name = gm_get values name"

definition env_bool :: "(string, string) gomap \<Rightarrow> string \<Rightarrow> bool option" where
  "env_bool values name = Option.bind (gm_get values name) (\<lambda>v. ParseBool (TrimSpace v))"

definition env_int :: "(string, string) gomap \<Rightarrow> string \<Rightarrow> int64 option" where
  "env_int values name = Option.bind (gm_get values name) (\<lambda>v. ParseInt (TrimSpace v))"

text \<open>All settings at once.\<close>

definition apply_env :: "(string, string) gomap \<Rightarrow> Config \<Rightarrow> Config" where
  "apply_env values cfg = cfg\<lparr>
     cf_Region := or_else (env_string values ''RATELIMIT_REGION'') (cf_Region cfg),
     cf_EnableHTTP := or_else (env_bool values ''RATELIMIT_ENABLE_HTTP'') (cf_EnableHTTP cfg),
     cf_HTTPListenAddr := or_else (env_string values ''RATELIMIT_HTTP_ADDR'') (cf_HTTPListenAddr cfg),
     cf_EnableGRPC := or_else (env_bool values ''RATELIMIT_ENABLE_GRPC'') (cf_EnableGRPC cfg),
     cf_GRPCListenAddr := or_else (env_string values ''RATELIMIT_GRPC_ADDR'') (cf_GRPCListenAddr cfg),
     cf_EnableAuth := or_else (env_bool values ''RATELIMIT_ENABLE_AUTH'') (cf_EnableAuth cfg),
     cf_AdminToken := or_else (env_string values ''RATELIMIT_ADMIN_TOKEN'') (cf_AdminToken cfg),
     cf_TraceSampleRate := or_else (env_int values ''RATELIMIT_TRACE_SAMPLE_RATE'') (cf_TraceSampleRate cfg),
     cf_CoalesceEnabled := or_else (env_bool values ''RATELIMIT_COALESCE_ENABLED'') (cf_CoalesceEnabled cfg),
     cf_CoalesceTTL := or_else (map_option millis (env_int values ''RATELIMIT_COALESCE_TTL_MS'')) (cf_CoalesceTTL cfg),
     cf_BreakerOptions := (cf_BreakerOptions cfg)\<lparr>
       co_FailureThreshold := or_else (env_int values ''RATELIMIT_BREAKER_FAILURE_THRESHOLD'') (co_FailureThreshold (cf_BreakerOptions cfg)),
       co_OpenDuration := or_else (map_option millis (env_int values ''RATELIMIT_BREAKER_OPEN_MS'')) (co_OpenDuration (cf_BreakerOptions cfg))\<rparr>\<rparr>"

definition bool_vars :: "string list" where
  "bool_vars = [''RATELIMIT_ENABLE_HTTP'', ''RATELIMIT_ENABLE_GRPC'', ''RATELIMIT_ENABLE_AUTH'', ''RATELIMIT_COALESCE_ENABLED'']"

definition int_vars :: "string list" where
  "int_vars = [''RATELIMIT_TRACE_SAMPLE_RATE'', ''RATELIMIT_COALESCE_TTL_MS'',
     ''RATELIMIT_BREAKER_FAILURE_THRESHOLD'', ''RATELIMIT_BREAKER_OPEN_MS'']"

definition env_valid :: "(string, string) gomap \<Rightarrow> bool" where
  "env_valid values \<longleftrightarrow>
     list_all (\<lambda>n. gm_get values n \<noteq> None \<longrightarrow> env_bool values n \<noteq> None) bool_vars
     \<and> list_all (\<lambda>n. gm_get values n \<noteq> None \<longrightarrow> env_int values n \<noteq> None) int_vars"

definition put_opt :: "('a \<Rightarrow> 'c \<Rightarrow> 'c) \<Rightarrow> 'a option \<Rightarrow> 'c \<Rightarrow> 'c" where
  "put_opt put v c = (case v of None \<Rightarrow> c | Some x \<Rightarrow> put x c)"

lemma env_setting_string:
  "env_setting (\<lambda>n. Inr) name put values (Inr cfg) = Inr (put_opt put (env_string values name) cfg)"
  by (simp add: env_setting_def env_string_def put_opt_def split: option.split)

lemma env_setting_bool:
  "env_setting parseBoolEnv name put values (Inr cfg) =
     (if gm_get values name \<noteq> None \<and> env_bool values name = None then Inl (env_error name)
      else Inr (put_opt put (env_bool values name) cfg))"
  by (auto simp: env_setting_def parseBoolEnv_def env_bool_def put_opt_def split: option.split)

lemma env_setting_int:
  "env_setting parseIntEnv name put values (Inr cfg) =
     (if gm_get values name \<noteq> None \<and> env_int values name = None then Inl (env_error name)
      else Inr (put_opt put (env_int values name) cfg))"
  by (auto simp: env_setting_def parseIntEnv_def env_int_def put_opt_def split: option.split)

lemma env_setting_Inl [simp]: "env_setting parse name put values (Inl e) = Inl e"
  by (simp add: env_setting_def)

lemma put_opt_or [simp]:
  "put_opt (\<lambda>v cfg. cfg\<lparr>cf_Region := v\<rparr>) zs c = c\<lparr>cf_Region := or_else (zs) (cf_Region c)\<rparr>"
  "put_opt (\<lambda>v cfg. cfg\<lparr>cf_EnableHTTP := v\<rparr>) zb c = c\<lparr>cf_EnableHTTP := or_else (zb) (cf_EnableHTTP c)\<rparr>"
  "put_opt (\<lambda>v cfg. cfg\<lparr>cf_HTTPListenAddr := v\<rparr>) zs c = c\<lparr>cf_HTTPListenAddr := or_else (zs) (cf_HTTPListenAddr c)\<rparr>"
  "put_opt (\<lambda>v cfg. cfg\<lparr>cf_EnableGRPC := v\<rparr>) zb c = c\<lparr>cf_EnableGRPC := or_else (zb) (cf_EnableGRPC c)\<rparr>"
  "put_opt (\<lambda>v cfg. cfg\<lparr>cf_GRPCListenAddr := v\<rparr>) zs c = c\<lparr>cf_GRPCListenAddr := or_else (zs) (cf_GRPCListenAddr c)\<rparr>"
  "put_opt (\<lambda>v cfg. cfg\<lparr>cf_EnableAuth := v\<rparr>) zb c = c\<lparr>cf_EnableAuth := or_else (zb) (cf_EnableAuth c)\<rparr>"
  "put_opt (\<lambda>v cfg. cfg\<lparr>cf_AdminToken := v\<rparr>) zs c = c\<lparr>cf_AdminToken := or_else (zs) (cf_AdminToken c)\<rparr>"
  "put_opt (\<lambda>v cfg. cfg\<lparr>cf_TraceSampleRate := v\<rparr>) zi c = c\<lparr>cf_TraceSampleRate := or_else (zi) (cf_TraceSampleRate c)\<rparr>"
  "put_opt (\<lambda>v cfg. cfg\<lparr>cf_CoalesceEnabled := v\<rparr>) zb c = c\<lparr>cf_CoalesceEnabled := or_else (zb) (cf_CoalesceEnabled c)\<rparr>"
  "put_opt (\<lambda>v cfg. cfg\<lparr>cf_CoalesceTTL := millis v\<rparr>) zm c = c\<lparr>cf_CoalesceTTL := or_else (map_option millis zm) (cf_CoalesceTTL c)\<rparr>"
  "put_opt (\<lambda>v cfg. cfg\<lparr>cf_BreakerOptions := (cf_BreakerOptions cfg)\<lparr>co_FailureThreshold := v\<rparr>\<rparr>) zi c = c\<lparr>cf_BreakerOptions := (cf_BreakerOptions c)\<lparr>co_FailureThreshold := or_else (zi) (co_FailureThreshold (cf_BreakerOptions c))\<rparr>\<rparr>"
  "put_opt (\<lambda>v cfg. cfg\<lparr>cf_BreakerOptions := (cf_BreakerOptions cfg)\<lparr>co_OpenDuration := millis v\<rparr>\<rparr>) zm c = c\<lparr>cf_BreakerOptions := (cf_BreakerOptions c)\<lparr>co_OpenDuration := or_else (map_option millis zm) (co_OpenDuration (cf_BreakerOptions c))\<rparr>\<rparr>"
  by (simp_all add: put_opt_def or_else_def split: option.split)

lemma fold_settings_Inl:
  "list_all (\<lambda>s. \<forall>e. s values (Inl e) = Inl e) settings \<Longrightarrow> fold (\<lambda>s. s values) settings (Inl e) = Inl e"
  by (induction settings) simp_all

lemma fold_settings_bad:
  "list_all (\<lambda>s. \<forall>e. s values (Inl e) = Inl e) settings \<Longrightarrow> bad \<in> set settings \<Longrightarrow> \<forall>c. isl (bad values (Inr c))
    \<Longrightarrow> isl (fold (\<lambda>s. s values) settings r)"
proof (induction settings arbitrary: r)
  case (Cons s settings)
  show ?case
  proof (cases "bad = s")
    case True
    have "isl (s values r)" using True Cons.prems by (cases r) auto
    then obtain e where "s values r = Inl e" by (auto simp: isl_def)
    with Cons.prems(1) show ?thesis using fold_settings_Inl [of "values" settings] by simp
  next
    case False
    with Cons show ?thesis by simp
  qed
qed simp

lemma env_settings_Inl: "list_all (\<lambda>s. \<forall>e. s values (Inl e) = Inl e) env_settings"
  by (simp add: env_settings_def)

lemma applyEnvOverrides_invalid:
  assumes "\<not> env_valid (envMap environ)"
  shows "isl (applyEnvOverrides (Some cfg) environ)"
proof -
  let ?v = "envMap environ"
  have "\<exists>bad \<in> set env_settings. \<forall>c. isl (bad ?v (Inr c))"
    using assms
    by (auto simp: env_valid_def bool_vars_def int_vars_def env_settings_def env_setting_bool env_setting_int)
  then obtain bad where "bad \<in> set env_settings" "\<forall>c. isl (bad ?v (Inr c))" by blast
  from fold_settings_bad [OF env_settings_Inl this] show ?thesis by simp
qed

lemma applyEnvOverrides_valid:
  assumes "env_valid (envMap environ)"
  shows "applyEnvOverrides (Some cfg) environ = Inr (apply_env (envMap environ) cfg)"
proof -
  let ?v = "envMap environ"
  have ok: "n \<in> set bool_vars \<Longrightarrow> \<not> (gm_get ?v n \<noteq> None \<and> env_bool ?v n = None)"
      "n \<in> set int_vars \<Longrightarrow> \<not> (gm_get ?v n \<noteq> None \<and> env_int ?v n = None)" for n
    using assms by (auto simp: env_valid_def list_all_iff)
  have b: "n \<in> set bool_vars \<Longrightarrow> env_setting parseBoolEnv n put ?v (Inr c) = Inr (put_opt put (env_bool ?v n) c)" for n put c
    using ok(1) by (simp add: env_setting_bool)
  have i: "n \<in> set int_vars \<Longrightarrow> env_setting parseIntEnv n put ?v (Inr c) = Inr (put_opt put (env_int ?v n) c)" for n put c
    using ok(2) by (simp add: env_setting_int)
  show ?thesis
    by (simp add: env_settings_def env_setting_string b i bool_vars_def int_vars_def apply_env_def)
qed

lemma LoadConfig_failed:
  assumes "parseFlagOverrides (or_else (lo_Args opts) (tl (ho_Args host))) = Inr fo"
    and "base_config host (or_else (fo_ConfigPath fo) (lo_ConfigPath opts)) = Inr base"
    and "env_valid (envMap (or_else (lo_Environ opts) (ho_Environ host))) = False"
  shows "isl (LoadConfig host opts)"
proof -
  have "isl (applyEnvOverrides (Some base) (or_else (lo_Environ opts) (ho_Environ host)))"
    using assms(3) applyEnvOverrides_invalid by blast
  with assms(1,2) show ?thesis
    by (auto simp: LoadConfig_def isl_def simp del: applyEnvOverrides.simps)
qed

lemma LoadConfig_loaded:
  assumes "parseFlagOverrides (or_else (lo_Args opts) (tl (ho_Args host))) = Inr fo"
    and "base_config host (or_else (fo_ConfigPath fo) (lo_ConfigPath opts)) = Inr base"
    and "env_valid (envMap (or_else (lo_Environ opts) (ho_Environ host)))"
  shows "LoadConfig host opts = Inr (apply_flags fo (apply_env (envMap (or_else (lo_Environ opts) (ho_Environ host))) base))"
  using assms applyEnvOverrides_valid [OF assms(3), of base]
  by (simp add: LoadConfig_def del: applyEnvOverrides.simps)

section \<open>Properties\<close>


end
