(* ===== verification/Config_Print.thy ===== *)
theory Config_Print
  imports Config
begin

text \<open>
  Printing a configuration: \<^verbatim>\<open>config/cli_print.go\<close>. The snapshot is encoded as a JSON value whose fields are those
  that the loader of \<^verbatim>\<open>config/config_load.go\<close> decodes; durations are printed as whole milliseconds. What is printed
  loads back.
\<close>

section \<open>Snapshots\<close>

type_synonym durationMillis = duration

definition durationMillis_of :: "duration \<Rightarrow> durationMillis" where
  "durationMillis_of d = d"

definition MarshalJSON :: "durationMillis \<Rightarrow> string" where
  "MarshalJSON d = FormatInt (Milliseconds d)"

record circuitOptionsSnapshot =
  cs_FailureThreshold :: int64
  cs_OpenDuration :: durationMillis
  cs_HalfOpenMaxCalls :: int64

record limiterPolicySnapshot =
  ls_Shards :: int64
  ls_MaxEntriesShard :: int64
  ls_QuiesceWindow :: durationMillis
  ls_CloseTimeout :: durationMillis

record degradeThresholdSnapshot =
  ds_RedisUnhealthyFor :: durationMillis
  ds_MembershipUnhealthy :: durationMillis
  ds_ErrorRateWindow :: durationMillis

record configSnapshot =
  sn_Region :: string
  sn_RegionGroup :: string
  sn_EnableGlobalOwnership :: bool
  sn_GlobalOwnershipFallback :: bool
  sn_RegionInstanceWeight :: int64
  sn_DegradeRequireRegionQuorum :: bool
  sn_RegionQuorumFraction :: float64
  sn_Channel :: string
  sn_HTTPListenAddr :: string
  sn_EnableHTTP :: bool
  sn_EnableGRPC :: bool
  sn_GRPCListenAddr :: string
  sn_GRPCKeepAlive :: durationMillis
  sn_TraceSampleRate :: int64
  sn_CoalesceEnabled :: bool
  sn_CoalesceTTL :: durationMillis
  sn_CoalesceShards :: int64
  sn_BreakerOptions :: circuitOptionsSnapshot
  sn_CacheSyncInterval :: durationMillis
  sn_HealthInterval :: durationMillis
  sn_LimiterPolicy :: limiterPolicySnapshot
  sn_FallbackPolicy :: FallbackPolicy
  sn_DegradeThresh :: degradeThresholdSnapshot
  sn_HTTPReadTimeout :: durationMillis
  sn_HTTPWriteTimeout :: durationMillis
  sn_HTTPIdleTimeout :: durationMillis
  sn_RequestTimeout :: durationMillis
  sn_DrainTimeout :: durationMillis
  sn_MaxBodyBytes :: int64
  sn_EnableAuth :: bool
  sn_AdminToken :: string

definition zero_snapshot :: configSnapshot where
  "zero_snapshot = \<lparr>
     sn_Region = [],
     sn_RegionGroup = [],
     sn_EnableGlobalOwnership = False,
     sn_GlobalOwnershipFallback = False,
     sn_RegionInstanceWeight = 0,
     sn_DegradeRequireRegionQuorum = False,
     sn_RegionQuorumFraction = 0,
     sn_Channel = [],
     sn_HTTPListenAddr = [],
     sn_EnableHTTP = False,
     sn_EnableGRPC = False,
     sn_GRPCListenAddr = [],
     sn_GRPCKeepAlive = 0,
     sn_TraceSampleRate = 0,
     sn_CoalesceEnabled = False,
     sn_CoalesceTTL = 0,
     sn_CoalesceShards = 0,
     sn_BreakerOptions = \<lparr>cs_FailureThreshold = 0, cs_OpenDuration = 0, cs_HalfOpenMaxCalls = 0\<rparr>,
     sn_CacheSyncInterval = 0,
     sn_HealthInterval = 0,
     sn_LimiterPolicy = \<lparr>ls_Shards = 0, ls_MaxEntriesShard = 0, ls_QuiesceWindow = 0, ls_CloseTimeout = 0\<rparr>,
     sn_FallbackPolicy = \<lparr>fp_LocalCapPerWindow = 0, fp_DenyWhenNotOwner = False, fp_EmergencyAllowSmallCap = False, fp_EmergencyCapPerWindow = 0\<rparr>,
     sn_DegradeThresh = \<lparr>ds_RedisUnhealthyFor = 0, ds_MembershipUnhealthy = 0, ds_ErrorRateWindow = 0\<rparr>,
     sn_HTTPReadTimeout = 0,
     sn_HTTPWriteTimeout = 0,
     sn_HTTPIdleTimeout = 0,
     sn_RequestTimeout = 0,
     sn_DrainTimeout = 0,
     sn_MaxBodyBytes = 0,
     sn_EnableAuth = False,
     sn_AdminToken = []\<rparr>"

definition snapshot_of :: "Config \<Rightarrow> configSnapshot" where
  "snapshot_of cfg = \<lparr>
     sn_Region = cf_Region cfg,
     sn_RegionGroup = cf_RegionGroup cfg,
     sn_EnableGlobalOwnership = cf_EnableGlobalOwnership cfg,
     sn_GlobalOwnershipFallback = cf_GlobalOwnershipFallback cfg,
     sn_RegionInstanceWeight = cf_RegionInstanceWeight cfg,
     sn_DegradeRequireRegionQuorum = cf_DegradeRequireRegionQuorum cfg,
     sn_RegionQuorumFraction = cf_RegionQuorumFraction cfg,
     sn_Channel = cf_Channel cfg,
     sn_HTTPListenAddr = cf_HTTPListenAddr cfg,
     sn_EnableHTTP = cf_EnableHTTP cfg,
     sn_EnableGRPC = cf_EnableGRPC cfg,
     sn_GRPCListenAddr = cf_GRPCListenAddr cfg,
     sn_GRPCKeepAlive = durationMillis_of (cf_GRPCKeepAlive cfg),
     sn_TraceSampleRate = cf_TraceSampleRate cfg,
     sn_CoalesceEnabled = cf_CoalesceEnabled cfg,
     sn_CoalesceTTL = durationMillis_of (cf_CoalesceTTL cfg),
     sn_CoalesceShards = cf_CoalesceShards cfg,
     sn_BreakerOptions = \<lparr>cs_FailureThreshold = co_FailureThreshold (cf_BreakerOptions cfg), cs_OpenDuration = durationMillis_of (co_OpenDuration (cf_BreakerOptions cfg)), cs_HalfOpenMaxCalls = co_HalfOpenMaxCalls (cf_BreakerOptions cfg)\<rparr>,
     sn_CacheSyncInterval = durationMillis_of (cf_CacheSyncInterval cfg),
     sn_HealthInterval = durationMillis_of (cf_HealthInterval cfg),
     sn_LimiterPolicy = \<lparr>ls_Shards = po_Shards (cf_LimiterPolicy cfg), ls_MaxEntriesShard = po_MaxEntriesShard (cf_LimiterPolicy cfg), ls_QuiesceWindow = durationMillis_of (po_QuiesceWindow (cf_LimiterPolicy cfg)), ls_CloseTimeout = durationMillis_of (po_CloseTimeout (cf_LimiterPolicy cfg))\<rparr>,
     sn_FallbackPolicy = cf_FallbackPolicy cfg,
     sn_DegradeThresh = \<lparr>ds_RedisUnhealthyFor = durationMillis_of (dt_RedisUnhealthyFor (cf_DegradeThresh cfg)), ds_MembershipUnhealthy = durationMillis_of (dt_MembershipUnhealthy (cf_DegradeThresh cfg)), ds_ErrorRateWindow = durationMillis_of (dt_ErrorRateWindow (cf_DegradeThresh cfg))\<rparr>,
     sn_HTTPReadTimeout = durationMillis_of (cf_HTTPReadTimeout cfg),
     sn_HTTPWriteTimeout = durationMillis_of (cf_HTTPWriteTimeout cfg),
     sn_HTTPIdleTimeout = durationMillis_of (cf_HTTPIdleTimeout cfg),
     sn_RequestTimeout = durationMillis_of (cf_RequestTimeout cfg),
     sn_DrainTimeout = durationMillis_of (cf_DrainTimeout cfg),
     sn_MaxBodyBytes = cf_MaxBodyBytes cfg,
     sn_EnableAuth = cf_EnableAuth cfg,
     sn_AdminToken = cf_AdminToken cfg\<rparr>"

fun newConfigSnapshot :: "Config option \<Rightarrow> configSnapshot" where
  "newConfigSnapshot None = zero_snapshot"
| "newConfigSnapshot (Some cfg) = snapshot_of cfg"

section \<open>Encoding\<close>

text \<open>How \<^verbatim>\<open>encoding/json\<close> encodes the snapshot: a field for each exported field, under its name. The literal of
  a double is an argument.\<close>

definition snapshot_values :: "(float64 \<Rightarrow> string) \<Rightarrow> configSnapshot \<Rightarrow> (string \<times> json) list" where
  "snapshot_values format_float s = [
     (''Region'', JString (sn_Region s)),
     (''RegionGroup'', JString (sn_RegionGroup s)),
     (''EnableGlobalOwnership'', JBool (sn_EnableGlobalOwnership s)),
     (''GlobalOwnershipFallback'', JBool (sn_GlobalOwnershipFallback s)),
     (''RegionInstanceWeight'', JNumber (FormatInt (sn_RegionInstanceWeight s))),
     (''DegradeRequireRegionQuorum'', JBool (sn_DegradeRequireRegionQuorum s)),
     (''RegionQuorumFraction'', JNumber (format_float (sn_RegionQuorumFraction s))),
     (''Channel'', JString (sn_Channel s)),
     (''HTTPListenAddr'', JString (sn_HTTPListenAddr s)),
     (''EnableHTTP'', JBool (sn_EnableHTTP s)),
     (''EnableGRPC'', JBool (sn_EnableGRPC s)),
     (''GRPCListenAddr'', JString (sn_GRPCListenAddr s)),
     (''GRPCKeepAlive'', JNumber (MarshalJSON (sn_GRPCKeepAlive s))),
     (''TraceSampleRate'', JNumber (FormatInt (sn_TraceSampleRate s))),
     (''CoalesceEnabled'', JBool (sn_CoalesceEnabled s)),
     (''CoalesceTTL'', JNumber (MarshalJSON (sn_CoalesceTTL s))),
     (''CoalesceShards'', JNumber (FormatInt (sn_CoalesceShards s))),
     (''BreakerOptions'', JObject [(''FailureThreshold'', JNumber (FormatInt (cs_FailureThreshold (sn_BreakerOptions s)))), (''OpenDuration'', JNumber (MarshalJSON (cs_OpenDuration (sn_BreakerOptions s)))), (''HalfOpenMaxCalls'', JNumber (FormatInt (cs_HalfOpenMaxCalls (sn_BreakerOptions s))))]),
     (''CacheSyncInterval'', JNumber (MarshalJSON (sn_CacheSyncInterval s))),
     (''HealthInterval'', JNumber (MarshalJSON (sn_HealthInterval s))),
     (''LimiterPolicy'', JObject [(''Shards'', JNumber (FormatInt (ls_Shards (sn_LimiterPolicy s)))), (''MaxEntriesShard'', JNumber (FormatInt (ls_MaxEntriesShard (sn_LimiterPolicy s)))), (''QuiesceWindow'', JNumber (MarshalJSON (ls_QuiesceWindow (sn_LimiterPolicy s)))), (''CloseTimeout'', JNumber (MarshalJSON (ls_CloseTimeout (sn_LimiterPolicy s))))]),
     (''FallbackPolicy'', JObject [(''LocalCapPerWindow'', JNumber (FormatInt (fp_LocalCapPerWindow (sn_FallbackPolicy s)))), (''DenyWhenNotOwner'', JBool (fp_DenyWhenNotOwner (sn_FallbackPolicy s))), (''EmergencyAllowSmallCap'', JBool (fp_EmergencyAllowSmallCap (sn_FallbackPolicy s))), (''EmergencyCapPerWindow'', JNumber (FormatInt (fp_EmergencyCapPerWindow (sn_FallbackPolicy s))))]),
     (''DegradeThresh'', JObject [(''RedisUnhealthyFor'', JNumber (MarshalJSON (ds_RedisUnhealthyFor (sn_DegradeThresh s)))), (''MembershipUnhealthy'', JNumber (MarshalJSON (ds_MembershipUnhealthy (sn_DegradeThresh s)))), (''ErrorRateWindow'', JNumber (MarshalJSON (ds_ErrorRateWindow (sn_DegradeThresh s))))]),
     (''HTTPReadTimeout'', JNumber (MarshalJSON (sn_HTTPReadTimeout s))),
     (''HTTPWriteTimeout'', JNumber (MarshalJSON (sn_HTTPWriteTimeout s))),
     (''HTTPIdleTimeout'', JNumber (MarshalJSON (sn_HTTPIdleTimeout s))),
     (''RequestTimeout'', JNumber (MarshalJSON (sn_RequestTimeout s))),
     (''DrainTimeout'', JNumber (MarshalJSON (sn_DrainTimeout s))),
     (''MaxBodyBytes'', JNumber (FormatInt (sn_MaxBodyBytes s))),
     (''EnableAuth'', JBool (sn_EnableAuth s)),
     (''AdminToken'', JString (sn_AdminToken s))]"

definition PrintConfig :: "(float64 \<Rightarrow> string) \<Rightarrow> bool \<Rightarrow> Config option \<Rightarrow> go_error + json" where
  "PrintConfig format_float writer cfg =
     (if cfg = None then Inl (ErrorString ''config is required'')
      else if \<not> writer then Inl (ErrorString ''writer is required'')
      else Inr (JObject (snapshot_values format_float (newConfigSnapshot cfg))))"

section \<open>What is printed loads back\<close>

definition whole_ms :: "duration \<Rightarrow> duration" where
  "whole_ms d = Milliseconds d * Millisecond"

text \<open>A configuration with its durations cut to whole milliseconds and the dependencies of another.\<close>

definition printed_config :: "Config \<Rightarrow> Config \<Rightarrow> Config" where
  "printed_config cfg base = base\<lparr>
     cf_Region := cf_Region cfg,
     cf_RegionGroup := cf_RegionGroup cfg,
     cf_EnableGlobalOwnership := cf_EnableGlobalOwnership cfg,
     cf_GlobalOwnershipFallback := cf_GlobalOwnershipFallback cfg,
     cf_RegionInstanceWeight := cf_RegionInstanceWeight cfg,
     cf_DegradeRequireRegionQuorum := cf_DegradeRequireRegionQuorum cfg,
     cf_RegionQuorumFraction := cf_RegionQuorumFraction cfg,
     cf_Channel := cf_Channel cfg,
     cf_HTTPListenAddr := cf_HTTPListenAddr cfg,
     cf_EnableHTTP := cf_EnableHTTP cfg,
     cf_EnableGRPC := cf_EnableGRPC cfg,
     cf_GRPCListenAddr := cf_GRPCListenAddr cfg,
     cf_GRPCKeepAlive := whole_ms (cf_GRPCKeepAlive cfg),
     cf_TraceSampleRate := cf_TraceSampleRate cfg,
     cf_CoalesceEnabled := cf_CoalesceEnabled cfg,
     cf_CoalesceTTL := whole_ms (cf_CoalesceTTL cfg),
     cf_CoalesceShards := cf_CoalesceShards cfg,
     cf_BreakerOptions := \<lparr>co_FailureThreshold = co_FailureThreshold (cf_BreakerOptions cfg), co_OpenDuration = whole_ms (co_OpenDuration (cf_BreakerOptions cfg)), co_HalfOpenMaxCalls = co_HalfOpenMaxCalls (cf_BreakerOptions cfg)\<rparr>,
     cf_CacheSyncInterval := whole_ms (cf_CacheSyncInterval cfg),
     cf_HealthInterval := whole_ms (cf_HealthInterval cfg),
     cf_LimiterPolicy := \<lparr>po_Shards = po_Shards (cf_LimiterPolicy cfg), po_MaxEntriesShard = po_MaxEntriesShard (cf_LimiterPolicy cfg), po_QuiesceWindow = whole_ms (po_QuiesceWindow (cf_LimiterPolicy cfg)), po_CloseTimeout = whole_ms (po_CloseTimeout (cf_LimiterPolicy cfg))\<rparr>,
     cf_FallbackPolicy := \<lparr>fp_LocalCapPerWindow = fp_LocalCapPerWindow (cf_FallbackPolicy cfg), fp_DenyWhenNotOwner = fp_DenyWhenNotOwner (cf_FallbackPolicy cfg), fp_EmergencyAllowSmallCap = fp_EmergencyAllowSmallCap (cf_FallbackPolicy cfg), fp_EmergencyCapPerWindow = fp_EmergencyCapPerWindow (cf_FallbackPolicy cfg)\<rparr>,
     cf_DegradeThresh := \<lparr>dt_RedisUnhealthyFor = whole_ms (dt_RedisUnhealthyFor (cf_DegradeThresh cfg)), dt_MembershipUnhealthy = whole_ms (dt_MembershipUnhealthy (cf_DegradeThresh cfg)), dt_ErrorRateWindow = whole_ms (dt_ErrorRateWindow (cf_DegradeThresh cfg))\<rparr>,
     cf_HTTPReadTimeout := whole_ms (cf_HTTPReadTimeout cfg),
     cf_HTTPWriteTimeout := whole_ms (cf_HTTPWriteTimeout cfg),
     cf_HTTPIdleTimeout := whole_ms (cf_HTTPIdleTimeout cfg),
     cf_RequestTimeout := whole_ms (cf_RequestTimeout cfg),
     cf_DrainTimeout := whole_ms (cf_DrainTimeout cfg),
     cf_MaxBodyBytes := cf_MaxBodyBytes cfg,
     cf_EnableAuth := cf_EnableAuth cfg,
     cf_AdminToken := cf_AdminToken cfg\<rparr>"

text \<open>The integers of a configuration are 64 bits wide.\<close>

definition config_range :: "Config \<Rightarrow> bool" where
  "config_range cfg \<longleftrightarrow> list_all in_int64 [
     cf_RegionInstanceWeight cfg,
     cf_GRPCKeepAlive cfg,
     cf_TraceSampleRate cfg,
     cf_CoalesceTTL cfg,
     cf_CoalesceShards cfg,
     co_FailureThreshold (cf_BreakerOptions cfg),
     co_OpenDuration (cf_BreakerOptions cfg),
     co_HalfOpenMaxCalls (cf_BreakerOptions cfg),
     cf_CacheSyncInterval cfg,
     cf_HealthInterval cfg,
     po_Shards (cf_LimiterPolicy cfg),
     po_MaxEntriesShard (cf_LimiterPolicy cfg),
     po_QuiesceWindow (cf_LimiterPolicy cfg),
     po_CloseTimeout (cf_LimiterPolicy cfg),
     fp_LocalCapPerWindow (cf_FallbackPolicy cfg),
     fp_EmergencyCapPerWindow (cf_FallbackPolicy cfg),
     dt_RedisUnhealthyFor (cf_DegradeThresh cfg),
     dt_MembershipUnhealthy (cf_DegradeThresh cfg),
     dt_ErrorRateWindow (cf_DegradeThresh cfg),
     cf_HTTPReadTimeout cfg,
     cf_HTTPWriteTimeout cfg,
     cf_HTTPIdleTimeout cfg,
     cf_RequestTimeout cfg,
     cf_DrainTimeout cfg,
     cf_MaxBodyBytes cfg]"

definition printed_overrides :: "Config \<Rightarrow> configOverrides" where
  "printed_overrides cfg = \<lparr>
     ov_Region = Some (cf_Region cfg),
     ov_RegionGroup = Some (cf_RegionGroup cfg),
     ov_EnableGlobalOwnership = Some (cf_EnableGlobalOwnership cfg),
     ov_GlobalOwnershipFallback = Some (cf_GlobalOwnershipFallback cfg),
     ov_RegionInstanceWeight = Some (cf_RegionInstanceWeight cfg),
     ov_DegradeRequireRegionQuorum = Some (cf_DegradeRequireRegionQuorum cfg),
     ov_RegionQuorumFraction = Some (cf_RegionQuorumFraction cfg),
     ov_Channel = Some (cf_Channel cfg),
     ov_HTTPListenAddr = Some (cf_HTTPListenAddr cfg),
     ov_EnableHTTP = Some (cf_EnableHTTP cfg),
     ov_EnableGRPC = Some (cf_EnableGRPC cfg),
     ov_GRPCListenAddr = Some (cf_GRPCListenAddr cfg),
     ov_GRPCKeepAlive = Some \<lparr>dv_Value = whole_ms (cf_GRPCKeepAlive cfg), dv_Set = True\<rparr>,
     ov_TraceSampleRate = Some (cf_TraceSampleRate cfg),
     ov_CoalesceEnabled = Some (cf_CoalesceEnabled cfg),
     ov_CoalesceTTL = Some \<lparr>dv_Value = whole_ms (cf_CoalesceTTL cfg), dv_Set = True\<rparr>,
     ov_CoalesceShards = Some (cf_CoalesceShards cfg),
     ov_BreakerOptions = Some \<lparr>ci_FailureThreshold = Some (co_FailureThreshold (cf_BreakerOptions cfg)), ci_OpenDuration = Some \<lparr>dv_Value = whole_ms (co_OpenDuration (cf_BreakerOptions cfg)), dv_Set = True\<rparr>, ci_HalfOpenMaxCalls = Some (co_HalfOpenMaxCalls (cf_BreakerOptions cfg))\<rparr>,
     ov_CacheSyncInterval = Some \<lparr>dv_Value = whole_ms (cf_CacheSyncInterval cfg), dv_Set = True\<rparr>,
     ov_HealthInterval = Some \<lparr>dv_Value = whole_ms (cf_HealthInterval cfg), dv_Set = True\<rparr>,
     ov_LimiterPolicy = Some \<lparr>pi_Shards = Some (po_Shards (cf_LimiterPolicy cfg)), pi_MaxEntriesShard = Some (po_MaxEntriesShard (cf_LimiterPolicy cfg)), pi_QuiesceWindow = Some \<lparr>dv_Value = whole_ms (po_QuiesceWindow (cf_LimiterPolicy cfg)), dv_Set = True\<rparr>, pi_CloseTimeout = Some \<lparr>dv_Value = whole_ms (po_CloseTimeout (cf_LimiterPolicy cfg)), dv_Set = True\<rparr>\<rparr>,
     ov_FallbackPolicy = Some \<lparr>fi_LocalCapPerWindow = Some (fp_LocalCapPerWindow (cf_FallbackPolicy cfg)), fi_DenyWhenNotOwner = Some (fp_DenyWhenNotOwner (cf_FallbackPolicy cfg)), fi_EmergencyAllowSmallCap = Some (fp_EmergencyAllowSmallCap (cf_FallbackPolicy cfg)), fi_EmergencyCapPerWindow = Some (fp_EmergencyCapPerWindow (cf_FallbackPolicy cfg))\<rparr>,
     ov_DegradeThresh = Some \<lparr>di_RedisUnhealthyFor = Some \<lparr>dv_Value = whole_ms (dt_RedisUnhealthyFor (cf_DegradeThresh cfg)), dv_Set = True\<rparr>, di_MembershipUnhealthy = Some \<lparr>dv_Value = whole_ms (dt_MembershipUnhealthy (cf_DegradeThresh cfg)), dv_Set = True\<rparr>, di_ErrorRateWindow = Some \<lparr>dv_Value = whole_ms (dt_ErrorRateWindow (cf_DegradeThresh cfg)), dv_Set = True\<rparr>\<rparr>,
     ov_HTTPReadTimeout = Some \<lparr>dv_Value = whole_ms (cf_HTTPReadTimeout cfg), dv_Set = True\<rparr>,
     ov_HTTPWriteTimeout = Some \<lparr>dv_Value = whole_ms (cf_HTTPWriteTimeout cfg), dv_Set = True\<rparr>,
     ov_HTTPIdleTimeout = Some \<lparr>dv_Value = whole_ms (cf_HTTPIdleTimeout cfg), dv_Set = True\<rparr>,
     ov_RequestTimeout = Some \<lparr>dv_Value = whole_ms (cf_RequestTimeout cfg), dv_Set = True\<rparr>,
     ov_DrainTimeout = Some \<lparr>dv_Value = whole_ms (cf_DrainTimeout cfg), dv_Set = True\<rparr>,
     ov_MaxBodyBytes = Some (cf_MaxBodyBytes cfg),
     ov_EnableAuth = Some (cf_EnableAuth cfg),
     ov_AdminToken = Some (cf_AdminToken cfg)\<rparr>"

fun store_all :: "(json \<Rightarrow> 'r \<Rightarrow> go_error + 'r) list \<Rightarrow> json list \<Rightarrow> 'r \<Rightarrow> go_error + 'r" where
  "store_all (f # fs) (v # vs) x = (case f v x of Inl e \<Rightarrow> Inl e | Inr x1 \<Rightarrow> store_all fs vs x1)"
| "store_all fs vs x = Inr x"

text \<open>Fields that come in the order of a table whose names differ are stored one by one.\<close>

lemma decode_fields_zip:
  assumes "distinct (map (foldName \<circ> fst) table)" "set part \<subseteq> set table" "length vs = length part"
  shows "decode_fields table (zip (map fst part) vs) x = store_all (map snd part) vs x"
  using assms(2,3)
proof (induction part arbitrary: vs x)
  case Nil
  then show ?case by simp
next
  case (Cons nf part)
  obtain n f where nf: "nf = (n, f)" by (cases nf)
  obtain v vs' where vs: "vs = v # vs'" using Cons.prems(2) by (cases vs) auto
  have "distinct (map fst (map (\<lambda>(n, f). (foldName n, f)) table))"
    using assms(1) by (simp add: split_def comp_def)
  moreover have "(foldName n, f) \<in> set (map (\<lambda>(n, f). (foldName n, f)) table)"
    using Cons.prems(1) nf by force
  ultimately have "map_of (map (\<lambda>(n, f). (foldName n, f)) table) (foldName n) = Some f" by simp
  with Cons nf vs show ?case by (simp split: sum.split)
qed

lemma decode_table:
  assumes "distinct (map foldName (map fst table))" "map fst fs = map fst table"
  shows "decode_fields table fs x = store_all (map snd table) (map snd fs) x"
proof -
  have "fs = zip (map fst table) (map snd fs)" by (simp flip: assms(2) add: zip_map_fst_snd)
  moreover have "length (map snd fs) = length table" using arg_cong [OF assms(2), of length] by simp
  ultimately show ?thesis
    using decode_fields_zip [of table table "map snd fs"] assms(1) by (metis map_map order_refl)
qed

lemma table_names:
  "map fst (configOverrides_table pf) = [''Region'',
     ''RegionGroup'',
     ''EnableGlobalOwnership'',
     ''GlobalOwnershipFallback'',
     ''RegionInstanceWeight'',
     ''DegradeRequireRegionQuorum'',
     ''RegionQuorumFraction'',
     ''Channel'',
     ''HTTPListenAddr'',
     ''EnableHTTP'',
     ''EnableGRPC'',
     ''GRPCListenAddr'',
     ''GRPCKeepAlive'',
     ''TraceSampleRate'',
     ''CoalesceEnabled'',
     ''CoalesceTTL'',
     ''CoalesceShards'',
     ''BreakerOptions'',
     ''CacheSyncInterval'',
     ''HealthInterval'',
     ''LimiterPolicy'',
     ''FallbackPolicy'',
     ''DegradeThresh'',
     ''HTTPReadTimeout'',
     ''HTTPWriteTimeout'',
     ''HTTPIdleTimeout'',
     ''RequestTimeout'',
     ''DrainTimeout'',
     ''MaxBodyBytes'',
     ''EnableAuth'',
     ''AdminToken'']"
  "map fst circuitOptionsInput_table = [''FailureThreshold'', ''OpenDuration'', ''HalfOpenMaxCalls'']"
  "map fst limiterPolicyInput_table = [''Shards'', ''MaxEntriesShard'', ''QuiesceWindow'', ''CloseTimeout'']"
  "map fst fallbackPolicyInput_table = [''LocalCapPerWindow'', ''DenyWhenNotOwner'', ''EmergencyAllowSmallCap'', ''EmergencyCapPerWindow'']"
  "map fst degradeThreshInput_table = [''RedisUnhealthyFor'', ''MembershipUnhealthy'', ''ErrorRateWindow'']"
  by (simp_all add: configOverrides_table_def circuitOptionsInput_table_def limiterPolicyInput_table_def fallbackPolicyInput_table_def degradeThreshInput_table_def)

lemma folded_names:
  "map foldName [''Region'',
     ''RegionGroup'',
     ''EnableGlobalOwnership'',
     ''GlobalOwnershipFallback'',
     ''RegionInstanceWeight'',
     ''DegradeRequireRegionQuorum'',
     ''RegionQuorumFraction'',
     ''Channel'',
     ''HTTPListenAddr'',
     ''EnableHTTP'',
     ''EnableGRPC'',
     ''GRPCListenAddr'',
     ''GRPCKeepAlive'',
     ''TraceSampleRate'',
     ''CoalesceEnabled'',
     ''CoalesceTTL'',
     ''CoalesceShards'',
     ''BreakerOptions'',
     ''CacheSyncInterval'',
     ''HealthInterval'',
     ''LimiterPolicy'',
     ''FallbackPolicy'',
     ''DegradeThresh'',
     ''HTTPReadTimeout'',
     ''HTTPWriteTimeout'',
     ''HTTPIdleTimeout'',
     ''RequestTimeout'',
     ''DrainTimeout'',
     ''MaxBodyBytes'',
     ''EnableAuth'',
     ''AdminToken''] =
    [''REGION'',
     ''REGIONGROUP'',
     ''ENABLEGLOBALOWNERSHIP'',
     ''GLOBALOWNERSHIPFALLBACK'',
     ''REGIONINSTANCEWEIGHT'',
     ''DEGRADEREQUIREREGIONQUORUM'',
     ''REGIONQUORUMFRACTION'',
     ''CHANNEL'',
     ''HTTPLISTENADDR'',
     ''ENABLEHTTP'',
     ''ENABLEGRPC'',
     ''GRPCLISTENADDR'',
     ''GRPCKEEPALIVE'',
     ''TRACESAMPLERATE'',
     ''COALESCEENABLED'',
     ''COALESCETTL'',
     ''COALESCESHARDS'',
     ''BREAKEROPTIONS'',
     ''CACHESYNCINTERVAL'',
     ''HEALTHINTERVAL'',
     ''LIMITERPOLICY'',
     ''FALLBACKPOLICY'',
     ''DEGRADETHRESH'',
     ''HTTPREADTIMEOUT'',
     ''HTTPWRITETIMEOUT'',
     ''HTTPIDLETIMEOUT'',
     ''REQUESTTIMEOUT'',
     ''DRAINTIMEOUT'',
     ''MAXBODYBYTES'',
     ''ENABLEAUTH'',
     ''ADMINTOKEN'']"
  "map foldName [''FailureThreshold'',
     ''OpenDuration'',
     ''HalfOpenMaxCalls''] =
    [''FAILURETHRESHOLD'',
     ''OPENDURATION'',
     ''HALFOPENMAXCALLS'']"
  "map foldName [''Shards'',
     ''MaxEntriesShard'',
     ''QuiesceWindow'',
     ''CloseTimeout''] =
    [''SHARDS'',
     ''MAXENTRIESSHARD'',
     ''QUIESCEWINDOW'',
     ''CLOSETIMEOUT'']"
  "map foldName [''LocalCapPerWindow'',
     ''DenyWhenNotOwner'',
     ''EmergencyAllowSmallCap'',
     ''EmergencyCapPerWindow''] =
    [''LOCALCAPPERWINDOW'',
     ''DENYWHENNOTOWNER'',
     ''EMERGENCYALLOWSMALLCAP'',
     ''EMERGENCYCAPPERWINDOW'']"
  "map foldName [''RedisUnhealthyFor'',
     ''MembershipUnhealthy'',
     ''ErrorRateWindow''] =
    [''REDISUNHEALTHYFOR'',
     ''MEMBERSHIPUNHEALTHY'',
     ''ERRORRATEWINDOW'']"
  by (simp_all add: foldName_plain fold_letter_def)

lemma names_distinct:
  "distinct (map foldName [''Region'',
     ''RegionGroup'',
     ''EnableGlobalOwnership'',
     ''GlobalOwnershipFallback'',
     ''RegionInstanceWeight'',
     ''DegradeRequireRegionQuorum'',
     ''RegionQuorumFraction'',
     ''Channel'',
     ''HTTPListenAddr'',
     ''EnableHTTP'',
     ''EnableGRPC'',
     ''GRPCListenAddr'',
     ''GRPCKeepAlive'',
     ''TraceSampleRate'',
     ''CoalesceEnabled'',
     ''CoalesceTTL'',
     ''CoalesceShards'',
     ''BreakerOptions'',
     ''CacheSyncInterval'',
     ''HealthInterval'',
     ''LimiterPolicy'',
     ''FallbackPolicy'',
     ''DegradeThresh'',
     ''HTTPReadTimeout'',
     ''HTTPWriteTimeout'',
     ''HTTPIdleTimeout'',
     ''RequestTimeout'',
     ''DrainTimeout'',
     ''MaxBodyBytes'',
     ''EnableAuth'',
     ''AdminToken''])"
  "distinct (map foldName [''FailureThreshold'',
     ''OpenDuration'',
     ''HalfOpenMaxCalls''])"
  "distinct (map foldName [''Shards'',
     ''MaxEntriesShard'',
     ''QuiesceWindow'',
     ''CloseTimeout''])"
  "distinct (map foldName [''LocalCapPerWindow'',
     ''DenyWhenNotOwner'',
     ''EmergencyAllowSmallCap'',
     ''EmergencyCapPerWindow''])"
  "distinct (map foldName [''RedisUnhealthyFor'',
     ''MembershipUnhealthy'',
     ''ErrorRateWindow''])"
  unfolding folded_names by simp_all

lemma tables_distinct:
  "distinct (map foldName (map fst (configOverrides_table pf)))"
  "distinct (map foldName (map fst circuitOptionsInput_table))"
  "distinct (map foldName (map fst limiterPolicyInput_table))"
  "distinct (map foldName (map fst fallbackPolicyInput_table))"
  "distinct (map foldName (map fst degradeThreshInput_table))"
  unfolding table_names by (rule names_distinct)+

lemma Milliseconds_range [simp]: "in_int64 (Milliseconds d)"
  by (simp add: Milliseconds_def quot64_def)

lemma div_times_range:
  fixes a :: int
  assumes "0 \<le> a"
  shows "0 \<le> a div 1000000 * 1000000" "a div 1000000 * 1000000 \<le> a"
  using assms div_mult_mod_eq [of a 1000000] pos_mod_sign [of 1000000 a] by (simp_all add: pos_imp_zdiv_nonneg_iff)

lemma whole_ms_sgn:
  assumes "in_int64 d"
  shows "whole_ms d = sgn d * (\<bar>d\<bar> div 1000000 * 1000000)"
proof -
  have "Milliseconds d = sgn d * (\<bar>d\<bar> div 1000000)"
    using quot64_pos [OF assms] by (simp add: Milliseconds_def Millisecond_def)
  then show ?thesis unfolding whole_ms_def Millisecond_def by (simp only: mult.assoc)
qed

lemma whole_ms_range:
  assumes "in_int64 d"
  shows "in_int64 (whole_ms d)"
proof -
  have "0 \<le> \<bar>d\<bar> div 1000000 * 1000000" "\<bar>d\<bar> div 1000000 * 1000000 \<le> \<bar>d\<bar>" using div_times_range [of "\<bar>d\<bar>"] by simp_all
  then show ?thesis unfolding whole_ms_sgn [OF assms]
    using assms by (cases "0 \<le> d") (auto simp: int64_bounds sgn_if)
qed

lemma dec_printed [simp]:
  "in_int64 n \<Longrightarrow> dec_int (JNumber (FormatInt n)) = Inr (Some n)"
  "in_int64 d \<Longrightarrow> dec_duration (JNumber (MarshalJSON d)) = Inr (Some \<lparr>dv_Value = whole_ms d, dv_Set = True\<rparr>)"
  using whole_ms_range [of d]
  by (simp_all add: ParseInt_FormatInt dec_duration_def MarshalJSON_def duration_millis_def whole_ms_def)

lemma decode_circuitOptionsInput:
  assumes "in_int64 (zFailureThreshold)" "in_int64 (zOpenDuration)" "in_int64 (zHalfOpenMaxCalls)"
  shows "decode_fields circuitOptionsInput_table [(''FailureThreshold'', JNumber (FormatInt (zFailureThreshold))), (''OpenDuration'', JNumber (MarshalJSON (zOpenDuration))), (''HalfOpenMaxCalls'', JNumber (FormatInt (zHalfOpenMaxCalls)))] no_circuitOptionsInput
     = Inr \<lparr>ci_FailureThreshold = Some (zFailureThreshold), ci_OpenDuration = Some \<lparr>dv_Value = whole_ms (zOpenDuration), dv_Set = True\<rparr>, ci_HalfOpenMaxCalls = Some (zHalfOpenMaxCalls)\<rparr>"
  using assms
  by (subst decode_table [OF tables_distinct(2)])
     (simp_all add: ParseInt_FormatInt table_names circuitOptionsInput_table_def no_circuitOptionsInput_def store_field_def)

lemma decode_limiterPolicyInput:
  assumes "in_int64 (zShards)" "in_int64 (zMaxEntriesShard)" "in_int64 (zQuiesceWindow)" "in_int64 (zCloseTimeout)"
  shows "decode_fields limiterPolicyInput_table [(''Shards'', JNumber (FormatInt (zShards))), (''MaxEntriesShard'', JNumber (FormatInt (zMaxEntriesShard))), (''QuiesceWindow'', JNumber (MarshalJSON (zQuiesceWindow))), (''CloseTimeout'', JNumber (MarshalJSON (zCloseTimeout)))] no_limiterPolicyInput
     = Inr \<lparr>pi_Shards = Some (zShards), pi_MaxEntriesShard = Some (zMaxEntriesShard), pi_QuiesceWindow = Some \<lparr>dv_Value = whole_ms (zQuiesceWindow), dv_Set = True\<rparr>, pi_CloseTimeout = Some \<lparr>dv_Value = whole_ms (zCloseTimeout), dv_Set = True\<rparr>\<rparr>"
  using assms
  by (subst decode_table [OF tables_distinct(3)])
     (simp_all add: ParseInt_FormatInt table_names limiterPolicyInput_table_def no_limiterPolicyInput_def store_field_def)

lemma decode_fallbackPolicyInput:
  assumes "in_int64 (zLocalCapPerWindow)" "in_int64 (zEmergencyCapPerWindow)"
  shows "decode_fields fallbackPolicyInput_table [(''LocalCapPerWindow'', JNumber (FormatInt (zLocalCapPerWindow))), (''DenyWhenNotOwner'', JBool (zDenyWhenNotOwner)), (''EmergencyAllowSmallCap'', JBool (zEmergencyAllowSmallCap)), (''EmergencyCapPerWindow'', JNumber (FormatInt (zEmergencyCapPerWindow)))] no_fallbackPolicyInput
     = Inr \<lparr>fi_LocalCapPerWindow = Some (zLocalCapPerWindow), fi_DenyWhenNotOwner = Some (zDenyWhenNotOwner), fi_EmergencyAllowSmallCap = Some (zEmergencyAllowSmallCap), fi_EmergencyCapPerWindow = Some (zEmergencyCapPerWindow)\<rparr>"
  using assms
  by (subst decode_table [OF tables_distinct(4)])
     (simp_all add: ParseInt_FormatInt table_names fallbackPolicyInput_table_def no_fallbackPolicyInput_def store_field_def)

lemma decode_degradeThreshInput:
  assumes "in_int64 (zRedisUnhealthyFor)" "in_int64 (zMembershipUnhealthy)" "in_int64 (zErrorRateWindow)"
  shows "decode_fields degradeThreshInput_table [(''RedisUnhealthyFor'', JNumber (MarshalJSON (zRedisUnhealthyFor))), (''MembershipUnhealthy'', JNumber (MarshalJSON (zMembershipUnhealthy))), (''ErrorRateWindow'', JNumber (MarshalJSON (zErrorRateWindow)))] no_degradeThreshInput
     = Inr \<lparr>di_RedisUnhealthyFor = Some \<lparr>dv_Value = whole_ms (zRedisUnhealthyFor), dv_Set = True\<rparr>, di_MembershipUnhealthy = Some \<lparr>dv_Value = whole_ms (zMembershipUnhealthy), dv_Set = True\<rparr>, di_ErrorRateWindow = Some \<lparr>dv_Value = whole_ms (zErrorRateWindow), dv_Set = True\<rparr>\<rparr>"
  using assms
  by (subst decode_table [OF tables_distinct(5)])
     (simp_all add: ParseInt_FormatInt table_names degradeThreshInput_table_def no_degradeThreshInput_def store_field_def)

lemma decode_printed:
  assumes "config_range cfg" "parse_float (format_float (cf_RegionQuorumFraction cfg)) = Some (cf_RegionQuorumFraction cfg)"
  shows "decode_overrides parse_float (JObject (snapshot_values format_float (snapshot_of cfg))) = Inr (printed_overrides cfg)"
proof -
  have names: "map fst (snapshot_values format_float s) = map fst (configOverrides_table parse_float)" for s
    by (simp add: table_names snapshot_values_def)
  show ?thesis
    using assms
    by (simp only: decode_overrides.simps decode_table [OF tables_distinct(1) names])
       (simp add: ParseInt_FormatInt configOverrides_table_def snapshot_values_def snapshot_of_def durationMillis_of_def
         store_field_def store_struct_def no_overrides_def or_else_def config_range_def printed_overrides_def
         decode_circuitOptionsInput decode_limiterPolicyInput decode_fallbackPolicyInput decode_degradeThreshInput del: decode_fields.simps)
qed

lemma apply_printed: "apply_overrides (printed_overrides cfg) base = printed_config cfg base"
  by (simp add: apply_overrides_def printed_overrides_def printed_config_def or_else_def dur_or_def
    apply_circuitOptionsInput_def apply_limiterPolicyInput_def apply_fallbackPolicyInput_def apply_degradeThreshInput_def)

lemma base_config_printed:
  assumes "config_range cfg" "ho_float host (format_float (cf_RegionQuorumFraction cfg)) = Some (cf_RegionQuorumFraction cfg)"
    and "ho_ReadFile host path = Inr txt" "ho_json host txt = Some (JObject (snapshot_values format_float (snapshot_of cfg)))"
    and "path \<noteq> []"
  shows "base_config host path = Inr (printed_config cfg defaultConfig)"
  using assms decode_printed [OF assms(1), of "ho_float host" format_float]
  by (simp add: base_config_def loadConfigFile_def apply_printed del: decode_overrides.simps)

lemma no_arguments:
  "\<exists>fo. parseFlagOverrides [] = Inr fo \<and> fo_ConfigPath fo = None \<and> apply_flags fo cfg = cfg"
  by (simp add: parseFlagOverrides_def flag_string_def flag_bool_def flag_int_def apply_flags_def or_else_def parse_flags.simps)

lemma no_environment: "env_valid (envMap [])" "apply_env (envMap []) cfg = cfg"
  by (simp_all add: env_valid_def envMap_def apply_env_def env_string_def env_bool_def env_int_def or_else_def
    bool_vars_def int_vars_def)

section \<open>Properties\<close>

text \<open>C38. Printing a configuration and loading the printed text as the configuration file, with no flag and no
  variable set, gives the configuration back, its durations cut to whole milliseconds and its dependencies those of
  the default configuration; the host reads the text it was given, decodes it to the value that was encoded, and the
  literal of a double reads as that double.\<close>

theorem config_print_load:
  assumes "config_range cfg" "PrintConfig format_float True (Some cfg) = Inr v"
    and "ho_ReadFile host path = Inr txt" "ho_json host txt = Some v" "path \<noteq> []"
    and "ho_float host (format_float (cf_RegionQuorumFraction cfg)) = Some (cf_RegionQuorumFraction cfg)"
  shows "LoadConfig host \<lparr>lo_ConfigPath = path, lo_Args = Some [], lo_Environ = Some []\<rparr> = Inr (printed_config cfg defaultConfig)"
proof -
  obtain fo where fo: "parseFlagOverrides [] = Inr fo" "fo_ConfigPath fo = None"
      "apply_flags fo (printed_config cfg defaultConfig) = printed_config cfg defaultConfig"
    using no_arguments by blast
  have "base_config host path = Inr (printed_config cfg defaultConfig)"
    using base_config_printed [where cfg = cfg and host = host and path = path and format_float = format_float] assms by (simp add: PrintConfig_def)
  with fo show ?thesis
    using LoadConfig_loaded [of "\<lparr>lo_ConfigPath = path, lo_Args = Some [], lo_Environ = Some []\<rparr>" host fo
      "printed_config cfg defaultConfig"] no_environment
    by (simp add: or_else_def)
qed

definition sample_host :: host where
  "sample_host = \<lparr>ho_ReadFile = (\<lambda>path. if path = ''c.json'' then Inr ''{..}'' else Inl (ErrorString path)),
     ho_json = (\<lambda>t. if t = ''{..}'' then Some (JObject (snapshot_values (\<lambda>x. ''0'') (snapshot_of defaultConfig))) else None),
     ho_float = (\<lambda>t. if t = ''0'' then Some 0 else None), ho_Args = [], ho_Environ = []\<rparr>"

theorem config_print_load_witness:
  "LoadConfig sample_host \<lparr>lo_ConfigPath = ''c.json'', lo_Args = Some [], lo_Environ = Some []\<rparr>
     = Inr (printed_config defaultConfig defaultConfig)"
  using config_print_load [of defaultConfig "\<lambda>x. ''0''" _ sample_host "''c.json''" "''{..}''"]
  by (simp add: sample_host_def PrintConfig_def config_range_def defaultConfig_def Second_def Millisecond_def int64_bounds)

end
