(* ===== verification/Http.thy ===== *)
theory Http
  imports Control_Plane Metrics Config
begin

text \<open>
  The HTTP transport: \<^verbatim>\<open>transport/http\<close>, and the service interfaces of \<^verbatim>\<open>core/interfaces.go\<close> that both transports
  call. A service is a record of operations on a server state \<^typ>\<open>'s\<close>. The JSON value of a text is an argument; how
  \<^verbatim>\<open>encoding/json\<close> stores a value in a request structure is modelled. A reply carries the value that is encoded,
  not its text, and the lines that were logged.
\<close>

section \<open>Services\<close>

record 's services =
  sv_CheckLimit :: "CheckLimitRequest option \<Rightarrow> 's \<Rightarrow> ((go_error + CheckLimitResponse) \<times> 's) option"
  sv_CheckLimitBatch :: "CheckLimitRequest option list \<Rightarrow> 's \<Rightarrow> ((go_error + CheckLimitResponse list) \<times> 's) option"
  sv_CreateRule :: "CreateRuleRequest option \<Rightarrow> 's \<Rightarrow> (go_error + Rule) \<times> 's"
  sv_UpdateRule :: "UpdateRuleRequest option \<Rightarrow> 's \<Rightarrow> (go_error + Rule) \<times> 's"
  sv_DeleteRule :: "string \<Rightarrow> string \<Rightarrow> int64 \<Rightarrow> 's \<Rightarrow> go_error option \<times> 's"
  sv_GetRule :: "string \<Rightarrow> string \<Rightarrow> 's \<Rightarrow> go_error + Rule"
  sv_ListRules :: "string \<Rightarrow> 's \<Rightarrow> go_error + Rule list"
  sv_Ready :: "'s \<Rightarrow> bool"
  sv_Mode :: "'s \<Rightarrow> OperatingMode"
  sv_metrics :: "'s \<Rightarrow> InMemoryMetrics option"
  sv_set_metrics :: "InMemoryMetrics option \<Rightarrow> 's \<Rightarrow> 's"

section \<open>Messages\<close>

record HTTPCheckRequest =
  hq_TraceID :: string
  hq_TenantID :: string
  hq_UserID :: string
  hq_Resource :: string
  hq_Cost :: int64

record HTTPCreateRuleRequest =
  hc_TenantID :: string
  hc_Resource :: string
  hc_Algorithm :: string
  hc_Limit :: int64
  hc_Window :: duration
  hc_BurstSize :: int64
  hc_IdempotencyKey :: string

record HTTPUpdateRuleRequest =
  hu_TenantID :: string
  hu_Resource :: string
  hu_Algorithm :: string
  hu_Limit :: int64
  hu_Window :: duration
  hu_BurstSize :: int64
  hu_ExpectedVersion :: int64

record HTTPCheckResponse =
  hp_Allowed :: bool
  hp_Remaining :: int64
  hp_Limit :: int64
  hp_ResetAfter :: duration
  hp_RetryAfter :: duration
  hp_ErrorCode :: string

record HTTPRuleResponse =
  hl_TenantID :: string
  hl_Resource :: string
  hl_Algorithm :: string
  hl_Limit :: int64
  hl_Window :: duration
  hl_BurstSize :: int64
  hl_Version :: int64
  hl_UpdatedAt :: time

definition toCheckLimitRequest :: "HTTPCheckRequest \<Rightarrow> CheckLimitRequest" where
  "toCheckLimitRequest req = \<lparr>cr_TraceID = hq_TraceID req, cr_TenantID = hq_TenantID req, cr_UserID = hq_UserID req,
     cr_Resource = hq_Resource req, cr_Cost = hq_Cost req\<rparr>"

definition toCreateRuleRequest :: "HTTPCreateRuleRequest \<Rightarrow> CreateRuleRequest" where
  "toCreateRuleRequest req = \<lparr>cq_TenantID = hc_TenantID req, cq_Resource = hc_Resource req, cq_Algorithm = hc_Algorithm req,
     cq_Limit = hc_Limit req, cq_Window = hc_Window req, cq_BurstSize = hc_BurstSize req,
     cq_IdempotencyKey = hc_IdempotencyKey req\<rparr>"

definition toUpdateRuleRequest :: "HTTPUpdateRuleRequest \<Rightarrow> UpdateRuleRequest" where
  "toUpdateRuleRequest req = \<lparr>uq_TenantID = hu_TenantID req, uq_Resource = hu_Resource req, uq_Algorithm = hu_Algorithm req,
     uq_Limit = hu_Limit req, uq_Window = hu_Window req, uq_BurstSize = hu_BurstSize req,
     uq_ExpectedVersion = hu_ExpectedVersion req\<rparr>"

text \<open>The zero \<^verbatim>\<open>time.Time\<close> is midnight of the first of January of the year 1.\<close>

definition zero_time :: time where "zero_time = - 62135596800 * Second"

fun fromRule :: "Rule option \<Rightarrow> HTTPRuleResponse" where
  "fromRule None = \<lparr>hl_TenantID = [], hl_Resource = [], hl_Algorithm = [], hl_Limit = 0, hl_Window = 0, hl_BurstSize = 0,
     hl_Version = 0, hl_UpdatedAt = zero_time\<rparr>"
| "fromRule (Some rule) = \<lparr>hl_TenantID = ru_TenantID rule, hl_Resource = ru_Resource rule, hl_Algorithm = ru_Algorithm rule,
     hl_Limit = ru_Limit rule, hl_Window = ru_Window rule, hl_BurstSize = ru_BurstSize rule, hl_Version = ru_Version rule,
     hl_UpdatedAt = ru_UpdatedAt rule\<rparr>"

fun fromCheckLimitResponse :: "CheckLimitResponse option \<Rightarrow> HTTPCheckResponse" where
  "fromCheckLimitResponse None = \<lparr>hp_Allowed = False, hp_Remaining = 0, hp_Limit = 0, hp_ResetAfter = 0, hp_RetryAfter = 0,
     hp_ErrorCode = []\<rparr>"
| "fromCheckLimitResponse (Some resp) = \<lparr>hp_Allowed = rs_Allowed resp, hp_Remaining = rs_Remaining resp, hp_Limit = rs_Limit resp,
     hp_ResetAfter = rs_ResetAfter resp, hp_RetryAfter = rs_RetryAfter resp, hp_ErrorCode = rs_ErrorCode resp\<rparr>"

section \<open>The transport\<close>

record http_server =
  hs_Addr :: string
  hs_ReadTimeout :: duration
  hs_WriteTimeout :: duration
  hs_IdleTimeout :: duration

text \<open>A service, the readiness and mode functions, the metrics and the logger are nil or set; what they do is that of
  the services.\<close>

record HTTPTransport =
  ht_addr :: string
  ht_srv :: "http_server option"
  ht_rate :: bool
  ht_admin :: bool
  ht_appReady :: bool
  ht_metrics :: bool
  ht_region :: string
  ht_mode :: bool
  ht_mux :: bool
  ht_readTimeout :: duration
  ht_writeTimeout :: duration
  ht_idleTimeout :: duration
  ht_maxBodyBytes :: int64
  ht_enableAuth :: bool
  ht_adminToken :: string
  ht_logger :: bool

record HTTPTransportConfig =
  hg_ReadTimeout :: duration
  hg_WriteTimeout :: duration
  hg_IdleTimeout :: duration
  hg_MaxBodyBytes :: int64
  hg_EnableAuth :: bool
  hg_AdminToken :: string
  hg_Logger :: bool
  hg_Metrics :: bool
  hg_Region :: string
  hg_Mode :: bool

text \<open>A readiness function that is nil is replaced by one that is never ready.\<close>

definition NewHTTPTransport :: "string \<Rightarrow> bool \<Rightarrow> HTTPTransport" where
  "NewHTTPTransport addr app_ready = \<lparr>ht_addr = (if addr = [] then '':8080'' else addr), ht_srv = None, ht_rate = False,
     ht_admin = False, ht_appReady = app_ready, ht_metrics = False, ht_region = [], ht_mode = False, ht_mux = False,
     ht_readTimeout = 0, ht_writeTimeout = 0, ht_idleTimeout = 0, ht_maxBodyBytes = 0, ht_enableAuth = False,
     ht_adminToken = [], ht_logger = False\<rparr>"

definition HTTP_ServeRateLimit :: "bool \<Rightarrow> HTTPTransport \<Rightarrow> go_error + HTTPTransport" where
  "HTTP_ServeRateLimit service t =
     (if \<not> service then Inl (ErrorString ''rate limit service is required'') else Inr (t\<lparr>ht_rate := True\<rparr>))"

definition HTTP_ServeAdmin :: "bool \<Rightarrow> HTTPTransport \<Rightarrow> go_error + HTTPTransport" where
  "HTTP_ServeAdmin service t =
     (if \<not> service then Inl (ErrorString ''admin service is required'') else Inr (t\<lparr>ht_admin := True\<rparr>))"

definition Configure :: "HTTPTransportConfig \<Rightarrow> HTTPTransport option \<Rightarrow> HTTPTransport option" where
  "Configure cfg t_ptr = map_option (\<lambda>t. t\<lparr>ht_readTimeout := hg_ReadTimeout cfg, ht_writeTimeout := hg_WriteTimeout cfg,
     ht_idleTimeout := hg_IdleTimeout cfg,
     ht_maxBodyBytes := (if hg_MaxBodyBytes cfg > 0 then hg_MaxBodyBytes cfg else ht_maxBodyBytes t),
     ht_enableAuth := hg_EnableAuth cfg, ht_adminToken := hg_AdminToken cfg, ht_logger := hg_Logger cfg,
     ht_metrics := hg_Metrics cfg, ht_region := hg_Region cfg, ht_mode := hg_Mode cfg\<rparr>) t_ptr"

definition HTTP_handler :: "HTTPTransport \<Rightarrow> go_error option \<times> HTTPTransport" where
  "HTTP_handler t =
     (if ht_mux t then (None, t)
      else if \<not> ht_rate t \<or> \<not> ht_admin t then (Some (ErrorString ''services must be registered before starting''), t)
      else (None, t\<lparr>ht_mux := True\<rparr>))"

text \<open>
  \<^verbatim>\<open>Start\<close> and \<^verbatim>\<open>Shutdown\<close>: the results of \<^verbatim>\<open>net.Listen\<close>, of \<^verbatim>\<open>Serve\<close> (\<^term>\<open>None\<close> for a server that was closed) and of
  the server's own \<^verbatim>\<open>Shutdown\<close> are arguments.
\<close>

definition HTTP_Start ::
    "(string \<Rightarrow> go_error option) \<Rightarrow> (http_server \<Rightarrow> go_error option) \<Rightarrow> HTTPTransport option
      \<Rightarrow> go_error option \<times> HTTPTransport option" where
  "HTTP_Start listen serve t_ptr =
     (case t_ptr of
        None \<Rightarrow> (Some (ErrorString ''http transport is nil''), None)
      | Some t \<Rightarrow>
          (case HTTP_handler t of
             (Some err, t1) \<Rightarrow> (Some err, Some t1)
           | (None, t1) \<Rightarrow>
               let t2 = (if ht_srv t1 = None
                         then t1\<lparr>ht_srv := Some \<lparr>hs_Addr = ht_addr t1, hs_ReadTimeout = ht_readTimeout t1,
                                 hs_WriteTimeout = ht_writeTimeout t1, hs_IdleTimeout = ht_idleTimeout t1\<rparr>\<rparr>
                         else t1);
                   srv = the (ht_srv t2)
               in (case listen (hs_Addr srv) of
                     Some err \<Rightarrow> (Some err, Some t2)
                   | None \<Rightarrow> (serve srv, Some t2))))"

definition HTTP_Shutdown :: "(http_server \<Rightarrow> go_error option) \<Rightarrow> HTTPTransport option \<Rightarrow> go_error option" where
  "HTTP_Shutdown shutdown t_ptr =
     (case t_ptr of
        None \<Rightarrow> Some (ErrorString ''http transport is nil'')
      | Some t \<Rightarrow> (case ht_srv t of None \<Rightarrow> None | Some srv \<Rightarrow> shutdown srv))"

section \<open>Requests and replies\<close>

record http_request =
  hx_Method :: string
  hx_Path :: string
  hx_Query :: "string \<Rightarrow> string"
  hx_Authorization :: string
  hx_Body :: "string option"

datatype payload =
    NoBody
  | CheckBody HTTPCheckResponse
  | CheckBodies "HTTPCheckResponse list"
  | RuleBody HTTPRuleResponse
  | RuleBodies "HTTPRuleResponse list"
  | ErrorBody string
  | MapBody "(string \<times> string) list"
  | MetricsBody metrics_snapshot

datatype log_level = LogInfo | LogError

record log_entry =
  lg_level :: log_level
  lg_msg :: string
  lg_method :: string
  lg_path :: string
  lg_status :: int
  lg_error :: string

record http_reply =
  hr_Status :: int
  hr_Body :: payload
  hr_Log :: "log_entry list"

text \<open>What a request meets: the decoder of JSON texts and the clock at the start and at the end.\<close>

record http_env =
  he_json :: "string \<Rightarrow> json option"
  he_start :: time
  he_end :: time

definition writeJSON :: "int \<Rightarrow> payload \<Rightarrow> http_reply" where
  "writeJSON status body = \<lparr>hr_Status = status, hr_Body = body, hr_Log = []\<rparr>"

definition WriteHeader :: "int \<Rightarrow> http_reply" where
  "WriteHeader status = \<lparr>hr_Status = status, hr_Body = NoBody, hr_Log = []\<rparr>"

definition logRequestError :: "HTTPTransport \<Rightarrow> http_request \<Rightarrow> int \<Rightarrow> go_error \<Rightarrow> log_entry list" where
  "logRequestError t r status err =
     (if \<not> ht_logger t then []
      else [\<lparr>lg_level = (if status \<ge> 500 then LogError else LogInfo), lg_msg = ''http request error'',
             lg_method = hx_Method r, lg_path = hx_Path r, lg_status = status, lg_error = Error_message err\<rparr>])"

definition writeError :: "HTTPTransport \<Rightarrow> http_request \<Rightarrow> int \<Rightarrow> go_error \<Rightarrow> http_reply" where
  "writeError t r status err = (writeJSON status (ErrorBody (Error_message err)))\<lparr>hr_Log := logRequestError t r status err\<rparr>"

fun statusForCode :: "ErrorCode option \<Rightarrow> int" where
  "statusForCode (Some CodeInvalidInput) = 400"
| "statusForCode (Some CodeInvalidCost) = 400"
| "statusForCode (Some CodeConflict) = 409"
| "statusForCode (Some CodeNotFound) = 404"
| "statusForCode (Some CodeUnauthorized) = 401"
| "statusForCode (Some CodeForbidden) = 403"
| "statusForCode _ = 500"

definition writeAdminError :: "HTTPTransport \<Rightarrow> http_request \<Rightarrow> go_error \<Rightarrow> http_reply" where
  "writeAdminError t r err = writeError t r (statusForCode (CodeOf (Some err))) err"

definition label_of_region :: "string \<Rightarrow> string" where
  "label_of_region region = (if region = [] then ''unknown'' else region)"

text \<open>The administrator's token: the refusal, when there is one.\<close>

definition authorizeAdmin :: "HTTPTransport \<Rightarrow> http_request \<Rightarrow> http_reply option" where
  "authorizeAdmin t r =
     (if \<not> ht_enableAuth t then None
      else if hx_Authorization r \<noteq> ''Bearer '' @ ht_adminToken t
      then Some (writeError t r 401 (Wrap CodeUnauthorized ''unauthorized'' None))
      else None)"

section \<open>Decoding\<close>

text \<open>A field that is not a pointer keeps its value on null.\<close>

definition plain_field :: "(json \<Rightarrow> go_error + 'a option) \<Rightarrow> ('a \<Rightarrow> 'r \<Rightarrow> 'r) \<Rightarrow> json \<Rightarrow> 'r \<Rightarrow> go_error + 'r" where
  "plain_field dec put = store_field dec (\<lambda>a x. case a of None \<Rightarrow> x | Some v \<Rightarrow> put v x)"

text \<open>The fields of an object when unknown ones are not allowed.\<close>

fun decode_known :: "'r field_table \<Rightarrow> (string \<times> json) list \<Rightarrow> 'r \<Rightarrow> go_error + 'r" where
  "decode_known table [] x = Inr x"
| "decode_known table ((k, v) # fs) x =
     (case map_of (map (\<lambda>(n, f). (foldName n, f)) table) (foldName k) of
        None \<Rightarrow> Inl json_error
      | Some f \<Rightarrow> (case f v x of Inl e \<Rightarrow> Inl e | Inr x1 \<Rightarrow> decode_known table fs x1))"

fun decode_struct :: "'r field_table \<Rightarrow> 'r \<Rightarrow> json \<Rightarrow> go_error + 'r" where
  "decode_struct table zero (JObject fs) = decode_known table fs zero"
| "decode_struct table zero JNull = Inr zero"
| "decode_struct table zero v = Inl json_error"

fun decode_elems :: "(json \<Rightarrow> go_error + 'r) \<Rightarrow> json list \<Rightarrow> go_error + 'r list" where
  "decode_elems dec [] = Inr []"
| "decode_elems dec (v # vs) =
     (case dec v of Inl e \<Rightarrow> Inl e | Inr x \<Rightarrow> (case decode_elems dec vs of Inl e \<Rightarrow> Inl e | Inr xs \<Rightarrow> Inr (x # xs)))"

fun decode_slice :: "(json \<Rightarrow> go_error + 'r) \<Rightarrow> json \<Rightarrow> go_error + 'r list" where
  "decode_slice dec (JArray vs) = decode_elems dec vs"
| "decode_slice dec JNull = Inr []"
| "decode_slice dec v = Inl json_error"

definition HTTPCheckRequest_table :: "HTTPCheckRequest field_table" where
  "HTTPCheckRequest_table = [
     (''traceID'', plain_field dec_string (\<lambda>v. hq_TraceID_update (\<lambda>_. v))),
     (''tenantID'', plain_field dec_string (\<lambda>v. hq_TenantID_update (\<lambda>_. v))),
     (''userID'', plain_field dec_string (\<lambda>v. hq_UserID_update (\<lambda>_. v))),
     (''resource'', plain_field dec_string (\<lambda>v. hq_Resource_update (\<lambda>_. v))),
     (''cost'', plain_field dec_int (\<lambda>v. hq_Cost_update (\<lambda>_. v)))]"

definition HTTPCreateRuleRequest_table :: "HTTPCreateRuleRequest field_table" where
  "HTTPCreateRuleRequest_table = [
     (''tenantID'', plain_field dec_string (\<lambda>v. hc_TenantID_update (\<lambda>_. v))),
     (''resource'', plain_field dec_string (\<lambda>v. hc_Resource_update (\<lambda>_. v))),
     (''algorithm'', plain_field dec_string (\<lambda>v. hc_Algorithm_update (\<lambda>_. v))),
     (''limit'', plain_field dec_int (\<lambda>v. hc_Limit_update (\<lambda>_. v))),
     (''window'', plain_field dec_int (\<lambda>v. hc_Window_update (\<lambda>_. v))),
     (''burstSize'', plain_field dec_int (\<lambda>v. hc_BurstSize_update (\<lambda>_. v))),
     (''idempotencyKey'', plain_field dec_string (\<lambda>v. hc_IdempotencyKey_update (\<lambda>_. v)))]"

definition HTTPUpdateRuleRequest_table :: "HTTPUpdateRuleRequest field_table" where
  "HTTPUpdateRuleRequest_table = [
     (''tenantID'', plain_field dec_string (\<lambda>v. hu_TenantID_update (\<lambda>_. v))),
     (''resource'', plain_field dec_string (\<lambda>v. hu_Resource_update (\<lambda>_. v))),
     (''algorithm'', plain_field dec_string (\<lambda>v. hu_Algorithm_update (\<lambda>_. v))),
     (''limit'', plain_field dec_int (\<lambda>v. hu_Limit_update (\<lambda>_. v))),
     (''window'', plain_field dec_int (\<lambda>v. hu_Window_update (\<lambda>_. v))),
     (''burstSize'', plain_field dec_int (\<lambda>v. hu_BurstSize_update (\<lambda>_. v))),
     (''expectedVersion'', plain_field dec_int (\<lambda>v. hu_ExpectedVersion_update (\<lambda>_. v)))]"

definition dec_check :: "json \<Rightarrow> go_error + HTTPCheckRequest" where
  "dec_check = decode_struct HTTPCheckRequest_table
     \<lparr>hq_TraceID = [], hq_TenantID = [], hq_UserID = [], hq_Resource = [], hq_Cost = 0\<rparr>"

definition dec_create :: "json \<Rightarrow> go_error + HTTPCreateRuleRequest" where
  "dec_create = decode_struct HTTPCreateRuleRequest_table
     \<lparr>hc_TenantID = [], hc_Resource = [], hc_Algorithm = [], hc_Limit = 0, hc_Window = 0, hc_BurstSize = 0, hc_IdempotencyKey = []\<rparr>"

definition dec_update :: "json \<Rightarrow> go_error + HTTPUpdateRuleRequest" where
  "dec_update = decode_struct HTTPUpdateRuleRequest_table
     \<lparr>hu_TenantID = [], hu_Resource = [], hu_Algorithm = [], hu_Limit = 0, hu_Window = 0, hu_BurstSize = 0, hu_ExpectedVersion = 0\<rparr>"

text \<open>
  A body that is longer than the limit ends in an error of the reader, one that holds anything but one JSON value fails
  the first or the second \<^verbatim>\<open>Decode\<close>; every failure is the same error.
\<close>

definition decodeJSON :: "http_env \<Rightarrow> HTTPTransport \<Rightarrow> http_request \<Rightarrow> (json \<Rightarrow> go_error + 'a) \<Rightarrow> go_error + 'a" where
  "decodeJSON env t r dec =
     (case hx_Body r of
        None \<Rightarrow> Inl ErrInvalidInput
      | Some body \<Rightarrow>
          let maxBytes = (if ht_maxBodyBytes t \<le> 0 then 2 ^ 20 else ht_maxBodyBytes t)
          in if int (length body) > maxBytes then Inl ErrInvalidInput
             else (case he_json env body of
                     None \<Rightarrow> Inl ErrInvalidInput
                   | Some v \<Rightarrow> (case dec v of Inl e \<Rightarrow> Inl ErrInvalidInput | Inr x \<Rightarrow> Inr x)))"

section \<open>Handlers\<close>

text \<open>A handler returns its reply and the state of the server, or panics.\<close>

type_synonym 's served = "(http_reply \<times> 's) option"

text \<open>The deferred observation of the latency.\<close>

definition observed :: "http_env \<Rightarrow> 's services \<Rightarrow> HTTPTransport \<Rightarrow> string \<Rightarrow> 's served \<Rightarrow> 's served" where
  "observed env sv t op res = map_option (\<lambda>(reply, st). (reply,
     if ht_metrics t
     then sv_set_metrics sv (ObserveLatency (sv_metrics sv st) op (time_Sub (he_end env) (he_start env)) (label_of_region (ht_region t))) st
     else st)) res"

text \<open>The status for an error of the rate-limit service.\<close>

definition check_status :: "go_error \<Rightarrow> int" where
  "check_status err = (if CodeOf (Some err) \<in> {Some CodeInvalidInput, Some CodeInvalidCost} then 400 else 500)"

definition handleCheck :: "http_env \<Rightarrow> 's services \<Rightarrow> HTTPTransport \<Rightarrow> http_request \<Rightarrow> 's \<Rightarrow> 's served" where
  "handleCheck env sv t r st =
     (if hx_Method r \<noteq> ''POST'' then Some (WriteHeader 405, st)
      else observed env sv t ''httpCheck''
        (case decodeJSON env t r dec_check of
           Inl err \<Rightarrow> Some (writeError t r 400 err, st)
         | Inr httpReq \<Rightarrow>
             if hq_TenantID httpReq = [] \<or> hq_UserID httpReq = [] \<or> hq_Resource httpReq = [] \<or> hq_Cost httpReq \<le> 0
             then Some (writeError t r 400 ErrInvalidInput, st)
             else (case sv_CheckLimit sv (Some (toCheckLimitRequest httpReq)) st of
                     None \<Rightarrow> None
                   | Some (Inl err, st1) \<Rightarrow> Some (writeError t r (check_status err) err, st1)
                   | Some (Inr resp, st1) \<Rightarrow> Some (writeJSON 200 (CheckBody (fromCheckLimitResponse (Some resp))), st1))))"

definition handleCheckBatch :: "http_env \<Rightarrow> 's services \<Rightarrow> HTTPTransport \<Rightarrow> http_request \<Rightarrow> 's \<Rightarrow> 's served" where
  "handleCheckBatch env sv t r st =
     (if hx_Method r \<noteq> ''POST'' then Some (WriteHeader 405, st)
      else observed env sv t ''httpCheckBatch''
        (case decodeJSON env t r (decode_slice dec_check) of
           Inl err \<Rightarrow> Some (writeError t r 400 err, st)
         | Inr httpReqs \<Rightarrow>
             (case sv_CheckLimitBatch sv (map (\<lambda>q. Some (toCheckLimitRequest q)) httpReqs) st of
                None \<Rightarrow> None
              | Some (Inl err, st1) \<Rightarrow> Some (writeError t r (check_status err) err, st1)
              | Some (Inr resps, st1) \<Rightarrow> Some (writeJSON 200 (CheckBodies (map (\<lambda>q. fromCheckLimitResponse (Some q)) resps)), st1))))"

definition handleCreateRule :: "http_env \<Rightarrow> 's services \<Rightarrow> HTTPTransport \<Rightarrow> http_request \<Rightarrow> 's \<Rightarrow> 's served" where
  "handleCreateRule env sv t r st =
     (case decodeJSON env t r dec_create of
        Inl err \<Rightarrow> Some (writeError t r 400 err, st)
      | Inr httpReq \<Rightarrow>
          if hc_TenantID httpReq = [] \<or> hc_Resource httpReq = [] \<or> hc_Algorithm httpReq = [] \<or> hc_Limit httpReq \<le> 0
          then Some (writeError t r 400 ErrInvalidInput, st)
          else (case sv_CreateRule sv (Some (toCreateRuleRequest httpReq)) st of
                  (Inl err, st1) \<Rightarrow> Some (writeAdminError t r err, st1)
                | (Inr rule, st1) \<Rightarrow> Some (writeJSON 201 (RuleBody (fromRule (Some rule))), st1)))"

definition handleUpdateRule :: "http_env \<Rightarrow> 's services \<Rightarrow> HTTPTransport \<Rightarrow> http_request \<Rightarrow> 's \<Rightarrow> 's served" where
  "handleUpdateRule env sv t r st =
     (case decodeJSON env t r dec_update of
        Inl err \<Rightarrow> Some (writeError t r 400 err, st)
      | Inr httpReq \<Rightarrow>
          if hu_TenantID httpReq = [] \<or> hu_Resource httpReq = [] \<or> hu_Algorithm httpReq = [] \<or> hu_Limit httpReq \<le> 0
          then Some (writeError t r 400 ErrInvalidInput, st)
          else (case sv_UpdateRule sv (Some (toUpdateRuleRequest httpReq)) st of
                  (Inl err, st1) \<Rightarrow> Some (writeAdminError t r err, st1)
                | (Inr rule, st1) \<Rightarrow> Some (writeJSON 200 (RuleBody (fromRule (Some rule))), st1)))"

definition handleDeleteRule :: "'s services \<Rightarrow> HTTPTransport \<Rightarrow> http_request \<Rightarrow> 's \<Rightarrow> 's served" where
  "handleDeleteRule sv t r st =
     (let tenantID = hx_Query r ''tenantID'';
          resource = hx_Query r ''resource'';
          versionStr = hx_Query r ''expectedVersion''
      in if tenantID = [] \<or> resource = [] \<or> versionStr = [] then Some (writeError t r 400 ErrInvalidInput, st)
         else (case ParseInt versionStr of
                 None \<Rightarrow> Some (writeError t r 400 ErrInvalidInput, st)
               | Some expectedVersion \<Rightarrow>
                   (case sv_DeleteRule sv tenantID resource expectedVersion st of
                      (Some err, st1) \<Rightarrow> Some (writeAdminError t r err, st1)
                    | (None, st1) \<Rightarrow> Some (WriteHeader 204, st1))))"

definition handleGetRule :: "'s services \<Rightarrow> HTTPTransport \<Rightarrow> http_request \<Rightarrow> 's \<Rightarrow> 's served" where
  "handleGetRule sv t r st =
     (let tenantID = hx_Query r ''tenantID'';
          resource = hx_Query r ''resource''
      in if tenantID = [] \<or> resource = [] then Some (writeError t r 400 ErrInvalidInput, st)
         else (case sv_GetRule sv tenantID resource st of
                 Inl err \<Rightarrow> Some (writeAdminError t r err, st)
               | Inr rule \<Rightarrow> Some (writeJSON 200 (RuleBody (fromRule (Some rule))), st)))"

definition handleRules :: "http_env \<Rightarrow> 's services \<Rightarrow> HTTPTransport \<Rightarrow> http_request \<Rightarrow> 's \<Rightarrow> 's served" where
  "handleRules env sv t r st =
     (case authorizeAdmin t r of
        Some refusal \<Rightarrow> Some (refusal, st)
      | None \<Rightarrow>
          if hx_Method r = ''POST'' then handleCreateRule env sv t r st
          else if hx_Method r = ''PUT'' then handleUpdateRule env sv t r st
          else if hx_Method r = ''DELETE'' then handleDeleteRule sv t r st
          else if hx_Method r = ''GET'' then handleGetRule sv t r st
          else Some (WriteHeader 405, st))"

definition handleRulesList :: "'s services \<Rightarrow> HTTPTransport \<Rightarrow> http_request \<Rightarrow> 's \<Rightarrow> 's served" where
  "handleRulesList sv t r st =
     (if hx_Method r \<noteq> ''GET'' then Some (WriteHeader 405, st)
      else case authorizeAdmin t r of
             Some refusal \<Rightarrow> Some (refusal, st)
           | None \<Rightarrow>
               let tenantID = hx_Query r ''tenantID'' in
               if tenantID = [] then Some (writeError t r 400 ErrInvalidInput, st)
               else (case sv_ListRules sv tenantID st of
                       Inl err \<Rightarrow> Some (writeAdminError t r err, st)
                     | Inr rules \<Rightarrow> Some (writeJSON 200 (RuleBodies (map (\<lambda>q. fromRule (Some q)) rules)), st)))"

definition handleHealth :: "http_request \<Rightarrow> 's \<Rightarrow> 's served" where
  "handleHealth r st =
     (if hx_Method r \<noteq> ''GET'' then Some (WriteHeader 405, st)
      else Some (writeJSON 200 (MapBody [(''status'', ''ok'')]), st))"

definition handleReady :: "'s services \<Rightarrow> HTTPTransport \<Rightarrow> http_request \<Rightarrow> 's \<Rightarrow> 's served" where
  "handleReady sv t r st =
     (if hx_Method r \<noteq> ''GET'' then Some (WriteHeader 405, st)
      else if ht_appReady t \<and> sv_Ready sv st then Some (writeJSON 200 (MapBody [(''status'', ''ok'')]), st)
      else Some (writeJSON 503 (MapBody [(''status'', ''not_ready'')]), st))"

definition handleMetrics :: "'s services \<Rightarrow> HTTPTransport \<Rightarrow> http_request \<Rightarrow> 's \<Rightarrow> 's served" where
  "handleMetrics sv t r st =
     (if hx_Method r \<noteq> ''GET'' then Some (WriteHeader 405, st)
      else if \<not> ht_metrics t then Some (writeJSON 200 (MapBody []), st)
      else case Snapshot (sv_metrics sv st) of
             None \<Rightarrow> Some (writeJSON 200 (MapBody []), st)
           | Some s \<Rightarrow> Some (writeJSON 200 (MetricsBody s), st))"

definition handleMode :: "'s services \<Rightarrow> HTTPTransport \<Rightarrow> http_request \<Rightarrow> 's \<Rightarrow> 's served" where
  "handleMode sv t r st =
     (if hx_Method r \<noteq> ''GET'' then Some (WriteHeader 405, st)
      else
        let mode = (if ht_mode t then sv_Mode sv st else ModeNormal);
            label = (case mode of ModeDegraded \<Rightarrow> ''degraded'' | ModeEmergency \<Rightarrow> ''emergency'' | ModeNormal \<Rightarrow> ''normal'')
        in Some (writeJSON 200 (MapBody [(''mode'', label)]), st))"

definition registerRoutes :: "http_env \<Rightarrow> 's services \<Rightarrow> HTTPTransport \<Rightarrow> (string \<times> (http_request \<Rightarrow> 's \<Rightarrow> 's served)) list" where
  "registerRoutes env sv t = [
     (''/v1/ratelimit/check'', handleCheck env sv t),
     (''/v1/ratelimit/checkBatch'', handleCheckBatch env sv t),
     (''/v1/admin/rules'', handleRules env sv t),
     (''/v1/admin/rules/list'', handleRulesList sv t),
     (''/healthz'', handleHealth),
     (''/readyz'', handleReady sv t),
     (''/metrics'', handleMetrics sv t),
     (''/mode'', handleMode sv t)]"

text \<open>
  \<^verbatim>\<open>http.ServeMux\<close>: a pattern without a trailing slash matches its own path only; any other path gets the multiplexer's
  own reply (not found, or a redirection to the cleaned path), which is an argument.
\<close>

definition serve_http ::
    "(http_request \<Rightarrow> http_reply) \<Rightarrow> http_env \<Rightarrow> 's services \<Rightarrow> HTTPTransport \<Rightarrow> http_request \<Rightarrow> 's \<Rightarrow> 's served" where
  "serve_http no_route env sv t r st =
     (case map_of (registerRoutes env sv t) (hx_Path r) of
        None \<Rightarrow> Some (no_route r, st)
      | Some h \<Rightarrow> h r st)"

section \<open>What a request can change\<close>

text \<open>
  A part of the server that checks and metrics leave alone (for the server: the rule database and the outbox). It
  changes through the administrative operations only.
\<close>

locale admin_part =
  fixes sv :: "'s services" and adm :: "'s \<Rightarrow> 'a"
  assumes check_keeps: "sv_CheckLimit sv req st = Some (res, st') \<Longrightarrow> adm st' = adm st"
    and batch_keeps: "sv_CheckLimitBatch sv reqs st = Some (ress, st') \<Longrightarrow> adm st' = adm st"
    and metrics_keep: "adm (sv_set_metrics sv m st) = adm st"
begin

lemma observed_keeps:
  "observed env sv t op res = Some (reply, st') \<Longrightarrow> \<exists>st1. res = Some (reply, st1) \<and> adm st' = adm st1"
  by (auto simp: observed_def metrics_keep split: if_splits)

lemma handleCheck_keeps: "handleCheck env sv t r st = Some (reply, st') \<Longrightarrow> adm st' = adm st"
  by (auto simp: handleCheck_def dest!: observed_keeps split: if_splits sum.splits option.splits dest: check_keeps)

lemma handleCheckBatch_keeps: "handleCheckBatch env sv t r st = Some (reply, st') \<Longrightarrow> adm st' = adm st"
  by (auto simp: handleCheckBatch_def dest!: observed_keeps split: if_splits sum.splits option.splits dest: batch_keeps)

end

lemma readers_keep:
  "handleGetRule sv t r st = Some (reply, st') \<Longrightarrow> st' = st"
  "handleRulesList sv t r st = Some (reply, st') \<Longrightarrow> st' = st"
  "handleHealth r st = Some (reply, st') \<Longrightarrow> st' = st"
  "handleReady sv t r st = Some (reply, st') \<Longrightarrow> st' = st"
  "handleMetrics sv t r st = Some (reply, st') \<Longrightarrow> st' = st"
  "handleMode sv t r st = Some (reply, st') \<Longrightarrow> st' = st"
  by (auto simp: handleGetRule_def handleRulesList_def handleHealth_def handleReady_def handleMetrics_def handleMode_def Let_def
      split: if_splits sum.splits option.splits)

definition http_write :: "HTTPTransport \<Rightarrow> http_request \<Rightarrow> bool" where
  "http_write t r \<longleftrightarrow> hx_Path r = ''/v1/admin/rules'' \<and> hx_Method r \<in> {''POST'', ''PUT'', ''DELETE''}
     \<and> (ht_enableAuth t \<longrightarrow> hx_Authorization r = ''Bearer '' @ ht_adminToken t)"

lemma handleRules_refused:
  "handleRules env sv t r st = Some (reply, st') \<Longrightarrow> st' \<noteq> st \<Longrightarrow> hx_Path r = ''/v1/admin/rules'' \<Longrightarrow> http_write t r"
  by (auto simp: handleRules_def authorizeAdmin_def http_write_def dest: readers_keep split: if_splits)

context admin_part
begin

lemma http_writes_authorized:
  assumes "serve_http no_route env sv t r st = Some (reply, st')" "adm st' \<noteq> adm st"
  shows "http_write t r"
  using assms
  by (auto simp: serve_http_def registerRoutes_def split: if_splits
      dest: handleCheck_keeps handleCheckBatch_keeps handleRules_refused readers_keep)

end

lemma http_unauthorized:
  assumes "ht_enableAuth t" "hx_Authorization r \<noteq> ''Bearer '' @ ht_adminToken t"
  shows "handleRules env sv t r st = Some (writeError t r 401 (Wrap CodeUnauthorized ''unauthorized'' None), st)"
  using assms by (simp add: handleRules_def authorizeAdmin_def)

end
