(* ===== verification/Grpc.thy ===== *)
theory Grpc
  imports Http
begin

text \<open>
  The gRPC transport: \<^verbatim>\<open>transport/grpc\<close>. The messages are those of the generated package; a call is one of its methods
  with its message. The interceptors wrap the call in the order of the chain. Spans are those of the no-op tracer: only
  whether a request is sampled is kept, since sampling can panic. The lines that are logged are part of the result.
\<close>

section \<open>Messages\<close>

record grpc_check =
  gk_TraceId :: string
  gk_TenantId :: string
  gk_UserId :: string
  gk_Resource :: string
  gk_Cost :: int64

record grpc_create =
  gr_TenantId :: string
  gr_Resource :: string
  gr_Algorithm :: string
  gr_Limit :: int64
  gr_WindowMs :: int64
  gr_BurstSize :: int64
  gr_IdempotencyKey :: string

record grpc_update =
  gu_TenantId :: string
  gu_Resource :: string
  gu_Algorithm :: string
  gu_Limit :: int64
  gu_WindowMs :: int64
  gu_BurstSize :: int64
  gu_ExpectedVersion :: int64

record grpc_delete =
  gd_TenantId :: string
  gd_Resource :: string
  gd_ExpectedVersion :: int64

record grpc_check_response =
  gp_Allowed :: bool
  gp_Remaining :: int64
  gp_Limit :: int64
  gp_ResetAfterMs :: int64
  gp_RetryAfterMs :: int64
  gp_ErrorCode :: string

record grpc_rule =
  gl_TenantId :: string
  gl_Resource :: string
  gl_Algorithm :: string
  gl_Limit :: int64
  gl_WindowMs :: int64
  gl_BurstSize :: int64
  gl_Version :: int64
  gl_UpdatedAtUnixMs :: int64

datatype grpc_call =
    RpcCheckLimit "grpc_check option"
  | RpcCheckLimitBatch "grpc_check option list option"
  | RpcCreateRule "grpc_create option"
  | RpcUpdateRule "grpc_update option"
  | RpcDeleteRule "grpc_delete option"
  | RpcGetRule "(string \<times> string) option"
  | RpcListRules "string option"
  | RpcHealth
  | RpcReady
  | RpcMode

datatype grpc_message =
    MsgCheck grpc_check_response
  | MsgBatch "grpc_check_response list"
  | MsgRule grpc_rule
  | MsgRules "grpc_rule list"
  | MsgHealth string

fun FullMethod :: "grpc_call \<Rightarrow> string" where
  "FullMethod (RpcCheckLimit req) = ''/ratelimit.v1.RateLimitService/CheckLimit''"
| "FullMethod (RpcCheckLimitBatch req) = ''/ratelimit.v1.RateLimitService/CheckLimitBatch''"
| "FullMethod (RpcCreateRule req) = ''/ratelimit.v1.AdminService/CreateRule''"
| "FullMethod (RpcUpdateRule req) = ''/ratelimit.v1.AdminService/UpdateRule''"
| "FullMethod (RpcDeleteRule req) = ''/ratelimit.v1.AdminService/DeleteRule''"
| "FullMethod (RpcGetRule req) = ''/ratelimit.v1.AdminService/GetRule''"
| "FullMethod (RpcListRules req) = ''/ratelimit.v1.AdminService/ListRules''"
| "FullMethod RpcHealth = ''/ratelimit.v1.HealthService/Health''"
| "FullMethod RpcReady = ''/ratelimit.v1.HealthService/Ready''"
| "FullMethod RpcMode = ''/ratelimit.v1.HealthService/Mode''"

text \<open>The status codes that the transport uses, and a status: its code and its message.\<close>

datatype grpc_code = InvalidArgument | NotFound | FailedPrecondition | Unauthenticated | PermissionDenied | Internal

type_synonym grpc_status = "grpc_code \<times> string"

section \<open>Conversions\<close>

definition toGRPCCheckLimitResponse :: "CheckLimitResponse option \<Rightarrow> grpc_check_response" where
  "toGRPCCheckLimitResponse resp_ptr =
     (case resp_ptr of
        None \<Rightarrow> \<lparr>gp_Allowed = False, gp_Remaining = 0, gp_Limit = 0, gp_ResetAfterMs = 0, gp_RetryAfterMs = 0, gp_ErrorCode = []\<rparr>
      | Some resp \<Rightarrow> \<lparr>gp_Allowed = rs_Allowed resp, gp_Remaining = rs_Remaining resp, gp_Limit = rs_Limit resp,
          gp_ResetAfterMs = Milliseconds (rs_ResetAfter resp), gp_RetryAfterMs = Milliseconds (rs_RetryAfter resp),
          gp_ErrorCode = rs_ErrorCode resp\<rparr>)"

definition UnixMilli :: "time \<Rightarrow> int64" where
  "UnixMilli t = wrap64 (t div 1000000)"

definition toGRPCRule :: "Rule option \<Rightarrow> grpc_rule" where
  "toGRPCRule rule_ptr =
     (case rule_ptr of
        None \<Rightarrow> \<lparr>gl_TenantId = [], gl_Resource = [], gl_Algorithm = [], gl_Limit = 0, gl_WindowMs = 0, gl_BurstSize = 0,
          gl_Version = 0, gl_UpdatedAtUnixMs = 0\<rparr>
      | Some rule \<Rightarrow>
          let updatedAt = (if ru_UpdatedAt rule = zero_time then 0 else UnixMilli (ru_UpdatedAt rule))
          in \<lparr>gl_TenantId = ru_TenantID rule, gl_Resource = ru_Resource rule, gl_Algorithm = ru_Algorithm rule,
              gl_Limit = ru_Limit rule, gl_WindowMs = Milliseconds (ru_Window rule), gl_BurstSize = ru_BurstSize rule,
              gl_Version = ru_Version rule, gl_UpdatedAtUnixMs = updatedAt\<rparr>)"

fun grpcErrorCode :: "ErrorCode option \<Rightarrow> string" where
  "grpcErrorCode (Some code) = ErrorCode_string code"
| "grpcErrorCode None = ''LIMITER_ERROR''"

fun grpc_code_of :: "ErrorCode option \<Rightarrow> grpc_code" where
  "grpc_code_of (Some CodeInvalidInput) = InvalidArgument"
| "grpc_code_of (Some CodeInvalidCost) = InvalidArgument"
| "grpc_code_of (Some CodeConflict) = FailedPrecondition"
| "grpc_code_of (Some CodeNotFound) = NotFound"
| "grpc_code_of (Some CodeUnauthorized) = Unauthenticated"
| "grpc_code_of (Some CodeForbidden) = PermissionDenied"
| "grpc_code_of _ = Internal"

definition grpcError :: "go_error \<Rightarrow> grpc_status" where
  "grpcError err = (grpc_code_of (CodeOf (Some err)), Error_message err)"

fun modeStatus :: "OperatingMode \<Rightarrow> string" where
  "modeStatus ModeDegraded = ''degraded''"
| "modeStatus ModeEmergency = ''emergency''"
| "modeStatus ModeNormal = ''normal''"

definition core_check :: "grpc_check \<Rightarrow> CheckLimitRequest" where
  "core_check m = \<lparr>cr_TraceID = gk_TraceId m, cr_TenantID = gk_TenantId m, cr_UserID = gk_UserId m,
     cr_Resource = gk_Resource m, cr_Cost = gk_Cost m\<rparr>"

definition core_create :: "grpc_create \<Rightarrow> CreateRuleRequest" where
  "core_create m = \<lparr>cq_TenantID = gr_TenantId m, cq_Resource = gr_Resource m, cq_Algorithm = gr_Algorithm m,
     cq_Limit = gr_Limit m, cq_Window = wrap64 (gr_WindowMs m * Millisecond), cq_BurstSize = gr_BurstSize m,
     cq_IdempotencyKey = gr_IdempotencyKey m\<rparr>"

definition core_update :: "grpc_update \<Rightarrow> UpdateRuleRequest" where
  "core_update m = \<lparr>uq_TenantID = gu_TenantId m, uq_Resource = gu_Resource m, uq_Algorithm = gu_Algorithm m,
     uq_Limit = gu_Limit m, uq_Window = wrap64 (gu_WindowMs m * Millisecond), uq_BurstSize = gu_BurstSize m,
     uq_ExpectedVersion = gu_ExpectedVersion m\<rparr>"

section \<open>Servers\<close>

type_synonym 's answered = "((grpc_status + grpc_message) \<times> 's) option"

text \<open>The check of a nil message, then that of a missing service.\<close>

definition with_message :: "string \<Rightarrow> bool \<Rightarrow> 'm option \<Rightarrow> ('m \<Rightarrow> 's \<Rightarrow> 's answered) \<Rightarrow> 's \<Rightarrow> 's answered" where
  "with_message missing service req h st =
     (case req of
        None \<Rightarrow> Some (Inl (InvalidArgument, ''invalid request''), st)
      | Some m \<Rightarrow> if \<not> service then Some (Inl (Internal, missing), st) else h m st)"

definition Server_CheckLimit :: "'s services \<Rightarrow> bool \<Rightarrow> grpc_check option \<Rightarrow> 's \<Rightarrow> 's answered" where
  "Server_CheckLimit sv service req = with_message ''rate limit service is required'' service req (\<lambda>m st.
     case sv_CheckLimit sv (Some (core_check m)) st of
       None \<Rightarrow> None
     | Some (Inl err, st1) \<Rightarrow>
         let code = CodeOf (Some err) in
         if code = Some CodeInvalidInput \<or> code = Some CodeInvalidCost then Some (Inl (InvalidArgument, Error_message err), st1)
         else Some (Inr (MsgCheck ((toGRPCCheckLimitResponse None)\<lparr>gp_ErrorCode := grpcErrorCode code\<rparr>)), st1)
     | Some (Inr resp, st1) \<Rightarrow> Some (Inr (MsgCheck (toGRPCCheckLimitResponse (Some resp))), st1))"

definition Server_CheckLimitBatch :: "'s services \<Rightarrow> bool \<Rightarrow> grpc_check option list option \<Rightarrow> 's \<Rightarrow> 's answered" where
  "Server_CheckLimitBatch sv service req = with_message ''rate limit service is required'' service req (\<lambda>items st.
     case sv_CheckLimitBatch sv (map (map_option core_check) items) st of
       None \<Rightarrow> None
     | Some (Inl err, st1) \<Rightarrow>
         let code = CodeOf (Some err) in
         if code = Some CodeInvalidInput \<or> code = Some CodeInvalidCost then Some (Inl (InvalidArgument, Error_message err), st1)
         else Some (Inl (Internal, Error_message err), st1)
     | Some (Inr resps, st1) \<Rightarrow> Some (Inr (MsgBatch (map (\<lambda>q. toGRPCCheckLimitResponse (Some q)) resps)), st1))"

definition Server_CreateRule :: "'s services \<Rightarrow> bool \<Rightarrow> grpc_create option \<Rightarrow> 's \<Rightarrow> 's answered" where
  "Server_CreateRule sv service req = with_message ''admin service is required'' service req (\<lambda>m st.
     case sv_CreateRule sv (Some (core_create m)) st of
       (Inl err, st1) \<Rightarrow> Some (Inl (grpcError err), st1)
     | (Inr rule, st1) \<Rightarrow> Some (Inr (MsgRule (toGRPCRule (Some rule))), st1))"

definition Server_UpdateRule :: "'s services \<Rightarrow> bool \<Rightarrow> grpc_update option \<Rightarrow> 's \<Rightarrow> 's answered" where
  "Server_UpdateRule sv service req = with_message ''admin service is required'' service req (\<lambda>m st.
     case sv_UpdateRule sv (Some (core_update m)) st of
       (Inl err, st1) \<Rightarrow> Some (Inl (grpcError err), st1)
     | (Inr rule, st1) \<Rightarrow> Some (Inr (MsgRule (toGRPCRule (Some rule))), st1))"

definition Server_DeleteRule :: "'s services \<Rightarrow> bool \<Rightarrow> grpc_delete option \<Rightarrow> 's \<Rightarrow> 's answered" where
  "Server_DeleteRule sv service req = with_message ''admin service is required'' service req (\<lambda>m st.
     case sv_DeleteRule sv (gd_TenantId m) (gd_Resource m) (gd_ExpectedVersion m) st of
       (Some err, st1) \<Rightarrow> Some (Inl (grpcError err), st1)
     | (None, st1) \<Rightarrow> Some (Inr (MsgHealth ''ok''), st1))"

definition Server_GetRule :: "'s services \<Rightarrow> bool \<Rightarrow> (string \<times> string) option \<Rightarrow> 's \<Rightarrow> 's answered" where
  "Server_GetRule sv service req = with_message ''admin service is required'' service req (\<lambda>(tenantId, resource) st.
     case sv_GetRule sv tenantId resource st of
       Inl err \<Rightarrow> Some (Inl (grpcError err), st)
     | Inr rule \<Rightarrow> Some (Inr (MsgRule (toGRPCRule (Some rule))), st))"

definition Server_ListRules :: "'s services \<Rightarrow> bool \<Rightarrow> string option \<Rightarrow> 's \<Rightarrow> 's answered" where
  "Server_ListRules sv service req = with_message ''admin service is required'' service req (\<lambda>tenantId st.
     case sv_ListRules sv tenantId st of
       Inl err \<Rightarrow> Some (Inl (grpcError err), st)
     | Inr rules \<Rightarrow> Some (Inr (MsgRules (map (\<lambda>q. toGRPCRule (Some q)) rules)), st))"

definition Server_Health :: "'s \<Rightarrow> 's answered" where
  "Server_Health st = Some (Inr (MsgHealth ''ok''), st)"

definition Server_Ready :: "'s services \<Rightarrow> bool \<Rightarrow> 's \<Rightarrow> 's answered" where
  "Server_Ready sv has_ready st =
     (if has_ready \<and> sv_Ready sv st then Some (Inr (MsgHealth ''ok''), st) else Some (Inr (MsgHealth ''not_ready''), st))"

definition Server_Mode :: "'s services \<Rightarrow> bool \<Rightarrow> 's \<Rightarrow> 's answered" where
  "Server_Mode sv has_mode st =
     (let mode = (if has_mode then sv_Mode sv st else ModeNormal) in Some (Inr (MsgHealth (modeStatus mode)), st))"

section \<open>The transport\<close>

record GRPCTransportConfig =
  gc_EnableAuth :: bool
  gc_AdminToken :: string
  gc_KeepAlive :: duration
  gc_Tracer :: bool
  gc_Sampler :: "HashSampler option"
  gc_Metrics :: bool
  gc_Region :: string
  gc_Logger :: bool

record GRPCTransport =
  gt_addr :: string
  gt_lis :: bool
  gt_srv :: bool
  gt_rate :: bool
  gt_admin :: bool
  gt_ready :: bool
  gt_mode :: bool
  gt_cfg :: GRPCTransportConfig

text \<open>A readiness function that is nil is replaced by one that is never ready, a mode function by one that says normal.\<close>

definition NewGRPCTransport :: "string \<Rightarrow> bool \<Rightarrow> bool \<Rightarrow> GRPCTransportConfig \<Rightarrow> GRPCTransport" where
  "NewGRPCTransport addr has_ready has_mode cfg =
     \<lparr>gt_addr = (if addr = [] then '':9090'' else addr), gt_lis = False, gt_srv = False, gt_rate = False, gt_admin = False,
      gt_ready = has_ready, gt_mode = has_mode,
      gt_cfg = (if gc_KeepAlive cfg \<le> 0 then cfg\<lparr>gc_KeepAlive := 60 * Second\<rparr> else cfg)\<rparr>"

definition GRPC_ServeRateLimit :: "bool \<Rightarrow> GRPCTransport \<Rightarrow> go_error + GRPCTransport" where
  "GRPC_ServeRateLimit service t =
     (if \<not> service then Inl (ErrorString ''rate limit service is required'') else Inr (t\<lparr>gt_rate := True\<rparr>))"

definition GRPC_ServeAdmin :: "bool \<Rightarrow> GRPCTransport \<Rightarrow> go_error + GRPCTransport" where
  "GRPC_ServeAdmin service t =
     (if \<not> service then Inl (ErrorString ''admin service is required'') else Inr (t\<lparr>gt_admin := True\<rparr>))"

definition SetListener :: "bool \<Rightarrow> GRPCTransport option \<Rightarrow> GRPCTransport option" where
  "SetListener listener t_ptr = map_option (\<lambda>t. t\<lparr>gt_lis := listener\<rparr>) t_ptr"

text \<open>The results of \<^verbatim>\<open>net.Listen\<close> and of \<^verbatim>\<open>Serve\<close> (\<^term>\<open>None\<close> for a server that was stopped) are arguments.\<close>

definition GRPC_Start ::
    "(string \<Rightarrow> go_error option) \<Rightarrow> go_error option \<Rightarrow> GRPCTransport option \<Rightarrow> go_error option \<times> GRPCTransport option" where
  "GRPC_Start listen served t_ptr =
     (case t_ptr of
        None \<Rightarrow> (Some (ErrorString ''grpc transport is nil''), None)
      | Some t \<Rightarrow>
          if \<not> gt_rate t \<or> \<not> gt_admin t
          then (Some (ErrorString ''services must be registered before starting''), Some t)
          else (case (if gt_lis t then None else listen (gt_addr t)) of
                  Some err \<Rightarrow> (Some err, Some t)
                | None \<Rightarrow> (served, Some (t\<lparr>gt_lis := True, gt_srv := True\<rparr>))))"

text \<open>Whether the graceful stop ends before the context is done is an argument, with the error of the context.\<close>

definition GRPC_Shutdown :: "bool \<Rightarrow> go_error \<Rightarrow> GRPCTransport option \<Rightarrow> go_error option" where
  "GRPC_Shutdown stopped ctx_err t_ptr =
     (case t_ptr of
        None \<Rightarrow> Some (ErrorString ''grpc transport is nil'')
      | Some t \<Rightarrow> if \<not> gt_srv t then None else if stopped then None else Some ctx_err)"

section \<open>Interceptors\<close>

record grpc_env =
  ge_now :: time
  ge_start :: time
  ge_end :: time
  ge_call_start :: time
  ge_call_end :: time
  ge_metadata :: "string list option"

record grpc_log =
  gg_level :: log_level
  gg_msg :: string
  gg_method :: string
  gg_request_id :: string
  gg_duration_ms :: int64
  gg_error :: "string option"

fun code_String :: "grpc_code \<Rightarrow> string" where
  "code_String InvalidArgument = ''InvalidArgument''"
| "code_String NotFound = ''NotFound''"
| "code_String FailedPrecondition = ''FailedPrecondition''"
| "code_String Unauthenticated = ''Unauthenticated''"
| "code_String PermissionDenied = ''PermissionDenied''"
| "code_String Internal = ''Internal''"

fun status_Error :: "grpc_status \<Rightarrow> string" where
  "status_Error (code, msg) = ''rpc error: code = '' @ code_String code @ '' desc = '' @ msg"

definition grpcRequestIDInterceptor ::
    "bool \<Rightarrow> grpc_env \<Rightarrow> string \<Rightarrow> ('s \<Rightarrow> 's answered) \<Rightarrow> 's \<Rightarrow> ((grpc_status + grpc_message) \<times> grpc_log list \<times> 's) option" where
  "grpcRequestIDInterceptor logger env full handler st =
     (case handler st of
        None \<Rightarrow> None
      | Some (res, st1) \<Rightarrow>
          Some (res, if \<not> logger then [] else
            [\<lparr>gg_level = (if isl res then LogError else LogInfo),
              gg_msg = (if isl res then ''grpc request error'' else ''grpc request''), gg_method = full,
              gg_request_id = FormatInt (UnixNano (ge_now env)),
              gg_duration_ms = Milliseconds (time_Sub (ge_end env) (ge_start env)),
              gg_error = (case res of Inl s \<Rightarrow> Some (status_Error s) | Inr m \<Rightarrow> None)\<rparr>], st1))"

definition admin_prefix :: string where
  "admin_prefix = ''/ratelimit.v1.AdminService/''"

definition grpcAuthInterceptor ::
    "bool \<Rightarrow> string \<Rightarrow> grpc_env \<Rightarrow> string \<Rightarrow> ('s \<Rightarrow> 's answered) \<Rightarrow> 's \<Rightarrow> 's answered" where
  "grpcAuthInterceptor enableAuth adminToken env full handler st =
     (if \<not> enableAuth then handler st
      else if take (length admin_prefix) full \<noteq> admin_prefix then handler st
      else case ge_metadata env of
             None \<Rightarrow> Some (Inl (Unauthenticated, ''unauthorized''), st)
           | Some authorizations \<Rightarrow>
               if authorizations = [] \<or> hd authorizations \<noteq> ''Bearer '' @ adminToken
               then Some (Inl (Unauthenticated, ''unauthorized''), st)
               else handler st)"

text \<open>\<^verbatim>\<open>path.Base\<close>.\<close>

definition path_Base :: "string \<Rightarrow> string" where
  "path_Base p =
     (if p = [] then ''.''
      else let last_part = rev (takeWhile (\<lambda>c. c \<noteq> CHR ''/'') (dropWhile (\<lambda>c. c = CHR ''/'') (rev p)))
           in if last_part = [] then ''/'' else last_part)"

definition grpcMethodName :: "string \<Rightarrow> string" where
  "grpcMethodName fullMethod = (if fullMethod = [] then ''unknown'' else path_Base fullMethod)"

fun grpcTraceID :: "grpc_call \<Rightarrow> string" where
  "grpcTraceID (RpcCheckLimit req) = (case req of None \<Rightarrow> [] | Some m \<Rightarrow> gk_TraceId m)"
| "grpcTraceID (RpcCheckLimitBatch req) =
     (case find (\<lambda>item. item \<noteq> None \<and> gk_TraceId (the item) \<noteq> []) (case req of None \<Rightarrow> [] | Some items \<Rightarrow> items) of
        Some (Some item) \<Rightarrow> gk_TraceId item
      | _ \<Rightarrow> [])"
| "grpcTraceID call = []"

definition recordGRPCResult :: "InMemoryMetrics option \<Rightarrow> string \<Rightarrow> grpc_status option \<Rightarrow> InMemoryMetrics option" where
  "recordGRPCResult metrics method err =
     (if metrics = None \<or> method = [] then metrics
      else IncCounter metrics (''grpc|'' @ method @ ''|'' @ (case err of None \<Rightarrow> ''success'' | Some (code, msg) \<Rightarrow> ToLower (code_String code))))"

definition grpcTracingMetricsInterceptor ::
    "'s services \<Rightarrow> GRPCTransportConfig \<Rightarrow> grpc_env \<Rightarrow> grpc_call \<Rightarrow> ('s \<Rightarrow> 's answered) \<Rightarrow> 's \<Rightarrow> 's answered" where
  "grpcTracingMetricsInterceptor sv cfg env call handler st =
     (let method = grpcMethodName (FullMethod call);
          sampled = (if gc_Tracer cfg then (case gc_Sampler cfg of None \<Rightarrow> Some False | Some s \<Rightarrow> Sampled s (grpcTraceID call))
                     else Some False)
      in if sampled = None then None
         else case handler st of
                None \<Rightarrow> None
              | Some (res, st1) \<Rightarrow>
                  Some (res,
                    if gc_Metrics cfg
                    then let m1 = ObserveLatency (sv_metrics sv st1) method (time_Sub (ge_call_end env) (ge_call_start env))
                                    (label_of_region (gc_Region cfg));
                             m2 = recordGRPCResult m1 method (case res of Inl s \<Rightarrow> Some s | Inr m \<Rightarrow> None)
                         in sv_set_metrics sv m2 st1
                    else st1))"

text \<open>The methods as the generated code dispatches them to the servers that \<^verbatim>\<open>Start\<close> registers.\<close>

fun grpc_method :: "'s services \<Rightarrow> GRPCTransport \<Rightarrow> grpc_call \<Rightarrow> 's \<Rightarrow> 's answered" where
  "grpc_method sv t (RpcCheckLimit req) = Server_CheckLimit sv (gt_rate t) req"
| "grpc_method sv t (RpcCheckLimitBatch req) = Server_CheckLimitBatch sv (gt_rate t) req"
| "grpc_method sv t (RpcCreateRule req) = Server_CreateRule sv (gt_admin t) req"
| "grpc_method sv t (RpcUpdateRule req) = Server_UpdateRule sv (gt_admin t) req"
| "grpc_method sv t (RpcDeleteRule req) = Server_DeleteRule sv (gt_admin t) req"
| "grpc_method sv t (RpcGetRule req) = Server_GetRule sv (gt_admin t) req"
| "grpc_method sv t (RpcListRules req) = Server_ListRules sv (gt_admin t) req"
| "grpc_method sv t RpcHealth = Server_Health"
| "grpc_method sv t RpcReady = Server_Ready sv (gt_ready t)"
| "grpc_method sv t RpcMode = Server_Mode sv (gt_mode t)"

definition serve_grpc ::
    "grpc_env \<Rightarrow> 's services \<Rightarrow> GRPCTransport \<Rightarrow> grpc_call \<Rightarrow> 's \<Rightarrow> ((grpc_status + grpc_message) \<times> grpc_log list \<times> 's) option" where
  "serve_grpc env sv t call =
     grpcRequestIDInterceptor (gc_Logger (gt_cfg t)) env (FullMethod call)
       (grpcAuthInterceptor (gc_EnableAuth (gt_cfg t)) (gc_AdminToken (gt_cfg t)) env (FullMethod call)
         (grpcTracingMetricsInterceptor sv (gt_cfg t) env call (grpc_method sv t call)))"

section \<open>What a call can change\<close>

definition grpc_write :: "GRPCTransport \<Rightarrow> grpc_env \<Rightarrow> grpc_call \<Rightarrow> bool" where
  "grpc_write t env call \<longleftrightarrow>
     (case call of RpcCreateRule req \<Rightarrow> True | RpcUpdateRule req \<Rightarrow> True | RpcDeleteRule req \<Rightarrow> True | _ \<Rightarrow> False)
     \<and> (gc_EnableAuth (gt_cfg t) \<longrightarrow>
          (\<exists>rest. ge_metadata env = Some ((''Bearer '' @ gc_AdminToken (gt_cfg t)) # rest)))"

lemma with_message_keeps:
  assumes "with_message missing service req h st = Some (res, st')"
    and "\<And>m. h m st = Some (res, st') \<Longrightarrow> P st'" and "P st"
  shows "P st'"
  using assms by (auto simp: with_message_def split: option.splits if_splits)

lemma refused_keeps:
  assumes "grpcAuthInterceptor True token env full h st = Some (res, st')" "st' \<noteq> st"
    and "take (length admin_prefix) full = admin_prefix"
  shows "\<exists>rest. ge_metadata env = Some ((''Bearer '' @ token) # rest)"
proof (cases "ge_metadata env")
  case None
  then show ?thesis using assms by (simp add: grpcAuthInterceptor_def)
next
  case (Some vs)
  then show ?thesis using assms by (cases vs) (auto simp: grpcAuthInterceptor_def split: if_splits)
qed

lemma auth_handler:
  assumes "grpcAuthInterceptor enableAuth token env full h st = Some (res, st')" "st' \<noteq> st"
  shows "h st = Some (res, st')"
  using assms by (auto simp: grpcAuthInterceptor_def split: if_splits option.splits)

context admin_part
begin

lemma method_keeps:
  assumes "grpc_method sv t call st = Some (res, st')"
    and "case call of RpcCreateRule req \<Rightarrow> False | RpcUpdateRule req \<Rightarrow> False | RpcDeleteRule req \<Rightarrow> False | _ \<Rightarrow> True"
  shows "adm st' = adm st"
proof (cases call)
  case (RpcCheckLimit req)
  with assms(1) show ?thesis
    by (auto simp: Server_CheckLimit_def Let_def elim!: with_message_keeps [where P = "\<lambda>s. adm s = adm st"]
        split: option.splits sum.splits if_splits) (blast dest: check_keeps)+
next
  case (RpcCheckLimitBatch req)
  with assms(1) show ?thesis
    by (auto simp: Server_CheckLimitBatch_def Let_def elim!: with_message_keeps [where P = "\<lambda>s. adm s = adm st"]
        split: option.splits sum.splits if_splits) (blast dest: batch_keeps)+
qed (use assms in \<open>auto simp: Server_GetRule_def Server_ListRules_def Server_Health_def Server_Ready_def Server_Mode_def
  elim!: with_message_keeps [where P = "\<lambda>s. adm s = adm st"] split: sum.splits if_splits\<close>)

lemma metrics_interceptor_keeps:
  assumes "grpcTracingMetricsInterceptor sv cfg env call h st = Some (res, st')"
  shows "\<exists>st1. h st = Some (res, st1) \<and> adm st' = adm st1"
  using assms by (auto simp: grpcTracingMetricsInterceptor_def Let_def metrics_keep split: option.splits if_splits)

lemma grpc_writes_authorized:
  assumes "serve_grpc env sv t call st = Some (res, logs, st')" "adm st' \<noteq> adm st"
  shows "grpc_write t env call"
proof -
  let ?h = "grpcTracingMetricsInterceptor sv (gt_cfg t) env call (grpc_method sv t call)"
  from assms have a: "grpcAuthInterceptor (gc_EnableAuth (gt_cfg t)) (gc_AdminToken (gt_cfg t)) env (FullMethod call) ?h st
      = Some (res, st')"
    by (auto simp: serve_grpc_def grpcRequestIDInterceptor_def split: option.splits)
  have "st' \<noteq> st" using assms(2) by blast
  from metrics_interceptor_keeps [OF auth_handler [OF a this]] obtain st1
    where m: "grpc_method sv t call st = Some (res, st1)" "adm st' = adm st1" by blast
  with assms(2) method_keeps [OF m(1)] have w: "case call of RpcCreateRule req \<Rightarrow> True | RpcUpdateRule req \<Rightarrow> True
      | RpcDeleteRule req \<Rightarrow> True | _ \<Rightarrow> False"
    by (auto split: grpc_call.splits)
  then have "take (length admin_prefix) (FullMethod call) = admin_prefix" by (auto simp: admin_prefix_def split: grpc_call.splits)
  with w a \<open>st' \<noteq> st\<close> show ?thesis unfolding grpc_write_def by (metis (full_types) refused_keeps)
qed

end

section \<open>Windows\<close>

text \<open>A window given in milliseconds is reported in the same milliseconds, as long as it is one of a \<^verbatim>\<open>time.Duration\<close>;
  a longer one wraps around.\<close>

lemma grpc_window_roundtrip:
  assumes "in_int64 (gr_WindowMs m * Millisecond)" "ru_Window rule = cq_Window (core_create m)"
  shows "gl_WindowMs (toGRPCRule (Some rule)) = gr_WindowMs m"
proof -
  have w: "wrap64 (gr_WindowMs m * Millisecond) = gr_WindowMs m * Millisecond" using assms(1) by simp
  have "Milliseconds (gr_WindowMs m * Millisecond) = gr_WindowMs m"
    using quot64_pos [OF assms(1), of Millisecond]
    by (cases "0 \<le> gr_WindowMs m") (simp_all add: Milliseconds_def Millisecond_def sgn_if abs_mult)
  then show ?thesis using assms(2) w by (simp add: toGRPCRule_def core_create_def Let_def)
qed

lemma grpc_window_wraps:
  "cq_Window (core_create \<lparr>gr_TenantId = ''t'', gr_Resource = ''r'', gr_Algorithm = ''fixed_window'', gr_Limit = 1,
     gr_WindowMs = 9223372036855, gr_BurstSize = 0, gr_IdempotencyKey = []\<rparr>) < 0"
  by (simp add: core_create_def Millisecond_def wrap64_def)

section \<open>The two transports\<close>

text \<open>The message with the fields of an HTTP request, and when an HTTP reply says what a gRPC answer says: durations are
  whole milliseconds in the latter, and an error that is not the caller's is a status in the one and a code in the other.\<close>

definition grpc_of_http :: "HTTPCheckRequest \<Rightarrow> grpc_check" where
  "grpc_of_http q = \<lparr>gk_TraceId = hq_TraceID q, gk_TenantId = hq_TenantID q, gk_UserId = hq_UserID q,
     gk_Resource = hq_Resource q, gk_Cost = hq_Cost q\<rparr>"

fun same_answer :: "http_reply \<Rightarrow> grpc_status + grpc_message \<Rightarrow> bool" where
  "same_answer reply (Inl (code, msg)) \<longleftrightarrow> code = InvalidArgument \<and> hr_Status reply = 400 \<and> hr_Body reply = ErrorBody msg"
| "same_answer reply (Inr (MsgCheck p)) \<longleftrightarrow>
     hr_Status reply = 200 \<and> (\<exists>resp. hr_Body reply = CheckBody (fromCheckLimitResponse (Some resp))
       \<and> p = toGRPCCheckLimitResponse (Some resp))
     \<or> hr_Status reply = 500 \<and> gp_Allowed p = False \<and> (\<exists>msg err. hr_Body reply = ErrorBody msg \<and> msg = Error_message err
       \<and> gp_ErrorCode p = grpcErrorCode (CodeOf (Some err)))"
| "same_answer reply _ \<longleftrightarrow> False"

lemma same_core: "core_check (grpc_of_http q) = toCheckLimitRequest q"
  by (simp add: core_check_def grpc_of_http_def toCheckLimitRequest_def)

lemma answers_error:
  "same_answer (writeError t r (check_status err) err)
     (if CodeOf (Some err) = Some CodeInvalidInput \<or> CodeOf (Some err) = Some CodeInvalidCost
      then Inl (InvalidArgument, Error_message err)
      else Inr (MsgCheck ((toGRPCCheckLimitResponse None)\<lparr>gp_ErrorCode := grpcErrorCode (CodeOf (Some err))\<rparr>)))"
  by (auto simp: writeError_def writeJSON_def check_status_def toGRPCCheckLimitResponse_def)

lemma answers_response:
  "same_answer (writeJSON 200 (CheckBody (fromCheckLimitResponse (Some resp)))) (Inr (MsgCheck (toGRPCCheckLimitResponse (Some resp))))"
  unfolding same_answer.simps by (intro disjI1 conjI exI [of _ resp]) (simp_all add: writeJSON_def)


end
