(* ===== verification/App.thy ===== *)
theory App
  imports Handler_Batch Convergence Grpc
begin

text \<open>
  The application: \<^verbatim>\<open>app/app.go\<close>. \<^verbatim>\<open>NewApplication\<close> checks and completes the configuration and wires the components;
  \<^verbatim>\<open>Start\<close> fills the rule cache and starts the goroutines; \<^verbatim>\<open>Shutdown\<close> drains. An object that several components point
  to is kept once in the record of the application, and a component that uses it is seen with it. The objects that a
  configuration brings with it are those of the in-memory packages; a new object has the address \<open>0\<close>.
\<close>

section \<open>The configuration\<close>

definition check_config :: "Config \<Rightarrow> go_error option" where
  "check_config cfg =
     (if cf_Region cfg = [] then Some (ErrorString ''region is required'')
      else if cf_DegradeRequireRegionQuorum cfg \<and> (cf_RegionQuorumFraction cfg \<le> 0 \<or> cf_RegionQuorumFraction cfg > 1)
      then Some (ErrorString ''region quorum fraction must be between 0 and 1'')
      else if cf_EnableHTTP cfg \<and> cf_HTTPListenAddr cfg = [] then Some (ErrorString ''http listen address is required'')
      else if cf_EnableGRPC cfg \<and> cf_GRPCListenAddr cfg = [] then Some (ErrorString ''grpc listen address is required'')
      else if cf_EnableAuth cfg \<and> cf_AdminToken cfg = [] then Some (ErrorString ''admin token is required'')
      else if cf_HTTPReadTimeout cfg < 0 then Some (ErrorString ''http read timeout must be positive'')
      else if cf_HTTPWriteTimeout cfg < 0 then Some (ErrorString ''http write timeout must be positive'')
      else if cf_HTTPIdleTimeout cfg < 0 then Some (ErrorString ''http idle timeout must be positive'')
      else if cf_GRPCKeepAlive cfg < 0 then Some (ErrorString ''grpc keep alive must be positive'')
      else if cf_RequestTimeout cfg < 0 then Some (ErrorString ''request timeout must be positive'')
      else if cf_DrainTimeout cfg < 0 then Some (ErrorString ''drain timeout must be positive'')
      else None)"

definition if_zero :: "'a::zero \<Rightarrow> 'a \<Rightarrow> 'a" where
  "if_zero v d = (if v = 0 then d else v)"

definition if_empty :: "string \<Rightarrow> string \<Rightarrow> string" where
  "if_empty s d = (if s = [] then d else s)"

definition if_nil :: "nat option \<Rightarrow> nat option" where
  "if_nil p = (if p = None then Some 0 else p)"

definition default_breaker :: "CircuitOptions \<Rightarrow> CircuitOptions" where
  "default_breaker o1 = o1\<lparr>co_FailureThreshold := if_zero (co_FailureThreshold o1) 10,
     co_OpenDuration := if_zero (co_OpenDuration o1) (200 * Millisecond),
     co_HalfOpenMaxCalls := if_zero (co_HalfOpenMaxCalls o1) 5\<rparr>"

definition default_policy :: "LimiterPolicy \<Rightarrow> LimiterPolicy" where
  "default_policy p = p\<lparr>po_Shards := if_zero (po_Shards p) 16, po_MaxEntriesShard := if_zero (po_MaxEntriesShard p) 1024,
     po_QuiesceWindow := if_zero (po_QuiesceWindow p) (50 * Millisecond),
     po_CloseTimeout := if_zero (po_CloseTimeout p) (2 * Second)\<rparr>"

definition no_fallback :: FallbackPolicy where
  "no_fallback = \<lparr>fp_LocalCapPerWindow = 0, fp_DenyWhenNotOwner = False, fp_EmergencyAllowSmallCap = False,
     fp_EmergencyCapPerWindow = 0\<rparr>"

definition default_fallback :: "FallbackPolicy \<Rightarrow> FallbackPolicy" where
  "default_fallback p = (if p = no_fallback then NormalizeFallbackPolicy p else p)"

definition default_thresholds :: "DegradeThresholds \<Rightarrow> DegradeThresholds" where
  "default_thresholds th = th\<lparr>dt_RedisUnhealthyFor := if_zero (dt_RedisUnhealthyFor th) (500 * Millisecond),
     dt_MembershipUnhealthy := if_zero (dt_MembershipUnhealthy th) (2 * Second)\<rparr>"

definition default_body :: "int64 \<Rightarrow> int64" where
  "default_body n = (if n \<le> 0 then 2 ^ 20 else n)"

definition with_defaults :: "Config \<Rightarrow> Config" where
  "with_defaults cfg = cfg\<lparr>
     cf_HTTPReadTimeout := if_zero (cf_HTTPReadTimeout cfg) (5 * Second),
     cf_HTTPWriteTimeout := if_zero (cf_HTTPWriteTimeout cfg) (10 * Second),
     cf_HTTPIdleTimeout := if_zero (cf_HTTPIdleTimeout cfg) (60 * Second),
     cf_GRPCListenAddr := if_empty (cf_GRPCListenAddr cfg) '':9090'',
     cf_GRPCKeepAlive := if_zero (cf_GRPCKeepAlive cfg) (60 * Second),
     cf_RequestTimeout := if_zero (cf_RequestTimeout cfg) (2 * Second),
     cf_DrainTimeout := if_zero (cf_DrainTimeout cfg) (5 * Second),
     cf_MaxBodyBytes := default_body (cf_MaxBodyBytes cfg),
     cf_Logger := if_nil (cf_Logger cfg),
     cf_RuleDB := if_nil (cf_RuleDB cfg),
     cf_Outbox := if_nil (cf_Outbox cfg),
     cf_PubSub := if_nil (cf_PubSub cfg),
     cf_Channel := if_empty (cf_Channel cfg) ''ratelimit_invalidation'',
     cf_TraceSampleRate := if_zero (cf_TraceSampleRate cfg) 100,
     cf_GlobalOwnershipFallback := True,
     cf_CoalesceEnabled := True,
     cf_CoalesceTTL := if_zero (cf_CoalesceTTL cfg) (10 * Millisecond),
     cf_CoalesceShards := if_zero (cf_CoalesceShards cfg) 64,
     cf_BreakerOptions := default_breaker (cf_BreakerOptions cfg),
     cf_CacheSyncInterval := if_zero (cf_CacheSyncInterval cfg) (200 * Millisecond),
     cf_HealthInterval := if_zero (cf_HealthInterval cfg) (100 * Millisecond),
     cf_LimiterPolicy := default_policy (cf_LimiterPolicy cfg),
     cf_FallbackPolicy := default_fallback (cf_FallbackPolicy cfg),
     cf_DegradeThresh := default_thresholds (cf_DegradeThresh cfg),
     cf_RegionGroup := if_empty (cf_RegionGroup cfg) (cf_Region cfg),
     cf_RegionInstanceWeight := if_zero (cf_RegionInstanceWeight cfg) 1,
     cf_RegionQuorumFraction := if_zero (cf_RegionQuorumFraction cfg) (1 / 2)\<rparr>"

section \<open>The application\<close>

text \<open>The objects behind the references of a configuration.\<close>

record dependencies =
  dp_Redis :: InMemoryRedis
  dp_RuleDB :: InMemoryRuleDB
  dp_Outbox :: InMemoryOutbox
  dp_PubSub :: "nat InMemoryPubSub"
  dp_Membership :: StaticMembership
  dp_Sampler :: HashSampler
  dp_Metrics :: InMemoryMetrics

datatype worker = PublishLoop | InvalidationLoop | SyncLoop | HealthTicks | HTTPServer | GRPCServer

text \<open>The cancel function of the goroutines' context is nil, or has been called or not.\<close>

record Application =
  ap_Config :: Config
  ap_RuleCache :: RuleCache
  ap_LimiterPool :: LimiterPool
  ap_LimiterFactory :: backend
  ap_membership :: StaticMembership
  ap_ownership :: RendezvousOwnership
  ap_RateLimitHandler :: RateLimitHandler
  ap_RuleDB :: InMemoryRuleDB
  ap_Outbox :: InMemoryOutbox
  ap_PubSub :: "nat InMemoryPubSub"
  ap_OutboxPublisher :: OutboxPublisher
  ap_CacheInvalidator :: CacheInvalidator
  ap_CacheSyncWorker :: CacheSyncWorker
  ap_HealthLoop :: HealthLoop
  ap_ready :: bool
  ap_httpTransport :: "HTTPTransport option"
  ap_grpcTransport :: "GRPCTransport option"
  ap_metrics :: InMemoryMetrics
  ap_cancel :: "bool option"
  ap_wg :: "worker list"
  ap_inflight :: InFlight
  ap_drainTimeout :: duration

definition new_http :: "Config \<Rightarrow> go_error + HTTPTransport option" where
  "new_http cfg =
     (if \<not> cf_EnableHTTP cfg then Inr None
      else case HTTP_ServeRateLimit True (NewHTTPTransport (cf_HTTPListenAddr cfg) True) of
             Inl err \<Rightarrow> Inl err
           | Inr t1 \<Rightarrow>
               (case HTTP_ServeAdmin True t1 of
                  Inl err \<Rightarrow> Inl err
                | Inr t2 \<Rightarrow> Inr (Configure \<lparr>hg_ReadTimeout = cf_HTTPReadTimeout cfg, hg_WriteTimeout = cf_HTTPWriteTimeout cfg,
                    hg_IdleTimeout = cf_HTTPIdleTimeout cfg, hg_MaxBodyBytes = cf_MaxBodyBytes cfg,
                    hg_EnableAuth = cf_EnableAuth cfg, hg_AdminToken = cf_AdminToken cfg, hg_Logger = cf_Logger cfg \<noteq> None,
                    hg_Metrics = True, hg_Region = cf_Region cfg, hg_Mode = True\<rparr> (Some t2))))"

definition new_grpc :: "Config \<Rightarrow> HashSampler \<Rightarrow> go_error + GRPCTransport option" where
  "new_grpc cfg sampler =
     (if \<not> cf_EnableGRPC cfg then Inr None
      else case GRPC_ServeRateLimit True (NewGRPCTransport (cf_GRPCListenAddr cfg) True True
                  \<lparr>gc_EnableAuth = cf_EnableAuth cfg, gc_AdminToken = cf_AdminToken cfg, gc_KeepAlive = cf_GRPCKeepAlive cfg,
                   gc_Tracer = True, gc_Sampler = Some sampler, gc_Metrics = True, gc_Region = cf_Region cfg,
                   gc_Logger = cf_Logger cfg \<noteq> None\<rparr>) of
             Inl err \<Rightarrow> Inl err
           | Inr t1 \<Rightarrow> map_sum id Some (GRPC_ServeAdmin True t1))"

text \<open>The wiring, for a configuration that was completed.\<close>

definition wire :: "time \<Rightarrow> dependencies \<Rightarrow> Config \<Rightarrow> HTTPTransport option \<Rightarrow> GRPCTransport option \<Rightarrow> HashSampler \<Rightarrow> Application" where
  "wire now deps cfg http grpc sampler =
     (let redis = (if cf_Redis cfg = None then NewInMemoryRedis else dp_Redis deps);
          given = (if cf_Membership cfg = None then NewSingleInstanceMembership ''local'' (cf_Region cfg) else dp_Membership deps);
          membership = the (SetSelfWeight (Some given) (cf_RegionInstanceWeight cfg));
          rules = NewRuleCache;
          degrade = SetLogger (Some (NewDegradeController now (cf_DegradeThresh cfg) (cf_Region cfg)
                      (cf_DegradeRequireRegionQuorum cfg) (cf_RegionQuorumFraction cfg))) (cf_Logger cfg \<noteq> None);
          ownership = NewRendezvousOwnership (Some (static_view (Some membership))) (cf_Region cfg)
                        (cf_EnableGlobalOwnership cfg) (cf_GlobalOwnershipFallback cfg);
          fallback = NewFallbackLimiter (cf_Region cfg) (cf_RegionGroup cfg) (NormalizeFallbackPolicy (cf_FallbackPolicy cfg))
                       (Some \<lparr>ls_windows = []\<rparr>);
          breaker = NewCircuitBreaker (cf_BreakerOptions cfg);
          factory = \<lparr>be_redis = Some redis, be_fallback = Some fallback, be_mode = degrade, be_breaker = Some breaker\<rparr>;
          pool = NewLimiterPool (cf_LimiterPolicy cfg);
          keys = NewKeyBuilder (Some (NewByteBufferPool 4096));
          bp = NewBatchPlanner (Some NewIndexPool) (Some NewKeyPool) (Some NewCostPool);
          metrics = (if cf_Metrics cfg = None then NewInMemoryMetrics else dp_Metrics deps);
          coalescer = (if cf_CoalesceEnabled cfg then Some (NewCoalescer (cf_CoalesceShards cfg) (cf_CoalesceTTL cfg)) else None);
          inflight = NewInFlight;
          rate0 = NewRateLimitHandler (Some rules) (Some pool) (Some rules) (Some keys) (cf_Region cfg) (Some NewResponsePool)
                    (Some sampler) (Some metrics) coalescer;
          rate = SetRequestTimeout (SetInFlight (SetBatchPlanner (Some rate0) (Some bp)) (Some inflight)) (cf_RequestTimeout cfg)
      in \<lparr>ap_Config = cfg\<lparr>cf_Metrics := if_nil (cf_Metrics cfg)\<rparr>, ap_RuleCache = rules, ap_LimiterPool = pool,
          ap_LimiterFactory = factory, ap_membership = membership, ap_ownership = ownership, ap_RateLimitHandler = the rate,
          ap_RuleDB = dp_RuleDB deps, ap_Outbox = dp_Outbox deps, ap_PubSub = dp_PubSub deps,
          ap_OutboxPublisher = NewOutboxPublisher (cf_Outbox cfg) (cf_PubSub cfg) (cf_Channel cfg) 0,
          ap_CacheInvalidator = NewCacheInvalidator (cf_PubSub cfg) (cf_Channel cfg),
          ap_CacheSyncWorker = NewCacheSyncWorker (cf_RuleDB cfg) (Some 0) (cf_CacheSyncInterval cfg),
          ap_HealthLoop = NewHealthLoop (Some 0) (cf_HealthInterval cfg), ap_ready = False, ap_httpTransport = http,
          ap_grpcTransport = grpc, ap_metrics = metrics, ap_cancel = None, ap_wg = [], ap_inflight = inflight,
          ap_drainTimeout = cf_DrainTimeout cfg\<rparr>)"

text \<open>A store that the configuration does not bring is made by the defaults.\<close>

definition created_stores :: "Config \<Rightarrow> dependencies \<Rightarrow> dependencies" where
  "created_stores cfg deps = deps\<lparr>
     dp_RuleDB := (if cf_RuleDB cfg = None then NewInMemoryRuleDB else dp_RuleDB deps),
     dp_Outbox := (if cf_Outbox cfg = None then NewInMemoryOutbox else dp_Outbox deps),
     dp_PubSub := (if cf_PubSub cfg = None then NewInMemoryPubSub else dp_PubSub deps)\<rparr>"

definition NewApplication :: "time \<Rightarrow> dependencies \<Rightarrow> Config option \<Rightarrow> go_error + Application" where
  "NewApplication now deps cfg_ptr =
     (case cfg_ptr of
        None \<Rightarrow> Inl (ErrorString ''config is required'')
      | Some cfg0 \<Rightarrow>
          (case check_config cfg0 of
             Some err \<Rightarrow> Inl err
           | None \<Rightarrow>
               let cfg = with_defaults cfg0;
                   sampler = (if cf_Sampler cfg = None then NewHashSampler (cf_TraceSampleRate cfg) else dp_Sampler deps)
               in (case new_http cfg of
                     Inl err \<Rightarrow> Inl err
                   | Inr http \<Rightarrow>
                       (case new_grpc cfg sampler of
                          Inl err \<Rightarrow> Inl err
                        | Inr grpc \<Rightarrow> Inr (wire now (created_stores cfg0 deps) cfg http grpc sampler)))))"

section \<open>Services\<close>

text \<open>The handlers with the objects they share with the rest of the application.\<close>

definition rate_handler :: "Application \<Rightarrow> RateLimitHandler" where
  "rate_handler app = (ap_RateLimitHandler app)\<lparr>h_rules := Some (ap_RuleCache app), h_pool := Some (ap_LimiterPool app),
     h_pool_rules := Some (ap_RuleCache app), h_metrics := Some (ap_metrics app), h_inflight := Some (ap_inflight app)\<rparr>"

definition put_rate :: "RateLimitHandler \<Rightarrow> backend \<Rightarrow> Application \<Rightarrow> Application" where
  "put_rate h be app = app\<lparr>ap_RateLimitHandler := h, ap_LimiterFactory := be,
     ap_LimiterPool := (case h_pool h of None \<Rightarrow> ap_LimiterPool app | Some p \<Rightarrow> p),
     ap_metrics := (case h_metrics h of None \<Rightarrow> ap_metrics app | Some m \<Rightarrow> m),
     ap_inflight := (case h_inflight h of None \<Rightarrow> ap_inflight app | Some f \<Rightarrow> f)\<rparr>"

definition admin_handler :: "Application \<Rightarrow> AdminHandler" where
  "admin_handler app = NewAdminHandler (Some (ap_RuleDB app)) (Some (ap_RuleCache app)) (Some (ap_Outbox app))"

definition put_admin :: "AdminHandler option \<Rightarrow> Application \<Rightarrow> Application" where
  "put_admin h_ptr app =
     (case h_ptr of
        None \<Rightarrow> app
      | Some h \<Rightarrow> app\<lparr>ap_RuleDB := (case ah_db h of None \<Rightarrow> ap_RuleDB app | Some db \<Rightarrow> db),
          ap_RuleCache := (case ah_rules h of None \<Rightarrow> ap_RuleCache app | Some rc \<Rightarrow> rc),
          ap_Outbox := (case ah_outboxWriter h of None \<Rightarrow> ap_Outbox app | Some ob \<Rightarrow> ob)\<rparr>)"

definition app_surroundings :: "Application \<Rightarrow> surroundings" where
  "app_surroundings app = \<lparr>su_ownership = Some (IsOwner (Some (ap_ownership app))),
     su_mship = Some (static_view (Some (ap_membership app)))\<rparr>"

fun Ready :: "Application option \<Rightarrow> bool" where
  "Ready None = False"
| "Ready (Some app) = ap_ready app"

fun App_Mode :: "Application option \<Rightarrow> OperatingMode" where
  "App_Mode None = ModeNormal"
| "App_Mode (Some app) = (case be_mode (ap_LimiterFactory app) of None \<Rightarrow> ModeNormal | Some dc \<Rightarrow> Mode (Some dc))"

text \<open>What a request meets besides the application: clocks and the choices of the scheduler, for a check, for a batch, and
  for the administrative operations.\<close>

record weather =
  we_check :: req_env
  we_batch :: batch_env
  we_marshal :: marshaller
  we_sha256 :: "string \<Rightarrow> string"
  we_now :: time

definition app_services :: "weather \<Rightarrow> Application services" where
  "app_services w = \<lparr>
     sv_CheckLimit = (\<lambda>req app. map_option (\<lambda>(res, h, be). (res, put_rate (the h) be app))
       (CheckLimit ((we_check w)\<lparr>rv_su := app_surroundings app\<rparr>) (ap_LimiterFactory app) (Some (rate_handler app)) req)),
     sv_CheckLimitBatch = (\<lambda>reqs app. map_option (\<lambda>(res, h, be). (res, put_rate (the h) be app))
       (CheckLimitBatch ((we_batch w)\<lparr>bv_su := app_surroundings app\<rparr>) (ap_LimiterFactory app) (Some (rate_handler app)) reqs)),
     sv_CreateRule = (\<lambda>req app. map_prod id (\<lambda>h. put_admin h app)
       (CreateRule (we_marshal w) (we_sha256 w) (we_now w) (Some (admin_handler app)) req)),
     sv_UpdateRule = (\<lambda>req app. map_prod id (\<lambda>h. put_admin h app)
       (UpdateRule (we_marshal w) (we_now w) (Some (admin_handler app)) req)),
     sv_DeleteRule = (\<lambda>tenantID resource version app. map_prod id (\<lambda>h. put_admin h app)
       (DeleteRule (we_marshal w) (we_now w) (Some (admin_handler app)) tenantID resource version)),
     sv_GetRule = (\<lambda>tenantID resource app. GetRule (Some (admin_handler app)) tenantID resource),
     sv_ListRules = (\<lambda>tenantID app. ListRules (Some (admin_handler app)) tenantID),
     sv_Ready = (\<lambda>app. Ready (Some app)),
     sv_Mode = (\<lambda>app. App_Mode (Some app)),
     sv_metrics = (\<lambda>app. Some (ap_metrics app)),
     sv_set_metrics = (\<lambda>m app. app\<lparr>ap_metrics := (case m of None \<Rightarrow> ap_metrics app | Some m1 \<Rightarrow> m1)\<rparr>)\<rparr>"

section \<open>Start and shutdown\<close>

definition started_workers :: "Application \<Rightarrow> worker list" where
  "started_workers app = [PublishLoop, InvalidationLoop, SyncLoop, HealthTicks]
     @ (if ap_httpTransport app = None then [] else [HTTPServer]) @ (if ap_grpcTransport app = None then [] else [GRPCServer])"

definition Start :: "Application option \<Rightarrow> go_error option \<times> Application option" where
  "Start app_ptr =
     (case app_ptr of
        None \<Rightarrow> (Some (ErrorString ''application is nil''), None)
      | Some app0 \<Rightarrow>
          let app = app0\<lparr>ap_cancel := Some False\<rparr> in
          (case (if cf_RuleDB (ap_Config app) = None then Inr None else map_sum id Some (DB_LoadAll (ap_RuleDB app))) of
             Inl err \<Rightarrow> (Some err, Some app)
           | Inr loaded \<Rightarrow>
               (None, Some (app\<lparr>
                  ap_RuleCache := (case loaded of None \<Rightarrow> ap_RuleCache app
                                   | Some rules \<Rightarrow> RuleCache_ReplaceAll (ap_RuleCache app) (map Some rules)),
                  ap_wg := ap_wg app @ started_workers app,
                  ap_ready := True\<rparr>))))"

text \<open>
  \<^verbatim>\<open>Shutdown\<close>: the error with which the context of the drain ends, if it ends (it has a timeout when the drain timeout is
  positive), which of two ready channels a select takes, whether the goroutines end before the context does, and
  the error of the context. The transports' results are dropped. \<^term>\<open>None\<close> is a panic or a wait that never ends.
\<close>

definition Shutdown ::
    "go_error option \<Rightarrow> bool \<Rightarrow> bool \<Rightarrow> go_error \<Rightarrow> Application option \<Rightarrow> (go_error option \<times> Application option) option" where
  "Shutdown drain_end pick finished ctx_err app_ptr =
     (case app_ptr of
        None \<Rightarrow> Some (Some (ErrorString ''application is nil''), None)
      | Some app0 \<Rightarrow>
          (case InFlight_Close (Some (ap_inflight app0)) of
             None \<Rightarrow> None
           | Some drained \<Rightarrow>
               let app = app0\<lparr>ap_ready := False, ap_inflight := the drained\<rparr> in
               (case InFlight_Wait (Some (ap_inflight app)) drain_end pick of
                  None \<Rightarrow> None
                | Some drainErr \<Rightarrow>
                    let app1 = app\<lparr>ap_cancel := map_option (\<lambda>_. True) (ap_cancel app), ap_wg := (if finished then [] else ap_wg app)\<rparr> in
                    Some (if finished then drainErr else Some ctx_err, Some app1))))"

end
