(* ===== verification/Serving.thy ===== *)
theory Serving
  imports Handler_Batch
begin

text \<open>
  A handler that serves goes on serving: what a check leaves of the handler of \<^verbatim>\<open>core/handler.go\<close> is again ready for the
  next one.
\<close>

section \<open>What a check keeps\<close>

definition kept :: "RateLimitHandler \<Rightarrow> RateLimitHandler \<Rightarrow> bool" where
  "kept h h' \<longleftrightarrow> h_sampler h' = h_sampler h \<and> (h_keys h' = None \<longleftrightarrow> h_keys h = None)
     \<and> (h_respPool h' = None \<longleftrightarrow> h_respPool h = None) \<and> h_rules h' = h_rules h \<and> h_pool_rules h' = h_pool_rules h"

lemma kept_refl [simp]: "kept h h" and kept_trans: "kept h h1 \<Longrightarrow> kept h1 h2 \<Longrightarrow> kept h h2"
  by (auto simp: kept_def)

lemma kept_updates [simp]:
  "kept h (h1\<lparr>h_pool := p\<rparr>) = kept h h1" "kept h (h1\<lparr>h_inflight := f\<rparr>) = kept h h1" "kept h (h1\<lparr>h_coalescer := c\<rparr>) = kept h h1"
  "kept h (h1\<lparr>h_metrics := m\<rparr>) = kept h h1"
  by (simp_all add: kept_def)

lemma ResponsePool_Get_nil: "snd (ResponsePool_Get rp pick) = None \<longleftrightarrow> rp = None"
  by (cases rp) (simp_all add: ResponsePool_Get.simps case_prod_beta Let_def split: option.split)

lemma recordCheckMetrics_kept [simp]: "kept h (recordCheckMetrics h1 r a u) = kept h h1"
  by (simp add: recordCheckMetrics_def Let_def split: option.split)

lemma observe_latency_kept [simp]: "kept h (observe_latency op a b h1) = kept h h1"
  by (simp add: observe_latency_def)

lemma kept_pooled [simp]: "kept h (h\<lparr>h_respPool := snd (ResponsePool_Get (h_respPool h) pick)\<rparr>)"
  by (simp add: kept_def ResponsePool_Get_nil)

lemma error_response_kept: "kept h (snd (error_response env h code a u))"
  by (simp add: error_response_def Let_def case_prod_beta)

lemma conclude_kept: "kept h (snd (conclude env h a r))"
  by (cases r)
     (simp add: conclude_def error_response_kept decision_response_def Let_def case_prod_beta split: option.split)

lemma BuildKey_nil: "snd (BuildKey kb grow pick t u r) = None \<longleftrightarrow> kb = None"
  by (simp add: BuildKey_def Let_def case_prod_beta split: option.split)

lemma ReleaseKey_nil: "ReleaseKey kb b = None \<longleftrightarrow> kb = None"
  by (simp add: ReleaseKey_def split: option.split)

lemma decide_kept: "decide_pinned env be h req handle = Some (r, h1, be1) \<Longrightarrow> kept h h1"
  using BuildKey_nil [of "h_keys h"]
  by (auto simp: decide_pinned_def Let_def case_prod_beta kept_def ReleaseKey_nil split: option.splits)

text \<open>The three ways through the body of a check.\<close>

lemma check_body_cases:
  assumes "check_body env be h req = Some (resp, h', be')"
  obtains (no_rule) "(resp, h') = error_response env h ''RULE_NOT_FOUND'' [] False" "be' = be"
  | (no_limiter) rule :: Rule and err p1 f1 where
      "Acquire (h_pool_rules h) (Some be) (h_pool h) (cr_TenantID req) (cr_Resource req) = Some (Inl err, p1, f1)"
      "(resp, h') = error_response env (h\<lparr>h_pool := p1\<rparr>) ''LIMITER_UNAVAILABLE'' (ru_Algorithm rule) False" "be' = the f1"
  | (decided) rule :: Rule and handle rule1 p1 f1 r h1 h2 where
      "Acquire (h_pool_rules h) (Some be) (h_pool h) (cr_TenantID req) (cr_Resource req) = Some (Inr (handle, rule1), p1, f1)"
      "decide_pinned env (the f1) (h\<lparr>h_pool := p1\<rparr>) req handle = Some (r, h1, be')"
      "(resp, h2) = conclude env h1 (ru_Algorithm rule) r"
      "h' = h2\<lparr>h_pool := map_option (\<lambda>p. fst (LimiterHandle_Release p handle)) (h_pool h2)\<rparr>"
proof -
  from assms obtain smp where smp: "is_sampled h (cr_TraceID req) = Some smp" by (auto simp: check_body_def split: option.splits)
  show thesis
  proof (cases "RuleCache_Get (the (h_rules h)) (cr_TenantID req) (cr_Resource req)")
    case None
    with assms smp have "(resp, h') = error_response env h ''RULE_NOT_FOUND'' [] False \<and> be' = be"
      by (auto simp: check_body_def split: prod.splits)
    then show thesis using no_rule by blast
  next
    case (Some rule)
    with assms smp obtain res p1 f1 where
      acq: "Acquire (h_pool_rules h) (Some be) (h_pool h) (cr_TenantID req) (cr_Resource req) = Some (res, p1, f1)"
      by (auto simp: check_body_def simp del: Acquire.simps split: option.splits)
    show thesis
    proof (cases res)
      case (Inl err)
      with assms smp Some acq have "(resp, h') = error_response env (h\<lparr>h_pool := p1\<rparr>) ''LIMITER_UNAVAILABLE'' (ru_Algorithm rule) False
          \<and> be' = the f1"
        by (auto simp: check_body_def simp del: Acquire.simps split: prod.splits)
      then show thesis using no_limiter [of err p1 f1 rule] acq Inl by blast
    next
      case (Inr pr)
      then obtain handle rule1 where res: "res = Inr (handle, rule1)" by (cases pr) auto
      from assms smp Some acq res obtain r h1 where d: "decide_pinned env (the f1) (h\<lparr>h_pool := p1\<rparr>) req handle = Some (r, h1, be')"
        by (auto simp: check_body_def simp del: Acquire.simps split: option.splits prod.splits)
      obtain h2 where c: "(resp, h2) = conclude env h1 (ru_Algorithm rule) r"
        "h' = h2\<lparr>h_pool := map_option (\<lambda>p. fst (LimiterHandle_Release p handle)) (h_pool h2)\<rparr>"
        using assms smp Some acq res d by (auto simp: check_body_def simp del: Acquire.simps split: prod.splits)
      show thesis by (rule decided [OF acq [unfolded res] d c])
    qed
  qed
qed

lemma check_body_kept:
  assumes "check_body env be h req = Some (resp, h', be')"
  shows "kept h h'"
  using assms
proof (cases rule: check_body_cases)
  case no_rule
  then show ?thesis using error_response_kept by (metis snd_conv)
next
  case (no_limiter rule err p1 f1)
  have "kept (h\<lparr>h_pool := p1\<rparr>) h'" using no_limiter(2) error_response_kept by (metis snd_conv)
  then show ?thesis by (simp add: kept_def)
next
  case (decided rule handle rule1 p1 f1 r h1 h2)
  have "kept h1 h2" using decided(3) conclude_kept by (metis snd_conv)
  then have "kept (h\<lparr>h_pool := p1\<rparr>) h2" using decide_kept [OF decided(2)] kept_trans by blast
  then show ?thesis unfolding decided(4) by (simp add: kept_def)
qed

section \<open>The backend\<close>

lemma Allow_keeps_fallback:
  assumes "be_fallback be = Some fl"
  shows "be_fallback (snd (redisLimiter_Allow su ck be (Some rl) key cost)) \<noteq> None"
proof -
  obtain d e be' where r: "redisLimiter_Allow su ck be (Some rl) key cost = ((d, e), be')" by (metis prod.collapse)
  from Allow_outcome [OF assms r] obtain dec where
    "from_store ck be rl key cost dec be' \<or> from_fallback su ck be rl key cost dec be'" by blast
  then show ?thesis
  proof
    assume "from_store ck be rl key cost dec be'"
    with r assms show ?thesis by (auto simp: from_store_def simp del: redisLimiter_Allow.simps)
  next
    assume "from_fallback su ck be rl key cost dec be'"
    with r assms Fallback_keeps [of "su_ownership su" "su_mship su" "be_mode be" "ck_fallback ck 0" fl key "rl_params rl" cost]
    show ?thesis by (auto simp: from_fallback_def simp del: redisLimiter_Allow.simps)
  qed
qed

lemma decide_fallback:
  assumes "decide_pinned env be h req handle = Some (r, h1, be1)" "be_fallback be = Some fl"
    and cs: "\<forall>c. h_coalescer h = Some c \<longrightarrow> int (length (cl_shards c)) < 2 ^ 32"
  shows "be_fallback be1 \<noteq> None"
proof -
  let ?key = "fst (BuildKey (h_keys h) (rv_grow env) (rv_key_pick env) (cr_TenantID req) (cr_UserID req) (cr_Resource req))"
  let ?fn = "\<lambda>be. redisLimiter_Allow (rv_su env) (rv_clocks env) be (Some (lh_lim handle)) (bs_data ?key) (cr_Cost req)"
  from Do_total [OF cs, of "rv_co_now env" "rv_co_created env" "rv_await env" "KeyToString ?key @ [sep] @ FormatInt (cr_Cost req)" ?fn be]
  obtain r' p' s' where d: "Do (rv_co_now env) (rv_co_created env) (rv_await env) (h_coalescer h)
      (KeyToString ?key @ [sep] @ FormatInt (cr_Cost req)) ?fn be = Some (r', p', s')" "?fn be = (r', s') \<or> s' = be" by blast
  have "be1 = s'" using assms(1) d(1) by (simp add: decide_pinned_def Let_def case_prod_beta del: redisLimiter_Allow.simps)
  with d(2) Allow_keeps_fallback [OF assms(2), of "rv_su env" "rv_clocks env" "lh_lim handle" "bs_data ?key" "cr_Cost req"] assms(2)
  show ?thesis by (auto simp del: redisLimiter_Allow.simps)
qed

lemma check_body_fallback:
  assumes "check_body env be h req = Some (resp, h', be')" "be_fallback be \<noteq> None" "small_counts h"
  shows "be_fallback be' \<noteq> None"
  using assms(1)
proof (cases rule: check_body_cases)
  case no_rule
  with assms(2) show ?thesis by simp
next
  case (no_limiter rule err p1 f1)
  with Acquire_backend [OF no_limiter(1)] assms(2) show ?thesis by auto
next
  case (decided rule handle rule1 p1 f1 r h1 h2)
  from Acquire_backend [OF decided(1)] assms(2) obtain fl where "be_fallback (the f1) = Some fl" by auto
  from decide_fallback [OF decided(2) this] show ?thesis using assms(3) by (simp add: small_counts_def)
qed

section \<open>Serving\<close>

definition equipped :: "RateLimitHandler \<Rightarrow> backend \<Rightarrow> bool" where
  "equipped h be \<longleftrightarrow> ready (Some h) \<and> small_counts h \<and> be_fallback be \<noteq> None \<and> pool_ready False [] (h_pool h)"

lemma equipped_updates [simp]:
  "equipped (h\<lparr>h_inflight := f\<rparr>) be = equipped h be" "equipped (h\<lparr>h_metrics := m\<rparr>) be = equipped h be"
  "equipped (observe_latency op a b h) be = equipped h be"
  by (simp_all add: equipped_def ready_def small_counts_def observe_latency_def)

definition serving :: "RateLimitHandler \<Rightarrow> backend \<Rightarrow> bool" where
  "serving h be \<longleftrightarrow> equipped h be \<and> (\<exists>f. h_inflight h = Some f \<and> \<not> if_closed f \<and> slot_ok (Some f))"

lemma check_body_shards:
  assumes "check_body env be h req = Some (resp, h', be')" "pool_ready late live (h_pool h)"
  shows "length (lp_shards (the (h_pool h'))) = length (lp_shards (the (h_pool h)))"
  using assms(1)
proof (cases rule: check_body_cases)
  case no_rule
  with error_response_frame(2) [of env h] show ?thesis by (metis (no_types, lifting))
next
  case (no_limiter rule err p1 f1)
  have "h_pool h' = p1" using error_response_frame(2) [OF no_limiter(2) [symmetric]] by simp
  with acquire_error [OF assms(2) no_limiter(1)] show ?thesis by simp
next
  case (decided rule handle rule1 p1 f1 r h1 h2)
  from acquire_release [OF assms(2) decided(1)] obtain pool1 where "p1 = Some pool1"
    "length (lp_shards (fst (LimiterHandle_Release pool1 handle))) = length (lp_shards (the (h_pool h)))" by blast
  moreover have "h_pool h2 = p1" using conclude_frame(1) [OF decided(3) [symmetric]] decide_frame(1) [OF decided(2)] by simp
  ultimately show ?thesis by (simp add: decided(4))
qed

lemma check_body_equipped:
  assumes "equipped h be" "check_body env be h req = Some (resp, h', be')"
  shows "equipped h' be' \<and> h_inflight h' = h_inflight h \<and> kept h h'"
proof -
  have p: "pool_ready False [] (h_pool h)" and sc: "small_counts h" and fb: "be_fallback be \<noteq> None" and rd: "ready (Some h)"
    using assms(1) by (simp_all add: equipped_def)
  note F = check_body_frame [OF p assms(2)] and K = check_body_kept [OF assms(2)] and S = check_body_shards [OF assms(2) p]
  from p obtain pool where pool: "h_pool h = Some pool" by (auto simp: pool_ready_def)
  from F obtain pool' where pool': "h_pool h' = Some pool'" "lp_shards pool' \<noteq> []" by (auto simp: pool_ready_def)
  have "int (length (cl_shards c')) < 2 ^ 32" if "h_coalescer h' = Some c'" for c'
  proof -
    from F that obtain c where "h_coalescer h = Some c" "length (cl_shards c') = length (cl_shards c)"
      by (auto simp: no_new_entries_def)
    with sc show ?thesis by (simp add: small_counts_def)
  qed
  then have "small_counts h'" using sc K S pool pool' by (simp add: small_counts_def kept_def)
  moreover have "ready (Some h')" using rd K pool'(1) by (simp add: ready_def kept_def)
  ultimately show ?thesis using F K check_body_fallback [OF assms(2) fb sc] by (simp add: equipped_def)
qed

text \<open>A check, valid or not, leaves a serving handler serving.\<close>

lemma CheckLimit_serving:
  assumes "serving h be" "CheckLimit env be (Some h) req = Some (res, h', be')"
  shows "\<exists>h1. h' = Some h1 \<and> serving h1 be' \<and> kept h h1 \<and> h_inflight h1 = h_inflight h"
proof (cases "valid_request req")
  case (Some err)
  with assms show ?thesis by (auto simp: CheckLimit_def)
next
  case None
  from assms(1) obtain f where f: "h_inflight h = Some f" "\<not> if_closed f" "slot_ok (Some f)" by (auto simp: serving_def)
  have e: "equipped h be" and rd: "ready (Some h)" using assms(1) by (simp_all add: serving_def equipped_def)
  have b: "InFlight_Begin (Some f) = (True, Some (add_n 1 f))" using f(2) by (simp add: Let_def add_n_def)
  let ?h = "h\<lparr>h_inflight := Some (add_n 1 f)\<rparr>"
  have ei: "InFlight_End (Some (add_n 1 f)) = Some (Some f)" by (rule begin_end [OF f(3) b])
  from assms(2) None rd f b obtain resp h1 where c: "check_body env be ?h (the req) = Some (resp, h1, be')"
    by (auto simp: CheckLimit_def Let_def split: option.splits)
  from check_body_equipped [OF _ c] e have C: "equipped h1 be'" "h_inflight h1 = Some (add_n 1 f)" "kept ?h h1" by simp_all
  have "h' = Some ((observe_latency ''check'' (rv_start env) (rv_end env) h1)\<lparr>h_inflight := Some f\<rparr>)"
    using assms(2) None rd f b c C(2) ei by (simp add: CheckLimit_def Let_def)
  with C f show ?thesis by (simp add: serving_def kept_def observe_latency_def)
qed

lemma CheckLimit_serves:
  assumes "serving h be" "valid_request (Some req) = None"
  shows "\<exists>resp h' be'. CheckLimit env be (Some h) (Some req) = Some (Inr resp, Some h', be') \<and> serving h' be' \<and> kept h h'
     \<and> h_inflight h' = h_inflight h \<and> answers env be (h\<lparr>h_inflight := snd (InFlight_Begin (h_inflight h))\<rparr>) req resp be'"
proof -
  from assms(1) obtain f where f: "h_inflight h = Some f" "\<not> if_closed f" "slot_ok (Some f)" by (auto simp: serving_def)
  have e: "ready (Some h)" "small_counts h" "be_fallback be \<noteq> None" "pool_ready False [] (h_pool h)"
    using assms(1) by (simp_all add: serving_def equipped_def)
  from CheckLimit_answers [OF assms(2) e(1) f(1-3) e(2-4), of env] obtain resp h' be' where
    c: "CheckLimit env be (Some h) (Some req) = Some (Inr resp, Some h', be')"
    "answers env be (h\<lparr>h_inflight := snd (InFlight_Begin (Some f))\<rparr>) req resp be'" by blast
  from CheckLimit_serving [OF assms(1) c(1)] c f(1) show ?thesis by (auto simp del: InFlight_Begin.simps)
qed

end
