(* ===== verification/App_Props.thy ===== *)
theory App_Props
  imports App Serving
begin

text \<open>
  Properties of the application: which configurations it accepts and how it completes them, that a started application
  answers every check, that the rules change only through authorized requests, and what a shutdown guarantees.
\<close>

section \<open>The configuration\<close>

definition config_ok :: "Config \<Rightarrow> bool" where
  "config_ok cfg \<longleftrightarrow> check_config cfg = None
     \<and> 0 < cf_HTTPReadTimeout cfg \<and> 0 < cf_HTTPWriteTimeout cfg \<and> 0 < cf_HTTPIdleTimeout cfg \<and> 0 < cf_GRPCKeepAlive cfg
     \<and> 0 < cf_RequestTimeout cfg \<and> 0 < cf_DrainTimeout cfg \<and> 0 < cf_MaxBodyBytes cfg
     \<and> cf_GRPCListenAddr cfg \<noteq> [] \<and> cf_Channel cfg \<noteq> [] \<and> cf_RegionGroup cfg \<noteq> []
     \<and> cf_RuleDB cfg \<noteq> None \<and> cf_Outbox cfg \<noteq> None \<and> cf_PubSub cfg \<noteq> None \<and> cf_Logger cfg \<noteq> None \<and> cf_Metrics cfg \<noteq> None
     \<and> cf_TraceSampleRate cfg \<noteq> 0 \<and> cf_CoalesceTTL cfg \<noteq> 0 \<and> cf_CoalesceShards cfg \<noteq> 0
     \<and> cf_CacheSyncInterval cfg \<noteq> 0 \<and> cf_HealthInterval cfg \<noteq> 0 \<and> cf_RegionInstanceWeight cfg \<noteq> 0
     \<and> cf_RegionQuorumFraction cfg \<noteq> 0 \<and> cf_GlobalOwnershipFallback cfg \<and> cf_CoalesceEnabled cfg
     \<and> cf_FallbackPolicy cfg \<noteq> no_fallback"

lemma new_transports: "\<exists>http. new_http cfg = Inr http" "\<exists>grpc. new_grpc cfg sampler = Inr grpc"
  by (simp_all add: new_http_def new_grpc_def HTTP_ServeRateLimit_def HTTP_ServeAdmin_def GRPC_ServeRateLimit_def GRPC_ServeAdmin_def)

lemma wire_Config [simp]: "ap_Config (wire now deps cfg http grpc sampler) = cfg\<lparr>cf_Metrics := if_nil (cf_Metrics cfg)\<rparr>"
  by (simp add: wire_def Let_def)

lemma NewApplication_accepts:
  assumes "check_config cfg = None"
  shows "\<exists>http grpc sampler. NewApplication now deps (Some cfg)
     = Inr (wire now (created_stores cfg deps) (with_defaults cfg) http grpc sampler)
     \<and> new_http (with_defaults cfg) = Inr http \<and> new_grpc (with_defaults cfg) sampler = Inr grpc
     \<and> sampler = (if cf_Sampler cfg = None then NewHashSampler (cf_TraceSampleRate (with_defaults cfg)) else dp_Sampler deps)"
proof -
  let ?s = "if cf_Sampler cfg = None then NewHashSampler (cf_TraceSampleRate (with_defaults cfg)) else dp_Sampler deps"
  have "cf_Sampler (with_defaults cfg) = cf_Sampler cfg" by (simp add: with_defaults_def)
  with assms new_transports(1) [of "with_defaults cfg"] new_transports(2) [of "with_defaults cfg" ?s] show ?thesis
    by (auto simp: NewApplication_def Let_def split del: if_split)
qed

lemma NewApplication_rejects: "check_config cfg = Some err \<Longrightarrow> NewApplication now deps (Some cfg) = Inl err"
  by (simp add: NewApplication_def)

lemma NormalizeFallbackPolicy_nonzero: "NormalizeFallbackPolicy p \<noteq> no_fallback"
proof
  assume "NormalizeFallbackPolicy p = no_fallback"
  then have "fp_DenyWhenNotOwner (NormalizeFallbackPolicy p) = False" by (simp add: no_fallback_def)
  moreover have "fp_DenyWhenNotOwner (NormalizeFallbackPolicy p)" by (simp add: NormalizeFallbackPolicy_def Let_def)
  ultimately show False by simp
qed

lemma default_values:
  "if_zero (if_zero v d) d = if_zero v d" "if_empty (if_empty s e) e = if_empty s e" "if_nil (if_nil p) = if_nil p"
  "default_body (default_body n) = default_body n" "default_fallback (default_fallback fp) = default_fallback fp"
  "if_zero v d = 0 \<longleftrightarrow> v = 0 \<and> d = 0" "if_empty s e = [] \<longleftrightarrow> s = [] \<and> e = []" "if_nil p \<noteq> None" "0 < default_body n"
  "default_fallback fp \<noteq> no_fallback"
  by (simp_all add: if_zero_def if_empty_def if_nil_def default_body_def default_fallback_def NormalizeFallbackPolicy_nonzero)

lemma if_zero_sign: "0 \<le> v \<Longrightarrow> 0 < d \<Longrightarrow> 0 < if_zero v d" for v d :: int
  by (simp add: if_zero_def)

lemma if_zero_quorum: "\<not> (v \<le> 0 \<or> 1 < v) \<Longrightarrow> \<not> (if_zero v d \<le> 0 \<or> 1 < if_zero v d)" for v d :: float64
  by (simp add: if_zero_def)

lemma if_zero_neg: "v < 0 \<longleftrightarrow> if_zero v d < 0" if "0 < d" for v d :: int
  using that by (simp add: if_zero_def)

lemma default_groups:
  "default_breaker (default_breaker c) = default_breaker c" "default_policy (default_policy p) = default_policy p"
  "default_thresholds (default_thresholds th) = default_thresholds th"
  by (simp_all add: default_breaker_def default_policy_def default_thresholds_def default_values)

lemma defaults_idem: "with_defaults ((with_defaults cfg)\<lparr>cf_Metrics := m\<rparr>) = (with_defaults cfg)\<lparr>cf_Metrics := m\<rparr>"
  by (simp add: with_defaults_def default_values default_groups)

lemma checked:
  "check_config cfg = None \<longleftrightarrow> cf_Region cfg \<noteq> []
     \<and> (cf_DegradeRequireRegionQuorum cfg \<longrightarrow> \<not> (cf_RegionQuorumFraction cfg \<le> 0 \<or> 1 < cf_RegionQuorumFraction cfg))
     \<and> (cf_EnableHTTP cfg \<longrightarrow> cf_HTTPListenAddr cfg \<noteq> []) \<and> (cf_EnableGRPC cfg \<longrightarrow> cf_GRPCListenAddr cfg \<noteq> [])
     \<and> (cf_EnableAuth cfg \<longrightarrow> cf_AdminToken cfg \<noteq> [])
     \<and> 0 \<le> cf_HTTPReadTimeout cfg \<and> 0 \<le> cf_HTTPWriteTimeout cfg \<and> 0 \<le> cf_HTTPIdleTimeout cfg \<and> 0 \<le> cf_GRPCKeepAlive cfg
     \<and> 0 \<le> cf_RequestTimeout cfg \<and> 0 \<le> cf_DrainTimeout cfg"
  unfolding check_config_def by auto

lemma units: "0 < Second" "0 < Millisecond"
  by (simp_all add: Second_def Millisecond_def)

lemma defaults_ok:
  assumes "check_config cfg = None"
  shows "config_ok ((with_defaults cfg)\<lparr>cf_Metrics := if_nil m\<rparr>)"
  using assms unfolding config_ok_def checked
  by (simp add: with_defaults_def default_values if_zero_sign if_zero_quorum units less_imp_le units(2) [THEN less_imp_neq, symmetric])

text \<open>C5. An application is built exactly from the configurations that pass the checks; the configuration it works with is
  well-formed (the checks hold, timeouts and limits are positive, dependencies are set, defaults filled in), and building an
  application from that configuration again changes nothing in it.\<close>

theorem application_config:
  "case NewApplication now deps (Some cfg) of
     Inl err \<Rightarrow> check_config cfg = Some err
   | Inr app \<Rightarrow> check_config cfg = None \<and> config_ok (ap_Config app)
       \<and> (\<exists>app'. NewApplication now' deps' (Some (ap_Config app)) = Inr app' \<and> ap_Config app' = ap_Config app)"
proof (cases "check_config cfg")
  case None
  from NewApplication_accepts [OF None, of now deps] obtain app where app: "NewApplication now deps (Some cfg) = Inr app"
    "ap_Config app = (with_defaults cfg)\<lparr>cf_Metrics := if_nil (cf_Metrics (with_defaults cfg))\<rparr>" by auto
  have ok: "config_ok (ap_Config app)" unfolding app(2) by (rule defaults_ok [OF None])
  then have "check_config (ap_Config app) = None" by (simp add: config_ok_def)
  from NewApplication_accepts [OF this, of now' deps'] obtain app' where app': "NewApplication now' deps' (Some (ap_Config app)) = Inr app'"
    "ap_Config app' = (with_defaults (ap_Config app))\<lparr>cf_Metrics := if_nil (cf_Metrics (with_defaults (ap_Config app)))\<rparr>" by auto
  have "ap_Config app' = ap_Config app" unfolding app'(2) by (simp add: app(2) defaults_idem if_nil_def)
  with None app(1) ok app'(1) show ?thesis by auto
next
  case (Some err)
  with NewApplication_rejects show ?thesis by auto
qed

section \<open>Who can change the rules\<close>

text \<open>The part of the application that holds rules: the database, the cache, the outbox; and the transports.\<close>

definition rules_part ::
    "Application \<Rightarrow> InMemoryRuleDB \<times> RuleCache \<times> InMemoryOutbox \<times> HTTPTransport option \<times> GRPCTransport option" where
  "rules_part app = (ap_RuleDB app, ap_RuleCache app, ap_Outbox app, ap_httpTransport app, ap_grpcTransport app)"

interpretation app_part: admin_part "app_services w" rules_part for w
  by unfold_locales (auto simp: app_services_def rules_part_def put_rate_def)

text \<open>A request that reaches the application through one of its transports. A panic ends the request.\<close>

datatype app_request =
    ViaHTTP "http_request \<Rightarrow> http_reply" http_env weather http_request
  | ViaGRPC grpc_env weather grpc_call

fun app_serve :: "app_request \<Rightarrow> Application \<Rightarrow> Application" where
  "app_serve (ViaHTTP no_route env w r) app =
     (case ap_httpTransport app of
        None \<Rightarrow> app
      | Some t \<Rightarrow> (case serve_http no_route env (app_services w) t r app of None \<Rightarrow> app | Some (reply, app') \<Rightarrow> app'))"
| "app_serve (ViaGRPC env w call) app =
     (case ap_grpcTransport app of
        None \<Rightarrow> app
      | Some t \<Rightarrow> (case serve_grpc env (app_services w) t call app of None \<Rightarrow> app | Some (res, logs, app') \<Rightarrow> app'))"

fun carries_token :: "string \<Rightarrow> app_request \<Rightarrow> bool" where
  "carries_token token (ViaHTTP no_route env w r) \<longleftrightarrow> hx_Authorization r = ''Bearer '' @ token"
| "carries_token token (ViaGRPC env w call) \<longleftrightarrow> (\<exists>rest. ge_metadata env = Some ((''Bearer '' @ token) # rest))"

definition guarded :: "string \<Rightarrow> Application \<Rightarrow> bool" where
  "guarded token app \<longleftrightarrow> (\<forall>t. ap_httpTransport app = Some t \<longrightarrow> ht_enableAuth t \<and> ht_adminToken t = token)
     \<and> (\<forall>t. ap_grpcTransport app = Some t \<longrightarrow> gc_EnableAuth (gt_cfg t) \<and> gc_AdminToken (gt_cfg t) = token)"

lemma serve_guarded:
  assumes "guarded token app" "\<not> carries_token token rq"
  shows "rules_part (app_serve rq app) = rules_part app"
proof (rule ccontr)
  assume c: "rules_part (app_serve rq app) \<noteq> rules_part app"
  show False
  proof (cases rq)
    case (ViaHTTP no_route env w r)
    with c obtain t reply app' where t: "ap_httpTransport app = Some t"
      "serve_http no_route env (app_services w) t r app = Some (reply, app')" "rules_part app' \<noteq> rules_part app"
      by (auto split: option.splits)
    from app_part.http_writes_authorized [OF t(2,3)] assms t(1) ViaHTTP show ?thesis
      by (simp add: http_write_def guarded_def)
  next
    case (ViaGRPC env w call)
    with c obtain t res logs app' where t: "ap_grpcTransport app = Some t"
      "serve_grpc env (app_services w) t call app = Some (res, logs, app')" "rules_part app' \<noteq> rules_part app"
      by (auto split: option.splits)
    from app_part.grpc_writes_authorized [OF t(2,3)] assms t(1) ViaGRPC show ?thesis
      by (auto simp: grpc_write_def guarded_def)
  qed
qed

lemma run_guarded:
  assumes "guarded token app" "list_all (\<lambda>rq. \<not> carries_token token rq) rqs"
  shows "rules_part (fold app_serve rqs app) = rules_part app"
  using assms
proof (induction rqs arbitrary: app)
  case (Cons rq rqs)
  then have s: "rules_part (app_serve rq app) = rules_part app" by (simp add: serve_guarded)
  with Cons.prems(1) have "guarded token (app_serve rq app)" by (simp add: guarded_def rules_part_def)
  with Cons.IH [of "app_serve rq app"] Cons.prems(2) s show ?case by simp
qed simp

lemma wired_guard:
  assumes "NewApplication now deps (Some cfg) = Inr app" "cf_EnableAuth cfg"
  shows "guarded (cf_AdminToken cfg) app"
proof -
  have "check_config cfg = None" using assms(1) NewApplication_rejects [of cfg] by (cases "check_config cfg") auto
  from NewApplication_accepts [OF this, of now deps] assms(1) obtain http grpc sampler where
    app: "app = wire now (created_stores cfg deps) (with_defaults cfg) http grpc sampler"
    "new_http (with_defaults cfg) = Inr http" "new_grpc (with_defaults cfg) sampler = Inr grpc" by auto
  have d: "cf_EnableAuth (with_defaults cfg) = cf_EnableAuth cfg" "cf_AdminToken (with_defaults cfg) = cf_AdminToken cfg"
    by (simp_all add: with_defaults_def)
  have "ap_httpTransport app = http" "ap_grpcTransport app = grpc" by (simp_all add: app(1) wire_def Let_def)
  with app(2,3) d assms(2) show ?thesis
    by (auto simp: guarded_def new_http_def new_grpc_def HTTP_ServeRateLimit_def HTTP_ServeAdmin_def GRPC_ServeRateLimit_def
        GRPC_ServeAdmin_def Configure_def NewGRPCTransport_def split: if_splits)
qed

text \<open>C8. In an application built with authentication, no sequence of HTTP and gRPC requests that do not carry the
  administrator's token changes the rule database, the rule cache or the outbox.\<close>

theorem rules_need_token:
  assumes "NewApplication now deps (Some cfg) = Inr app" "cf_EnableAuth cfg"
    and "list_all (\<lambda>rq. \<not> carries_token (cf_AdminToken cfg) rq) rqs"
  shows "rules_part (fold app_serve rqs app) = rules_part app"
  by (rule run_guarded [OF wired_guard [OF assms(1,2)] assms(3)])

section \<open>A started application answers\<close>

definition app_serving :: "Application \<Rightarrow> bool" where
  "app_serving app \<longleftrightarrow> serving (rate_handler app) (ap_LimiterFactory app)"

lemma serving_metrics [simp]: "serving (h\<lparr>h_metrics := m\<rparr>) be = serving h be"
  by (simp add: serving_def)

lemma put_rate_view:
  assumes "kept (rate_handler app) h'" "serving h' be'"
  shows "rate_handler (put_rate h' be' app) = h'\<lparr>h_metrics := Some (ap_metrics (put_rate h' be' app))\<rparr>"
    "ap_LimiterFactory (put_rate h' be' app) = be'" "ap_RuleCache (put_rate h' be' app) = ap_RuleCache app"
proof -
  from assms(2) obtain p f where "h_pool h' = Some p" "h_inflight h' = Some f" by (auto simp: serving_def equipped_def pool_ready_def)
  moreover have "h_rules h' = Some (ap_RuleCache app)" "h_pool_rules h' = Some (ap_RuleCache app)"
    using assms(1) by (simp_all add: kept_def rate_handler_def)
  ultimately show "rate_handler (put_rate h' be' app) = h'\<lparr>h_metrics := Some (ap_metrics (put_rate h' be' app))\<rparr>"
    by (cases h') (simp add: rate_handler_def put_rate_def)
qed (simp_all add: put_rate_def)

lemma put_rate_serving:
  assumes "kept (rate_handler app) h'" "serving h' be'"
  shows "app_serving (put_rate h' be' app)"
  using put_rate_view(1,2) [OF assms] assms(2) by (simp add: app_serving_def)

text \<open>The answer of the application to a check, and that it goes on serving with the same rules.\<close>

lemma app_check:
  assumes "app_serving app"
  shows "\<exists>res app'. sv_CheckLimit (app_services w) req app = Some (res, app') \<and> app_serving app' \<and> ap_RuleCache app' = ap_RuleCache app
     \<and> (case req of None \<Rightarrow> isl res | Some q \<Rightarrow>
          if valid_request req = None then \<exists>resp. res = Inr resp
            \<and> answers ((we_check w)\<lparr>rv_su := app_surroundings app\<rparr>) (ap_LimiterFactory app)
                ((rate_handler app)\<lparr>h_inflight := snd (InFlight_Begin (Some (ap_inflight app)))\<rparr>) q resp (ap_LimiterFactory app')
          else isl res)"
proof (cases "valid_request req")
  case (Some err)
  then have "CheckLimit env be (Some (rate_handler app)) req = Some (Inl err, Some (rate_handler app), be)" for env be
    by (simp add: CheckLimit_def)
  moreover have "put_rate (rate_handler app) (ap_LimiterFactory app) app = app\<lparr>ap_RateLimitHandler := rate_handler app\<rparr>"
    by (cases app) (simp add: put_rate_def rate_handler_def)
  moreover have "rate_handler (app\<lparr>ap_RateLimitHandler := rate_handler app\<rparr>) = rate_handler app" by (simp add: rate_handler_def)
  ultimately show ?thesis using Some assms by (auto simp: app_services_def app_serving_def split: option.split)
next
  case None
  then obtain q where q: "req = Some q" by (cases req) (auto simp: valid_request_def)
  let ?env = "(we_check w)\<lparr>rv_su := app_surroundings app\<rparr>"
  have i: "h_inflight (rate_handler app) = Some (ap_inflight app)" by (simp add: rate_handler_def)
  from CheckLimit_serves [OF assms [unfolded app_serving_def], of q ?env] None q obtain resp h' be' where
    c: "CheckLimit ?env (ap_LimiterFactory app) (Some (rate_handler app)) req = Some (Inr resp, Some h', be')" "serving h' be'"
      "kept (rate_handler app) h'"
      "answers ?env (ap_LimiterFactory app) ((rate_handler app)\<lparr>h_inflight := snd (InFlight_Begin (Some (ap_inflight app)))\<rparr>) q resp be'"
    unfolding i by auto
  have "sv_CheckLimit (app_services w) req app = Some (Inr resp, put_rate h' be' app)" by (simp add: app_services_def c(1))
  with put_rate_view(2,3) [OF c(3,2)] put_rate_serving [OF c(3,2)] c(4) None q show ?thesis by auto
qed

lemma conclude_code: "rs_ErrorCode (fst (conclude env h a r)) \<in> {[], ''LIMITER_ERROR''}"
  by (cases r) (auto simp: conclude_def error_response_def decision_response_def fill_response_def Let_def case_prod_beta
      split: option.split)

lemma answers_code:
  assumes "answers env be h req resp be'"
  shows "rs_ErrorCode resp = ''RULE_NOT_FOUND'' \<longleftrightarrow> RuleCache_Get (the (h_rules h)) (cr_TenantID req) (cr_Resource req) = None"
proof (cases "RuleCache_Get (the (h_rules h)) (cr_TenantID req) (cr_Resource req)")
  case None
  with assms show ?thesis by (simp add: answers_def fail_resp_def)
next
  case (Some rule)
  let ?acq = "Acquire (h_pool_rules h) (Some be) (h_pool h) (cr_TenantID req) (cr_Resource req)"
  have "rs_ErrorCode resp \<noteq> ''RULE_NOT_FOUND''"
  proof (cases ?acq)
    case None
    with assms Some show ?thesis by (simp add: answers_def del: Acquire.simps)
  next
    case acq: (Some out)
    obtain res p1 f1 where out: "out = (res, p1, f1)" by (metis prod_cases3)
    show ?thesis
    proof (cases res)
      case (Inl err)
      with assms Some acq out show ?thesis by (cases f1) (auto simp: answers_def fail_resp_def simp del: Acquire.simps)
    next
      case (Inr pr)
      obtain handle rule1 where "pr = (handle, rule1)" by (cases pr)
      with assms Some acq out Inr obtain e where "(\<exists>d. resp = fill_response d zero_response)
          \<or> resp = fst (conclude env h (ru_Algorithm rule) (rv_await env e))"
        by (cases f1) (auto simp: answers_def simp del: Acquire.simps redisLimiter_Allow.simps)
      with conclude_code [of env h "ru_Algorithm rule" "rv_await env e"] show ?thesis by (auto simp: fill_response_def)
    qed
  qed
  with Some show ?thesis by simp
qed

definition small_config :: "Config \<Rightarrow> bool" where
  "small_config cfg \<longleftrightarrow> cf_Sampler cfg = None \<and> cf_TraceSampleRate cfg < 2 ^ 32 \<and> po_Shards (cf_LimiterPolicy cfg) < 2 ^ 32
     \<and> cf_CoalesceShards cfg < 2 ^ 32"

lemma shards_small:
  assumes "po_Shards p < 2 ^ 32"
  shows "0 < length (lp_shards (NewLimiterPool p))" "int (length (lp_shards (NewLimiterPool p))) < 2 ^ 32"
  using assms by (auto simp: NewLimiterPool_def Let_def)

lemma pool_started: "pool_ready False [] (Some (NewLimiterPool p))"
  using run_inv_start [of p] shards_small(1)
  by (auto simp: pool_ready_def run_inv_def pool_start_def max_int64_def NewLimiterPool_def Let_def)

lemma wire_serving:
  assumes "small_config cfg"
  shows "app_serving ((wire now deps (with_defaults cfg) http grpc (NewHashSampler (cf_TraceSampleRate (with_defaults cfg))))\<lparr>
    ap_RuleCache := rc, ap_cancel := c, ap_wg := wg, ap_ready := b\<rparr>)"
proof -
  have c: "po_Shards (cf_LimiterPolicy (with_defaults cfg)) < 2 ^ 32" "cf_CoalesceShards (with_defaults cfg) < 2 ^ 32"
    "cf_TraceSampleRate (with_defaults cfg) < 2 ^ 32" "cf_CoalesceEnabled (with_defaults cfg)"
    using assms by (simp_all add: small_config_def with_defaults_def default_policy_def if_zero_def)
  have co: "int (length (cl_shards (NewCoalescer n ttl))) < 2 ^ 32" if "n < 2 ^ 32" for n ttl
    using that by (simp add: NewCoalescer_def Let_def)
  show ?thesis
    using c shards_small [OF c(1)] pool_started [of "cf_LimiterPolicy (with_defaults cfg)"] co [OF c(2), of "cf_CoalesceTTL (with_defaults cfg)"]
    by (simp add: app_serving_def serving_def equipped_def ready_def small_counts_def rate_handler_def wire_def Let_def
        NewRateLimitHandler_def SetBatchPlanner_def SetInFlight_def SetRequestTimeout_def or_new_def slot_ok_def NewInFlight_def
        max_int64_def NewHashSampler_def)
qed

fun checks :: "(weather \<times> CheckLimitRequest option) list \<Rightarrow> Application
    \<Rightarrow> ((go_error + CheckLimitResponse) list \<times> Application) option" where
  "checks [] app = Some ([], app)"
| "checks ((w, req) # calls) app =
     (case sv_CheckLimit (app_services w) req app of
        None \<Rightarrow> None
      | Some (res, app1) \<Rightarrow> map_option (\<lambda>(rs, app2). (res # rs, app2)) (checks calls app1))"

definition answered :: "rule_map \<Rightarrow> CheckLimitRequest option \<Rightarrow> go_error + CheckLimitResponse \<Rightarrow> bool" where
  "answered rules req res \<longleftrightarrow>
     (case req of
        None \<Rightarrow> isl res
      | Some q \<Rightarrow>
          if valid_request req = None
          then \<exists>resp. res = Inr resp \<and> (rs_ErrorCode resp = ''RULE_NOT_FOUND'' \<longleftrightarrow> rules (cr_TenantID q, cr_Resource q) = None)
          else isl res)"

lemma checks_answered:
  assumes "app_serving app" "rc_abs (ap_RuleCache app) = rules"
  shows "\<exists>rs app2. checks calls app = Some (rs, app2) \<and> list_all2 (\<lambda>(w, req) res. answered rules req res) calls rs"
  using assms
proof (induction calls arbitrary: app)
  case (Cons call calls)
  obtain w req where call: "call = (w, req)" by (cases call)
  from app_check [OF Cons.prems(1), of w req] obtain res app1 where
    c: "sv_CheckLimit (app_services w) req app = Some (res, app1)" "app_serving app1" "ap_RuleCache app1 = ap_RuleCache app"
    and a: "case req of None \<Rightarrow> isl res | Some q \<Rightarrow>
          if valid_request req = None then \<exists>resp. res = Inr resp
            \<and> answers ((we_check w)\<lparr>rv_su := app_surroundings app\<rparr>) (ap_LimiterFactory app)
                ((rate_handler app)\<lparr>h_inflight := snd (InFlight_Begin (Some (ap_inflight app)))\<rparr>) q resp (ap_LimiterFactory app1)
          else isl res" by blast
  have "answered rules req res"
  proof (cases req)
    case None
    with a show ?thesis by (simp add: answered_def)
  next
    case (Some q)
    have "h_rules (rate_handler app) = Some (ap_RuleCache app)" by (simp add: rate_handler_def)
    with a Some Cons.prems(2) show ?thesis
      by (auto simp: answered_def rc_abs_def simp del: InFlight_Begin.simps dest!: answers_code split: if_splits)
  qed
  moreover from Cons.IH [OF c(2)] c(3) Cons.prems(2) obtain rs app2 where
    "checks calls app1 = Some (rs, app2)" "list_all2 (\<lambda>(w, req) res. answered rules req res) calls rs" by auto
  ultimately show ?case using call c(1) by simp
qed simp

lemma Start_loads:
  assumes "cf_RuleDB (ap_Config app) \<noteq> None"
  shows "Start (Some app) = (None, Some (app\<lparr>ap_RuleCache := CacheSyncWorker_tick (ap_RuleDB app) (ap_RuleCache app),
     ap_cancel := Some False, ap_wg := ap_wg app @ started_workers app, ap_ready := True\<rparr>))"
proof -
  obtain rules where "DB_LoadAll (ap_RuleDB app) = Inr rules"
    by (cases "DB_LoadAll (ap_RuleDB app)") (auto simp: DB_LoadAll_def split: if_splits)
  with assms show ?thesis by (cases app) (auto simp: Start_def Let_def CacheSyncWorker_tick_def sync_apply_def started_workers_def)
qed

text \<open>C6. A started application answers: through any sequence of checks none panics, every valid request gets a response,
  every other one an error, and the response says that there is no rule exactly when the rule database has none for its
  tenant and resource.\<close>

theorem application_answers:
  assumes "NewApplication now deps (Some cfg) = Inr app" "small_config cfg" "db_inv (ap_RuleDB app)"
  shows "\<exists>app1. Start (Some app) = (None, Some app1)
     \<and> (\<exists>rs app2. checks calls app1 = Some (rs, app2) \<and> list_all2 (\<lambda>(w, req) res. answered (db_abs (ap_RuleDB app)) req res) calls rs)"
proof -
  have "check_config cfg = None" using assms(1) NewApplication_rejects [of cfg] by (cases "check_config cfg") auto
  from NewApplication_accepts [OF this, of now deps] assms(1,2) obtain http grpc where
    app: "app = wire now (created_stores cfg deps) (with_defaults cfg) http grpc (NewHashSampler (cf_TraceSampleRate (with_defaults cfg)))"
    by (auto simp: small_config_def)
  have "cf_RuleDB (ap_Config app) \<noteq> None" by (simp add: app with_defaults_def if_nil_def)
  then have s: "Start (Some app) = (None, Some (app\<lparr>ap_RuleCache := CacheSyncWorker_tick (ap_RuleDB app) (ap_RuleCache app),
      ap_cancel := Some False, ap_wg := ap_wg app @ started_workers app, ap_ready := True\<rparr>))"
    (is "_ = (None, Some ?app1)") by (rule Start_loads)
  have "app_serving ?app1" unfolding app by (rule wire_serving [OF assms(2)])
  moreover have "rc_abs (ap_RuleCache ?app1) = db_abs (ap_RuleDB app)" by (simp add: sync_refines [OF assms(3)])
  ultimately show ?thesis using s checks_answered by blast
qed

section \<open>Shutdown\<close>

lemma Close_closes:
  assumes "InFlight_Close (Some f) = Some g"
  shows "\<exists>f1. g = Some f1 \<and> if_closed f1"
  using assms by (auto simp: Let_def close_ch_def split: if_splits)

lemma closed_refuses:
  assumes "if_closed (ap_inflight app)" "valid_request req = None" "ready (Some (rate_handler app))"
  shows "\<exists>app'. sv_CheckLimit (app_services w) req app = Some (Inl (Wrap CodeLimiterUnavailable ''server draining'' None), app')"
proof -
  have "h_inflight (rate_handler app) = Some (ap_inflight app)" by (simp add: rate_handler_def)
  with assms show ?thesis by (simp add: app_services_def CheckLimit_def Let_def)
qed


section \<open>A sample application\<close>

definition sample_deps :: dependencies where
  "sample_deps = \<lparr>dp_Redis = NewInMemoryRedis, dp_RuleDB = sample_db, dp_Outbox = NewInMemoryOutbox, dp_PubSub = NewInMemoryPubSub,
     dp_Membership = NewSingleInstanceMembership ''a'' ''eu'', dp_Sampler = NewHashSampler 1, dp_Metrics = NewInMemoryMetrics\<rparr>"

definition sample_config :: Config where
  "sample_config = defaultConfig\<lparr>cf_EnableAuth := True, cf_AdminToken := ''secret'', cf_RuleDB := Some 1\<rparr>"

lemma sample_config_ok: "check_config sample_config = None" "cf_EnableAuth sample_config" "small_config sample_config"
  "cf_RuleDB sample_config = Some 1" "cf_AdminToken sample_config = ''secret''"
  unfolding checked by (simp_all add: sample_config_def defaultConfig_def small_config_def Second_def)

definition sample_app :: Application where
  "sample_app = projr (NewApplication 5 sample_deps (Some sample_config))"

lemma sample_app_built: "NewApplication 5 sample_deps (Some sample_config) = Inr sample_app"
  using NewApplication_accepts [OF sample_config_ok(1), of 5 sample_deps] by (auto simp: sample_app_def)

definition sample_weather :: weather where
  "sample_weather = \<lparr>we_check = sample_env, we_batch = sample_benv, we_marshal = (\<lambda>e. Inr (ie_TenantID e)), we_sha256 = id, we_now = 7\<rparr>"

definition sample_http :: http_request where
  "sample_http = \<lparr>hx_Method = ''DELETE'', hx_Path = ''/v1/admin/rules'', hx_Query = (\<lambda>k. if k = ''expectedVersion'' then ''1'' else if k = ''tenantID'' then ''t'' else ''r''),
     hx_Authorization = ''Bearer wrong'', hx_Body = None\<rparr>"

theorem rules_need_token_witness:
  "rules_part (fold app_serve [ViaHTTP (\<lambda>r. WriteHeader 404) \<lparr>he_json = Map.empty, he_start = 0, he_end = 1\<rparr> sample_weather sample_http]
     sample_app) = rules_part sample_app"
  by (rule rules_need_token [OF sample_app_built sample_config_ok(2)])
     (simp add: sample_config_ok(5) sample_http_def)

lemma wire_RuleDB: "ap_RuleDB (wire now deps cfg http grpc sampler) = dp_RuleDB deps"
  and wire_inflight: "ap_inflight (wire now deps cfg http grpc sampler) = NewInFlight"
  by (simp_all add: wire_def Let_def)

lemma sample_app_wired:
  "\<exists>http grpc. sample_app = wire 5 (created_stores sample_config sample_deps) (with_defaults sample_config) http grpc
     (NewHashSampler (cf_TraceSampleRate (with_defaults sample_config)))"
  using NewApplication_accepts [OF sample_config_ok(1), of 5 sample_deps] sample_app_built sample_config_ok(3)
  by (auto simp: small_config_def)

lemma sample_db_inv: "db_inv (ap_RuleDB sample_app)"
proof -
  have "dp_RuleDB (created_stores sample_config sample_deps) = sample_db"
    by (simp add: created_stores_def sample_deps_def sample_config_ok(4))
  then have "ap_RuleDB sample_app = sample_db" using sample_app_wired wire_RuleDB by metis
  moreover have "db_inv sample_db" unfolding sample_db_def by (rule DB_Create_inv [OF db_inv_New])
  ultimately show ?thesis by simp
qed

lemma sample_serving: "app_serving sample_app" "ap_inflight sample_app = NewInFlight"
proof -
  from sample_app_wired obtain http grpc where w: "sample_app = wire 5 (created_stores sample_config sample_deps)
      (with_defaults sample_config) http grpc (NewHashSampler (cf_TraceSampleRate (with_defaults sample_config)))" by blast
  have "app_serving (sample_app\<lparr>ap_RuleCache := ap_RuleCache sample_app, ap_cancel := ap_cancel sample_app,
      ap_wg := ap_wg sample_app, ap_ready := ap_ready sample_app\<rparr>)" unfolding w by (rule wire_serving [OF sample_config_ok(3)])
  then show "app_serving sample_app" by simp
  show "ap_inflight sample_app = NewInFlight" unfolding w by (rule wire_inflight)
qed

theorem application_answers_witness:
  "\<exists>app1. Start (Some sample_app) = (None, Some app1)
     \<and> (\<exists>rs app2. checks [(sample_weather, Some sample_check), (sample_weather, None)] app1 = Some (rs, app2)
        \<and> list_all2 (\<lambda>(w, req) res. answered (db_abs (ap_RuleDB sample_app)) req res)
            [(sample_weather, Some sample_check), (sample_weather, None)] rs)"
  by (rule application_answers [OF sample_app_built sample_config_ok(3) sample_db_inv])


definition sample_post :: http_request where
  "sample_post = \<lparr>hx_Method = ''POST'', hx_Path = ''/v1/ratelimit/check'', hx_Query = (\<lambda>k. []), hx_Authorization = [],
     hx_Body = Some ''{..}''\<rparr>"

definition sample_json :: http_env where
  "sample_json = \<lparr>he_json = (\<lambda>txt. if txt = ''{..}'' then Some (JObject [(''TenantID'', JString ''t''), (''userID'', JString ''u''),
     (''resource'', JString ''a''), (''cost'', JNumber ''1'')]) else None), he_start = 0, he_end = 1\<rparr>"

definition sample_query :: HTTPCheckRequest where
  "sample_query = \<lparr>hq_TraceID = [], hq_TenantID = ''t'', hq_UserID = ''u'', hq_Resource = ''a'', hq_Cost = 1\<rparr>"

lemma sample_decodes: "decodeJSON sample_json (NewHTTPTransport [] True) sample_post dec_check = Inr sample_query"
proof -
  have "ParseInt ''1'' = Some 1" by code_simp
  then show ?thesis
    by (simp add: decodeJSON_def sample_json_def sample_post_def NewHTTPTransport_def dec_check_def HTTPCheckRequest_table_def
      foldName_plain fold_letter_def plain_field_def store_field_def sample_query_def)
qed


end
