(* ===== verification/Chaos.thy ===== *)
theory Chaos
  imports App_Props
begin

text \<open>
  \<^verbatim>\<open>app/chaos_runner.go\<close>: a harness that runs scenarios with failures against a whole application. The
  scenarios run while the goroutines of the application do: which of their steps happen before an operation of a
  scenario, and between two polls of a wait, is an argument. \<^term>\<open>None\<close> is a panic or a wait that has not ended. The
  harness and its application point to the same objects: the store, the membership, the rule database and the outbox are
  those in the record of the application, the channel is the one in the record of the harness.
\<close>

section \<open>The channel that drops\<close>

record chaosPubSub =
  cp_inner :: "nat InMemoryPubSub option"
  cp_drop :: bool

definition newChaosPubSub :: "nat InMemoryPubSub option \<Rightarrow> chaosPubSub" where
  "newChaosPubSub inner =
     \<lparr>cp_inner = (case inner of None \<Rightarrow> Some NewInMemoryPubSub | Some ps \<Rightarrow> Some ps), cp_drop = False\<rparr>"

definition SetDrop :: "chaosPubSub option \<Rightarrow> bool \<Rightarrow> chaosPubSub option" where
  "SetDrop ps_ptr v = (case ps_ptr of None \<Rightarrow> None | Some ps \<Rightarrow> Some (ps\<lparr>cp_drop := v\<rparr>))"

definition chaos_Subscribe ::
    "chaosPubSub option \<Rightarrow> ctx option \<Rightarrow> string \<Rightarrow> nat option \<Rightarrow> (go_error + remover) \<times> chaosPubSub option" where
  "chaos_Subscribe ps_ptr c channel handler =
     (case ps_ptr of
        None \<Rightarrow> (Inl (ErrorString ''pubsub is required''), None)
      | Some ps \<Rightarrow>
          if cp_inner ps = None then (Inl (ErrorString ''pubsub is required''), Some ps)
          else (case PubSub_Subscribe (cp_inner ps) c channel handler of
                  (res, inner) \<Rightarrow> (res, Some (ps\<lparr>cp_inner := inner\<rparr>))))"

definition chaos_Publish ::
    "(ctx \<Rightarrow> bool) \<Rightarrow> chaosPubSub option \<Rightarrow> string \<Rightarrow> string \<Rightarrow> go_error + nat delivery list" where
  "chaos_Publish done_ctx ps_ptr channel payload =
     (case ps_ptr of
        None \<Rightarrow> Inl (ErrorString ''pubsub is required'')
      | Some ps \<Rightarrow>
          if cp_inner ps = None then Inl (ErrorString ''pubsub is required'')
          else if cp_drop ps then Inr []
          else PubSub_Publish done_ctx (cp_inner ps) channel payload)"

section \<open>The harness\<close>

text \<open>A nil pointer is \<^term>\<open>None\<close>; \<open>ch_flight\<close> are the deliveries that the channel has started and that have not run yet.\<close>

record ChaosHarness =
  ch_App :: "Application option"
  ch_Redis :: "nat option"
  ch_Membership :: "nat option"
  ch_RuleDB :: "nat option"
  ch_Outbox :: "nat option"
  ch_PubSub :: "chaosPubSub option"
  ch_flight :: "nat delivery list"

definition zero_config :: Config where
  "zero_config = defaultConfig\<lparr>cf_Region := [], cf_HTTPListenAddr := [], cf_EnableHTTP := False, cf_EnableGRPC := False,
     cf_GRPCListenAddr := [], cf_GRPCKeepAlive := 0, cf_TraceSampleRate := 0, cf_CoalesceEnabled := False, cf_CoalesceTTL := 0,
     cf_CoalesceShards := 0,
     cf_BreakerOptions := \<lparr>co_FailureThreshold = 0, co_OpenDuration = 0, co_HalfOpenMaxCalls = 0\<rparr>,
     cf_CacheSyncInterval := 0, cf_HealthInterval := 0,
     cf_LimiterPolicy := \<lparr>po_Shards = 0, po_MaxEntriesShard = 0, po_QuiesceWindow = 0, po_CloseTimeout = 0\<rparr>,
     cf_FallbackPolicy := no_fallback,
     cf_DegradeThresh := \<lparr>dt_RedisUnhealthyFor = 0, dt_MembershipUnhealthy = 0, dt_ErrorRateWindow = 0\<rparr>,
     cf_HTTPReadTimeout := 0, cf_HTTPWriteTimeout := 0, cf_HTTPIdleTimeout := 0, cf_RequestTimeout := 0, cf_DrainTimeout := 0,
     cf_MaxBodyBytes := 0\<rparr>"

definition chaos_config :: Config where
  "chaos_config = zero_config\<lparr>cf_Region := ''local'', cf_Redis := Some 1, cf_Membership := Some 1, cf_RuleDB := Some 1,
     cf_Outbox := Some 1, cf_PubSub := Some 1, cf_CacheSyncInterval := 20 * Millisecond, cf_HealthInterval := 10 * Millisecond,
     cf_EnableHTTP := False, cf_EnableGRPC := False\<rparr>"

definition chaos_deps :: dependencies where
  "chaos_deps = \<lparr>dp_Redis = NewInMemoryRedis, dp_RuleDB = NewInMemoryRuleDB, dp_Outbox = NewInMemoryOutbox,
     dp_PubSub = NewInMemoryPubSub, dp_Membership = NewSingleInstanceMembership ''node'' ''local'',
     dp_Sampler = NewHashSampler 0, dp_Metrics = NewInMemoryMetrics\<rparr>"

definition NewChaosHarness :: "time \<Rightarrow> go_error + ChaosHarness" where
  "NewChaosHarness now =
     (let pubsub = newChaosPubSub (Some NewInMemoryPubSub)
      in case NewApplication now chaos_deps (Some chaos_config) of
           Inl err \<Rightarrow> Inl err
         | Inr app \<Rightarrow> Inr \<lparr>ch_App = Some app, ch_Redis = Some 1, ch_Membership = Some 1, ch_RuleDB = Some 1, ch_Outbox = Some 1,
             ch_PubSub = Some pubsub, ch_flight = []\<rparr>)"

section \<open>The goroutines\<close>

text \<open>What the goroutines of the application do next: a tick of the health loop, of the synchronisation or of the publisher,
  the invalidator's subscription, a delivery to its handler, and the close of a limiter that left the pool and that nobody
  holds.\<close>

datatype activity = HealthTick time | SyncTick | OutboxTick | SubscribeStep | DeliverStep nat | CloseStep nat

definition health_step :: "time \<Rightarrow> Application \<Rightarrow> Application" where
  "health_step now app = app\<lparr>ap_LimiterFactory := (ap_LimiterFactory app)\<lparr>be_mode :=
     fst (HealthLoop_tick now (map_option (\<lambda>r. Redis_Healthy (Some r)) (be_redis (ap_LimiterFactory app)))
       (Some (static_view (Some (ap_membership app)))) (be_mode (ap_LimiterFactory app)))\<rparr>\<rparr>"

definition app_view :: "Application \<Rightarrow> control_plane" where
  "app_view app = \<lparr>ah_db = Some (ap_RuleDB app), ah_rules = Some (ap_RuleCache app), ah_outboxWriter = Some (ap_Outbox app),
     cp_pool = Some (ap_LimiterPool app)\<rparr>"

definition put_app_view :: "control_plane \<Rightarrow> Application \<Rightarrow> Application" where
  "put_app_view c app = app\<lparr>ap_RuleDB := the (ah_db c), ap_RuleCache := the (ah_rules c), ap_Outbox := the (ah_outboxWriter c),
     ap_LimiterPool := the (cp_pool c)\<rparr>"

definition on_app :: "(Application \<Rightarrow> Application) \<Rightarrow> ChaosHarness \<Rightarrow> ChaosHarness" where
  "on_app f h = h\<lparr>ch_App := map_option f (ch_App h)\<rparr>"

definition never :: "ctx \<Rightarrow> bool" where
  "never c = False"

fun background :: "unmarshaller \<Rightarrow> activity \<Rightarrow> ChaosHarness \<Rightarrow> ChaosHarness option" where
  "background unmarshal (HealthTick now) h = Some (on_app (health_step now) h)"
| "background unmarshal SyncTick h =
     Some (on_app (\<lambda>app. app\<lparr>ap_RuleCache := CacheSyncWorker_tick (ap_RuleDB app) (ap_RuleCache app)\<rparr>) h)"
| "background unmarshal OutboxTick h =
     (case ch_App h of
        None \<Rightarrow> Some h
      | Some app \<Rightarrow>
          (case OutboxPublisher_tick FetchPending MarkSent
                  (chaos_Publish never (ch_PubSub h) (op_channel (ap_OutboxPublisher app))) (Some (ap_Outbox app)) of
             (ob, ds) \<Rightarrow> Some (h\<lparr>ch_App := Some (app\<lparr>ap_Outbox := the ob\<rparr>), ch_flight := ch_flight h @ ds\<rparr>)))"
| "background unmarshal SubscribeStep h =
     (case ch_App h of
        None \<Rightarrow> Some h
      | Some app \<Rightarrow>
          Some (h\<lparr>ch_PubSub := snd (chaos_Subscribe (ch_PubSub h) (Some Background) (ci_channel (ap_CacheInvalidator app)) (Some 0))\<rparr>))"
| "background unmarshal (DeliverStep n) h =
     (case ch_App h of
        None \<Rightarrow> Some h
      | Some app \<Rightarrow>
          if n < length (ch_flight h) then
            map_option (\<lambda>c. h\<lparr>ch_App := Some (put_app_view c app), ch_flight := drop_nth n (ch_flight h)\<rparr>)
              (CacheInvalidator_handle unmarshal (app_view app) (dl_data (ch_flight h ! n)))
          else Some h)"
| "background unmarshal (CloseStep e) h =
     Some (on_app (\<lambda>app. if e \<in> set (lp_waiters (ap_LimiterPool app)) \<and> wait_over (ap_LimiterPool app) e False
                           then app\<lparr>ap_LimiterPool := waiter_close (ap_LimiterPool app) e\<rparr> else app) h)"

fun meanwhile :: "unmarshaller \<Rightarrow> activity list \<Rightarrow> ChaosHarness \<Rightarrow> ChaosHarness option" where
  "meanwhile unmarshal [] h = Some h"
| "meanwhile unmarshal (a # as) h =
     (case background unmarshal a h of None \<Rightarrow> None | Some h1 \<Rightarrow> meanwhile unmarshal as h1)"

section \<open>Waits\<close>

text \<open>How a select ends, after what the goroutines did while it waited.\<close>

datatype wait_event = CtxDone go_error | Deadline | Tick

type_synonym waits = "(activity list \<times> wait_event) list"

fun poll :: "unmarshaller \<Rightarrow> (Application \<Rightarrow> bool) \<Rightarrow> go_error \<Rightarrow> waits \<Rightarrow> ChaosHarness \<Rightarrow> (go_error option \<times> ChaosHarness) option" where
  "poll unmarshal cond expired [] h =
     (case ch_App h of None \<Rightarrow> None | Some app \<Rightarrow> if cond app then Some (None, h) else None)"
| "poll unmarshal cond expired ((as, ev) # ws) h =
     (case ch_App h of
        None \<Rightarrow> None
      | Some app \<Rightarrow>
          if cond app then Some (None, h)
          else (case meanwhile unmarshal as h of
                  None \<Rightarrow> None
                | Some h1 \<Rightarrow>
                    (case ev of
                       CtxDone err \<Rightarrow> Some (Some err, h1)
                     | Deadline \<Rightarrow> Some (Some expired, h1)
                     | Tick \<Rightarrow> poll unmarshal cond expired ws h1)))"

definition waitForMode :: "unmarshaller \<Rightarrow> waits \<Rightarrow> OperatingMode \<Rightarrow> ChaosHarness \<Rightarrow> (go_error option \<times> ChaosHarness) option" where
  "waitForMode unmarshal ws target h =
     (if ch_App h = None then Some (Some (ErrorString ''app is required''), h)
      else poll unmarshal (\<lambda>app. App_Mode (Some app) = target) (ErrorString ''mode did not recover'') ws h)"

definition ruleCacheMatches :: "RuleCache option \<Rightarrow> InMemoryRuleDB option \<Rightarrow> bool" where
  "ruleCacheMatches cache_ptr db_ptr =
     (case (cache_ptr, db_ptr) of
        (Some cache, Some db) \<Rightarrow>
          (case DB_LoadAll db of
             Inl err \<Rightarrow> False
           | Inr rules \<Rightarrow>
               list_all (\<lambda>rule. case RuleCache_Get cache (ru_TenantID rule) (ru_Resource rule) of
                    None \<Rightarrow> False
                  | Some held \<Rightarrow> ru_Version held = ru_Version rule \<and> ru_Limit held = ru_Limit rule) rules)
      | _ \<Rightarrow> False)"

definition waitForRuleCache :: "unmarshaller \<Rightarrow> waits \<Rightarrow> ChaosHarness \<Rightarrow> (go_error option \<times> ChaosHarness) option" where
  "waitForRuleCache unmarshal ws h =
     (if ch_App h = None then Some (Some (ErrorString ''rule cache is required''), h)
      else if ch_RuleDB h = None then Some (Some (ErrorString ''rule db is required''), h)
      else poll unmarshal (\<lambda>app. ruleCacheMatches (Some (ap_RuleCache app)) (Some (ap_RuleDB app)))
             (ErrorString ''rule cache did not converge'') ws h)"

section \<open>Scenarios\<close>

text \<open>The surroundings of one scenario: what operation \<open>i\<close> meets, what the goroutines do before it, and its wait.\<close>

record chaos_env =
  ce_weather :: "nat \<Rightarrow> weather"
  ce_acts :: "nat \<Rightarrow> activity list"
  ce_wait :: waits
  ce_unmarshal :: unmarshaller

definition act ::
    "chaos_env \<Rightarrow> nat \<Rightarrow> (weather \<Rightarrow> Application \<Rightarrow> ('r \<times> Application) option) \<Rightarrow> ChaosHarness \<Rightarrow> ('r \<times> ChaosHarness) option" where
  "act env i f h =
     (case meanwhile (ce_unmarshal env) (ce_acts env i) h of
        None \<Rightarrow> None
      | Some h1 \<Rightarrow>
          (case ch_App h1 of
             None \<Rightarrow> None
           | Some app \<Rightarrow> map_option (\<lambda>(r, app1). (r, h1\<lparr>ch_App := Some app1\<rparr>)) (f (ce_weather env i) app)))"

text \<open>\<^verbatim>\<open>errors.Is\<close> on the marker errors, each of which is one value of the program.\<close>

fun errors_Is :: "go_error \<Rightarrow> go_error \<Rightarrow> bool" where
  "errors_Is (AppError c m e) target =
     (AppError c m e = target \<or> (case e of None \<Rightarrow> False | Some e1 \<Rightarrow> errors_Is e1 target))"
| "errors_Is err target = (err = target)"

definition chaos_rule :: "string \<Rightarrow> string \<Rightarrow> int64 \<Rightarrow> CreateRuleRequest" where
  "chaos_rule tenantID resource limit = \<lparr>cq_TenantID = tenantID, cq_Resource = resource, cq_Algorithm = ''token_bucket'',
     cq_Limit = limit, cq_Window = Second, cq_BurstSize = 0, cq_IdempotencyKey = []\<rparr>"

definition create_op :: "CreateRuleRequest \<Rightarrow> weather \<Rightarrow> Application \<Rightarrow> ((go_error + Rule) \<times> Application) option" where
  "create_op req w app = Some (sv_CreateRule (app_services w) (Some req) app)"

definition ensureRule :: "chaos_env \<Rightarrow> nat \<Rightarrow> string \<Rightarrow> string \<Rightarrow> ChaosHarness \<Rightarrow> (go_error option \<times> ChaosHarness) option" where
  "ensureRule env i tenantID resource h =
     (if ch_App h = None then Some (Some (ErrorString ''admin handler is required''), h)
      else case act env i (create_op (chaos_rule tenantID resource 100)) h of
             None \<Rightarrow> None
           | Some (Inr rule, h1) \<Rightarrow> Some (None, h1)
           | Some (Inl err, h1) \<Rightarrow> Some (if errors_Is err ErrConflict then None else Some err, h1))"

definition chaos_request :: CheckLimitRequest where
  "chaos_request = \<lparr>cr_TraceID = [], cr_TenantID = ''tenant'', cr_UserID = ''user'', cr_Resource = ''resource'', cr_Cost = 1\<rparr>"

definition release_resp :: "CheckLimitResponse \<Rightarrow> Application \<Rightarrow> Application" where
  "release_resp resp app = app\<lparr>ap_RateLimitHandler := the (ReleaseResponse (Some (ap_RateLimitHandler app)) (Some resp))\<rparr>"

fun redis_checks :: "chaos_env \<Rightarrow> nat \<Rightarrow> nat \<Rightarrow> ChaosHarness \<Rightarrow> (go_error option \<times> ChaosHarness) option" where
  "redis_checks env i 0 h = Some (None, h)"
| "redis_checks env i (Suc n) h =
     (case act env i (\<lambda>w. sv_CheckLimit (app_services w) (Some chaos_request)) h of
        None \<Rightarrow> None
      | Some (Inl err, h1) \<Rightarrow> Some (Some err, h1)
      | Some (Inr resp, h1) \<Rightarrow> redis_checks env (Suc i) n (on_app (release_resp resp) h1))"

definition set_redis :: "bool \<Rightarrow> Application \<Rightarrow> Application" where
  "set_redis v app = app\<lparr>ap_LimiterFactory := (ap_LimiterFactory app)\<lparr>be_redis := Redis_SetHealthy (be_redis (ap_LimiterFactory app)) v\<rparr>\<rparr>"

definition set_membership :: "bool \<Rightarrow> Application \<Rightarrow> Application" where
  "set_membership v app = app\<lparr>ap_membership := the (SetHealthy (Some (ap_membership app)) v)\<rparr>"

type_synonym scenario_run = "ChaosHarness option \<Rightarrow> (go_error option \<times> ChaosHarness option) option"

definition scenarioRedisRecover :: "chaos_env \<Rightarrow> scenario_run" where
  "scenarioRedisRecover env h_ptr =
     (case h_ptr of
        None \<Rightarrow> Some (Some (ErrorString ''redis scenario requires app and redis''), None)
      | Some h \<Rightarrow>
          if ch_App h = None \<or> ch_Redis h = None
          then Some (Some (ErrorString ''redis scenario requires app and redis''), Some h)
          else
            let h0 = (if ch_Membership h \<noteq> None then on_app (set_membership True) h else h) in
            (case ensureRule env 0 ''tenant'' ''resource'' h0 of
               None \<Rightarrow> None
             | Some (Some err, h1) \<Rightarrow> Some (Some err, Some h1)
             | Some (None, h1) \<Rightarrow>
                 (case redis_checks env 1 50 (on_app (set_redis False) h1) of
                    None \<Rightarrow> None
                  | Some (Some err, h2) \<Rightarrow> Some (Some err, Some h2)
                  | Some (None, h2) \<Rightarrow>
                      map_option (map_prod id Some)
                        (waitForMode (ce_unmarshal env) (ce_wait env) ModeNormal (on_app (set_redis True) h2)))))"

definition storm_request :: "nat \<Rightarrow> CreateRuleRequest" where
  "storm_request i = chaos_rule (''tenant_'' @ FormatInt (int (i mod 5))) (''resource_'' @ FormatInt (int i)) (100 + int i)"

fun storm_creates :: "chaos_env \<Rightarrow> nat list \<Rightarrow> Rule list \<Rightarrow> ChaosHarness \<Rightarrow> ((go_error + Rule list) \<times> ChaosHarness) option" where
  "storm_creates env [] rules h = Some (Inr rules, h)"
| "storm_creates env (i # is) rules h =
     (case act env i (create_op (storm_request i)) h of
        None \<Rightarrow> None
      | Some (Inl err, h1) \<Rightarrow> Some (Inl err, h1)
      | Some (Inr rule, h1) \<Rightarrow> storm_creates env is (rules @ [rule]) h1)"

definition raised :: "int64 \<Rightarrow> Rule \<Rightarrow> UpdateRuleRequest" where
  "raised n rule = \<lparr>uq_TenantID = ru_TenantID rule, uq_Resource = ru_Resource rule, uq_Algorithm = ru_Algorithm rule,
     uq_Limit = wrap64 (ru_Limit rule + n), uq_Window = ru_Window rule, uq_BurstSize = ru_BurstSize rule,
     uq_ExpectedVersion = ru_Version rule\<rparr>"

fun storm_round :: "chaos_env \<Rightarrow> nat \<Rightarrow> Rule list \<Rightarrow> ChaosHarness \<Rightarrow> ((go_error + Rule list) \<times> ChaosHarness) option" where
  "storm_round env k [] h = Some (Inr [], h)"
| "storm_round env k (rule # rules) h =
     (case act env k (\<lambda>w app. Some (sv_UpdateRule (app_services w) (Some (raised 1 rule)) app)) h of
        None \<Rightarrow> None
      | Some (Inl err, h1) \<Rightarrow> Some (Inl err, h1)
      | Some (Inr updated, h1) \<Rightarrow>
          (case storm_round env (Suc k) rules h1 of
             None \<Rightarrow> None
           | Some (Inl err, h2) \<Rightarrow> Some (Inl err, h2)
           | Some (Inr rest, h2) \<Rightarrow> Some (Inr (updated # rest), h2)))"

fun storm_rounds :: "chaos_env \<Rightarrow> nat \<Rightarrow> nat \<Rightarrow> Rule list \<Rightarrow> ChaosHarness \<Rightarrow> ((go_error + Rule list) \<times> ChaosHarness) option" where
  "storm_rounds env k 0 rules h = Some (Inr rules, h)"
| "storm_rounds env k (Suc n) rules h =
     (case storm_round env k rules h of
        None \<Rightarrow> None
      | Some (Inl err, h1) \<Rightarrow> Some (Inl err, h1)
      | Some (Inr rules1, h1) \<Rightarrow> storm_rounds env (k + length rules) n rules1 h1)"

definition scenarioRuleUpdateStorm :: "chaos_env \<Rightarrow> scenario_run" where
  "scenarioRuleUpdateStorm env h_ptr =
     (case h_ptr of
        None \<Rightarrow> Some (Some (ErrorString ''rule storm requires app and db''), None)
      | Some h \<Rightarrow>
          if ch_App h = None \<or> ch_RuleDB h = None
          then Some (Some (ErrorString ''rule storm requires app and db''), Some h)
          else
            (case storm_creates env [0..<20] [] h of
               None \<Rightarrow> None
             | Some (Inl err, h1) \<Rightarrow> Some (Some err, Some h1)
             | Some (Inr rules, h1) \<Rightarrow>
                 (case storm_rounds env 20 5 rules h1 of
                    None \<Rightarrow> None
                  | Some (Inl err, h2) \<Rightarrow> Some (Some err, Some h2)
                  | Some (Inr rules1, h2) \<Rightarrow>
                      map_option (map_prod id Some) (waitForRuleCache (ce_unmarshal env) (ce_wait env) h2))))"

definition set_drop :: "bool \<Rightarrow> ChaosHarness \<Rightarrow> ChaosHarness" where
  "set_drop v h = h\<lparr>ch_PubSub := SetDrop (ch_PubSub h) v\<rparr>"

text \<open>The steps of the last scenario that address the database, and the publication of its event.\<close>

definition get_op :: "string \<Rightarrow> string \<Rightarrow> weather \<Rightarrow> Application \<Rightarrow> ((go_error + Rule) \<times> Application) option" where
  "get_op tenantID resource w app = Some (DB_Get (ap_RuleDB app) tenantID resource, app)"

definition update_op :: "UpdateRuleRequest \<Rightarrow> weather \<Rightarrow> Application \<Rightarrow> ((go_error + Rule) \<times> Application) option" where
  "update_op req w app =
     (case DB_Update (we_now w) (ap_RuleDB app) (Some req) of (res, db) \<Rightarrow> Some (res, app\<lparr>ap_RuleDB := db\<rparr>))"

definition publish_dropped :: "string \<Rightarrow> ChaosHarness \<Rightarrow> ChaosHarness" where
  "publish_dropped data h =
     (case chaos_Publish never (ch_PubSub h) ''ratelimit_invalidation'' data of
        Inl err \<Rightarrow> h
      | Inr ds \<Rightarrow> h\<lparr>ch_flight := ch_flight h @ ds\<rparr>)"

definition upsert_event :: "time \<Rightarrow> Rule \<Rightarrow> InvalidationEvent" where
  "upsert_event now rule = \<lparr>ie_TenantID = ru_TenantID rule, ie_Resource = ru_Resource rule, ie_Action = ''upsert'',
     ie_Version = ru_Version rule, ie_Timestamp = now\<rparr>"

definition repair_rest :: "chaos_env \<Rightarrow> Rule \<Rightarrow> ChaosHarness \<Rightarrow> (go_error option \<times> ChaosHarness option) option" where
  "repair_rest env updated h =
     (case we_marshal (ce_weather env 3) (upsert_event (we_now (ce_weather env 3)) updated) of
        Inl err \<Rightarrow> Some (Some err, Some (set_drop False h))
      | Inr data \<Rightarrow>
          map_option (\<lambda>(err, h1). (err, Some (set_drop False h1)))
            (waitForRuleCache (ce_unmarshal env) (ce_wait env) (publish_dropped data h)))"

definition scenarioPubSubRepair :: "chaos_env \<Rightarrow> scenario_run" where
  "scenarioPubSubRepair env h_ptr =
     (case h_ptr of
        None \<Rightarrow> Some (Some (ErrorString ''pubsub scenario requires app db and pubsub''), None)
      | Some h \<Rightarrow>
          if ch_App h = None \<or> ch_RuleDB h = None \<or> ch_PubSub h = None
          then Some (Some (ErrorString ''pubsub scenario requires app db and pubsub''), Some h)
          else
            (case ensureRule env 0 ''tenant_drop'' ''resource_drop'' h of
               None \<Rightarrow> None
             | Some (Some err, h1) \<Rightarrow> Some (Some err, Some h1)
             | Some (None, h1) \<Rightarrow>
                 (case act env 1 (get_op ''tenant_drop'' ''resource_drop'') h1 of
                    None \<Rightarrow> None
                  | Some (Inl err, h2) \<Rightarrow> Some (Some err, Some h2)
                  | Some (Inr current, h2) \<Rightarrow>
                      (case act env 2 (update_op (raised 5 current)) (set_drop True h2) of
                         None \<Rightarrow> None
                       | Some (Inl err, h3) \<Rightarrow> Some (Some err, Some (set_drop False h3))
                       | Some (Inr updated, h3) \<Rightarrow>
                           (case meanwhile (ce_unmarshal env) (ce_acts env 3) h3 of
                              None \<Rightarrow> None
                            | Some h4 \<Rightarrow> repair_rest env updated h4)))))"

section \<open>The runner\<close>

record ChaosScenario =
  sc_Name :: string
  sc_Run :: "scenario_run option"

definition defaultChaosScenarios :: "chaos_env \<Rightarrow> chaos_env \<Rightarrow> chaos_env \<Rightarrow> ChaosScenario list" where
  "defaultChaosScenarios env1 env2 env3 =
     [\<lparr>sc_Name = ''redis recover'', sc_Run = Some (scenarioRedisRecover env1)\<rparr>,
      \<lparr>sc_Name = ''rule update storm'', sc_Run = Some (scenarioRuleUpdateStorm env2)\<rparr>,
      \<lparr>sc_Name = ''pubsub repair'', sc_Run = Some (scenarioPubSubRepair env3)\<rparr>]"

fun run_scenarios :: "ChaosScenario list \<Rightarrow> scenario_run" where
  "run_scenarios [] h = Some (None, h)"
| "run_scenarios (sc # scs) h =
     (case sc_Run sc of
        None \<Rightarrow> run_scenarios scs h
      | Some run \<Rightarrow>
          (case run h of
             None \<Rightarrow> None
           | Some (Some err, h1) \<Rightarrow> Some (Some err, h1)
           | Some (None, h1) \<Rightarrow> run_scenarios scs h1))"

text \<open>How the deferred shutdown meets its context of two seconds: as for \<^term>\<open>Shutdown\<close>.\<close>

record shutdown_env =
  se_drain_end :: "go_error option"
  se_pick :: bool
  se_finished :: bool
  se_err :: go_error

definition runChaosScenarios :: "shutdown_env \<Rightarrow> ChaosScenario list \<Rightarrow> scenario_run" where
  "runChaosScenarios se scenarios h_ptr =
     (case h_ptr of
        None \<Rightarrow> Some (Some (ErrorString ''harness is required''), None)
      | Some h \<Rightarrow>
          if ch_App h = None then Some (Some (ErrorString ''app is required''), Some h)
          else
            (case Start (ch_App h) of
               (Some err, app) \<Rightarrow> Some (Some err, Some (h\<lparr>ch_App := app\<rparr>))
             | (None, app) \<Rightarrow>
                 (case run_scenarios scenarios (Some (h\<lparr>ch_App := app\<rparr>)) of
                    None \<Rightarrow> None
                  | Some (res, h1) \<Rightarrow>
                      (case Shutdown (se_drain_end se) (se_pick se) (se_finished se) (se_err se) (ch_App (the h1)) of
                         None \<Rightarrow> None
                       | Some (err, app1) \<Rightarrow> Some (res, Some ((the h1)\<lparr>ch_App := app1\<rparr>))))))"

definition RunChaos :: "shutdown_env \<Rightarrow> chaos_env \<Rightarrow> chaos_env \<Rightarrow> chaos_env \<Rightarrow> scenario_run" where
  "RunChaos se env1 env2 env3 h_ptr = runChaosScenarios se (defaultChaosScenarios env1 env2 env3) h_ptr"

section \<open>What the goroutines keep\<close>

text \<open>An application that serves, with no request under way, with a store, and with a controller that can recover.\<close>

definition sound_app :: "Application \<Rightarrow> bool" where
  "sound_app app \<longleftrightarrow> app_serving app \<and> ap_inflight app = NewInFlight \<and> db_inv (ap_RuleDB app)
     \<and> be_redis (ap_LimiterFactory app) \<noteq> None
     \<and> (\<exists>dc. be_mode (ap_LimiterFactory app) = Some dc \<and> 0 < dt_RedisUnhealthyFor (dc_thresholds dc))"

lemma rest_slot [simp]: "\<not> if_closed NewInFlight" "slot_ok (Some NewInFlight)"
  by (simp_all add: NewInFlight_def slot_ok_def max_int64_def)

lemma sound_frame [simp]:
  "sound_app (app\<lparr>ap_RuleCache := rc\<rparr>) = sound_app app" "sound_app (app\<lparr>ap_Outbox := ob\<rparr>) = sound_app app"
  "sound_app (app\<lparr>ap_membership := m\<rparr>) = sound_app app"
  by (simp_all add: sound_app_def app_serving_def serving_def equipped_def ready_def small_counts_def rate_handler_def)

lemma sound_db: "sound_app app \<Longrightarrow> db_inv db \<Longrightarrow> sound_app (app\<lparr>ap_RuleDB := db\<rparr>)"
  by (simp add: sound_app_def app_serving_def serving_def equipped_def ready_def small_counts_def rate_handler_def)

lemma sound_pool:
  assumes "sound_app app" "pool_inv False p []" "length (lp_shards p) = length (lp_shards (ap_LimiterPool app))"
  shows "sound_app (app\<lparr>ap_LimiterPool := p\<rparr>)"
  using assms
  by (auto simp: sound_app_def app_serving_def serving_def equipped_def ready_def small_counts_def rate_handler_def pool_ready_def)

lemma sound_pool_inv:
  assumes "sound_app app"
  shows "pool_inv False (ap_LimiterPool app) []" "0 < length (lp_shards (ap_LimiterPool app))"
    "int (length (lp_shards (ap_LimiterPool app))) < 2 ^ 32"
  using assms
  by (auto simp: sound_app_def app_serving_def serving_def equipped_def small_counts_def rate_handler_def pool_ready_def)

lemma sound_backend:
  assumes "sound_app app" "be_redis be \<noteq> None" "be_fallback be = be_fallback (ap_LimiterFactory app)"
    "be_mode be = Some dc" "0 < dt_RedisUnhealthyFor (dc_thresholds dc)"
  shows "sound_app (app\<lparr>ap_LimiterFactory := be\<rparr>)"
  using assms
  by (simp add: sound_app_def app_serving_def serving_def equipped_def ready_def small_counts_def rate_handler_def)

lemma Degrade_Update_thresholds:
  assumes "fst (Degrade_Update now redis mship (Some dc)) = Some dc'"
  shows "dc_thresholds dc' = dc_thresholds dc"
  using assms by (auto simp: Let_def split: if_splits)

lemma Degrade_Update_some: "\<exists>dc'. fst (Degrade_Update now redis mship (Some dc)) = Some dc'"
  by (simp add: Let_def)

lemma health_sound: "sound_app app \<Longrightarrow> sound_app (health_step now app)"
proof -
  assume s: "sound_app app"
  then obtain dc where dc: "be_mode (ap_LimiterFactory app) = Some dc" "0 < dt_RedisUnhealthyFor (dc_thresholds dc)"
    by (auto simp: sound_app_def)
  let ?r = "map_option (\<lambda>r. Redis_Healthy (Some r)) (be_redis (ap_LimiterFactory app))"
  let ?m = "Some (static_view (Some (ap_membership app)))"
  from Degrade_Update_some obtain dc' where d: "fst (Degrade_Update now ?r ?m (Some dc)) = Some dc'" by blast
  have "0 < dt_RedisUnhealthyFor (dc_thresholds dc')" using Degrade_Update_thresholds [OF d] dc(2) by simp
  with s d dc(1) show ?thesis
    by (auto simp: health_step_def HealthLoop_tick_def sound_app_def [of app] simp del: Degrade_Update.simps intro!: sound_backend)
qed

lemma shardFor_some:
  assumes "0 < length (lp_shards p)" "int (length (lp_shards p)) < 2 ^ 32"
  shows "\<exists>i. shardFor p t r = Some i"
  using shardIndex_bounds [of "int (length (lp_shards p))" t r] assms by (auto simp: shardFor_def)

lemma cutover_sound:
  assumes "sound_app app" "c = (app_view app)\<lparr>ah_rules := Some rc\<rparr>"
  shows "\<exists>p. cutover_pool c t r = Some (c\<lparr>cp_pool := Some p\<rparr>) \<and> sound_app (app\<lparr>ap_LimiterPool := p\<rparr>)"
proof -
  note p = sound_pool_inv [OF assms(1)]
  from shardFor_some [OF p(2,3)] obtain i where "shardFor (ap_LimiterPool app) t r = Some i" by blast
  then have c: "Cutover_detach (Some (ap_LimiterPool app)) t r = Some (Some (cutover_locked (ap_LimiterPool app) i (limiterPoolKey t r)))"
    (is "_ = Some (Some ?p)") by simp
  from Cutover_success [OF c p(1,2)] sound_pool [OF assms(1)] have "sound_app (app\<lparr>ap_LimiterPool := ?p\<rparr>)" by blast
  moreover have "cutover_pool c t r = Some (c\<lparr>cp_pool := Some ?p\<rparr>)"
    using c by (simp add: cutover_pool_def assms(2) app_view_def del: Cutover_detach.simps)
  ultimately show ?thesis by blast
qed

lemma handled_sound:
  assumes "sound_app app"
  shows "\<exists>c. CacheInvalidator_handle unmarshal (app_view app) payload = Some c \<and> sound_app (put_app_view c app)
     \<and> ap_RuleDB (put_app_view c app) = ap_RuleDB app \<and> ap_LimiterFactory (put_app_view c app) = ap_LimiterFactory app"
proof -
  have plain: "put_app_view (app_view app) app = app" by (cases app) (simp add: put_app_view_def app_view_def)
  have cut: "\<exists>c. cutover_pool ((app_view app)\<lparr>ah_rules := Some rc\<rparr>) t r = Some c \<and> sound_app (put_app_view c app)
     \<and> ap_RuleDB (put_app_view c app) = ap_RuleDB app \<and> ap_LimiterFactory (put_app_view c app) = ap_LimiterFactory app" for rc t r
  proof -
    let ?c = "(app_view app)\<lparr>ah_rules := Some rc\<rparr>"
    from cutover_sound [OF assms, of ?c rc t r] obtain p where
      p: "cutover_pool ?c t r = Some (?c\<lparr>cp_pool := Some p\<rparr>)" "sound_app (app\<lparr>ap_LimiterPool := p\<rparr>)" by blast
    have "put_app_view (?c\<lparr>cp_pool := Some p\<rparr>) app = (app\<lparr>ap_LimiterPool := p\<rparr>)\<lparr>ap_RuleCache := rc\<rparr>"
      by (cases app) (simp add: put_app_view_def app_view_def)
    with p show ?thesis by (simp only: sound_frame) simp
  qed
  have del: "\<exists>rc. handle_delete (app_view app) e = (app_view app)\<lparr>ah_rules := Some rc\<rparr>" for e
    by (simp add: handle_delete_def app_view_def)
  have ups: "\<exists>rc. handle_upsert (app_view app) e = (app_view app)\<lparr>ah_rules := Some rc\<rparr>" for e
    by (auto simp: handle_upsert_def app_view_def split: sum.split)
  show ?thesis
  proof (cases "unmarshal payload")
    case (Inr e)
    from del [of e] ups [of e] obtain rc1 rc2 where
      "handle_delete (app_view app) e = (app_view app)\<lparr>ah_rules := Some rc1\<rparr>"
      "handle_upsert (app_view app) e = (app_view app)\<lparr>ah_rules := Some rc2\<rparr>" by blast
    with Inr cut plain assms show ?thesis by (simp add: CacheInvalidator_handle_def)
  qed (simp add: CacheInvalidator_handle_def plain assms)
qed

text \<open>The harness between two steps: its objects are there and its application is sound.\<close>

definition sound :: "ChaosHarness \<Rightarrow> bool" where
  "sound h \<longleftrightarrow> (\<exists>app. ch_App h = Some app \<and> sound_app app) \<and> ch_Redis h \<noteq> None \<and> ch_RuleDB h \<noteq> None \<and> ch_PubSub h \<noteq> None"

definition hdb :: "ChaosHarness \<Rightarrow> InMemoryRuleDB" where
  "hdb h = ap_RuleDB (the (ch_App h))"

definition hredis :: "ChaosHarness \<Rightarrow> InMemoryRedis option" where
  "hredis h = be_redis (ap_LimiterFactory (the (ch_App h)))"

lemma soundE:
  assumes "sound h"
  obtains app where "ch_App h = Some app" "sound_app app" "hdb h = ap_RuleDB app" "hredis h = be_redis (ap_LimiterFactory app)"
    "ch_Redis h \<noteq> None" "ch_RuleDB h \<noteq> None" "ch_PubSub h \<noteq> None"
  using assms by (auto simp: sound_def hdb_def hredis_def)

lemma soundI:
  assumes "sound h" "ch_App h1 = Some app" "sound_app app" "ch_Redis h1 = ch_Redis h" "ch_RuleDB h1 = ch_RuleDB h"
    "ch_PubSub h1 = None \<longleftrightarrow> ch_PubSub h = None"
  shows "sound h1" "hdb h1 = ap_RuleDB app" "hredis h1 = be_redis (ap_LimiterFactory app)"
  using assms by (auto simp: sound_def hdb_def hredis_def)

lemma on_app_sound:
  assumes "sound h" "\<And>app. sound_app app \<Longrightarrow> sound_app (f app)"
  shows "sound (on_app f h)" "hdb (on_app f h) = ap_RuleDB (f (the (ch_App h)))"
    "hredis (on_app f h) = be_redis (ap_LimiterFactory (f (the (ch_App h))))"
  using assms by (auto simp: sound_def on_app_def hdb_def hredis_def)

lemma waiter_sound:
  assumes "sound_app app" "e \<in> set (lp_waiters (ap_LimiterPool app))" "wait_over (ap_LimiterPool app) e False"
  shows "sound_app (app\<lparr>ap_LimiterPool := waiter_close (ap_LimiterPool app) e\<rparr>)"
proof -
  have "\<not> 0 < le_refs (lp_heap (ap_LimiterPool app) ! e)" using assms(3) by (simp add: wait_over_def)
  with close_preserves [OF sound_pool_inv(1) [OF assms(1)] assms(2,3)] have "pool_inv False (waiter_close (ap_LimiterPool app) e) []" by blast
  then show ?thesis by (rule sound_pool [OF assms(1)]) (simp add: waiter_close_def)
qed

lemma background_sound:
  assumes "sound h"
  shows "\<exists>h1. background unmarshal a h = Some h1 \<and> sound h1 \<and> hdb h1 = hdb h \<and> hredis h1 = hredis h"
proof -
  from assms obtain app where app: "ch_App h = Some app" "sound_app app" "hdb h = ap_RuleDB app"
    "hredis h = be_redis (ap_LimiterFactory app)" and refs: "ch_Redis h \<noteq> None" "ch_RuleDB h \<noteq> None" "ch_PubSub h \<noteq> None"
    by (rule soundE)
  show ?thesis
  proof (cases a)
    case (HealthTick now)
    with on_app_sound [OF assms, of "health_step now", OF health_sound] app show ?thesis by (simp add: health_step_def)
  next
    case SyncTick
    let ?f = "\<lambda>app. app\<lparr>ap_RuleCache := CacheSyncWorker_tick (ap_RuleDB app) (ap_RuleCache app)\<rparr>"
    from on_app_sound [OF assms, of ?f] SyncTick app show ?thesis by simp
  next
    case OutboxTick
    obtain ob ds where t: "OutboxPublisher_tick FetchPending MarkSent (chaos_Publish never (ch_PubSub h) (op_channel (ap_OutboxPublisher app)))
        (Some (ap_Outbox app)) = (ob, ds)" by fastforce
    let ?h = "h\<lparr>ch_App := Some (app\<lparr>ap_Outbox := the ob\<rparr>), ch_flight := ch_flight h @ ds\<rparr>"
    have "sound ?h \<and> hdb ?h = hdb h \<and> hredis ?h = hredis h" using app refs by (simp add: sound_def hdb_def hredis_def)
    then show ?thesis using OutboxTick t app(1) by simp
  next
    case SubscribeStep
    have "snd (chaos_Subscribe (ch_PubSub h) c n k) \<noteq> None" for c n k
      using refs by (auto simp: chaos_Subscribe_def split: prod.split)
    with SubscribeStep app refs show ?thesis by (auto simp: sound_def hdb_def hredis_def)
  next
    case (DeliverStep n)
    show ?thesis
    proof (cases "n < length (ch_flight h)")
      case True
      with handled_sound [OF app(2), of unmarshal "dl_data (ch_flight h ! n)"] DeliverStep app refs show ?thesis
        by (auto simp: sound_def hdb_def hredis_def)
    qed (use DeliverStep app assms in simp)
  next
    case (CloseStep e)
    let ?f = "\<lambda>app. if e \<in> set (lp_waiters (ap_LimiterPool app)) \<and> wait_over (ap_LimiterPool app) e False
                    then app\<lparr>ap_LimiterPool := waiter_close (ap_LimiterPool app) e\<rparr> else app"
    have "sound_app a \<Longrightarrow> sound_app (?f a)" for a using waiter_sound [of a e] by simp
    from on_app_sound [OF assms, of ?f, OF this] CloseStep app show ?thesis by simp
  qed
qed

lemma meanwhile_sound:
  assumes "sound h"
  shows "\<exists>h1. meanwhile unmarshal as h = Some h1 \<and> sound h1 \<and> hdb h1 = hdb h \<and> hredis h1 = hredis h"
  using assms
proof (induction as arbitrary: h)
  case (Cons a as)
  from background_sound [OF Cons.prems, of unmarshal a] obtain h1 where
    "background unmarshal a h = Some h1" "sound h1" "hdb h1 = hdb h" "hredis h1 = hredis h" by blast
  with Cons.IH [of h1] show ?case by simp
qed simp

section \<open>What the operations of a scenario do\<close>

lemma act_sound:
  assumes "sound h"
    and "\<And>app. sound_app app \<Longrightarrow> ap_RuleDB app = hdb h \<Longrightarrow> be_redis (ap_LimiterFactory app) = hredis h
           \<Longrightarrow> \<exists>r app1. f (ce_weather env i) app = Some (r, app1) \<and> sound_app app1 \<and> P r (ap_RuleDB app1)"
  shows "\<exists>r h1. act env i f h = Some (r, h1) \<and> sound h1 \<and> P r (hdb h1)"
proof -
  from meanwhile_sound [OF assms(1), of "ce_unmarshal env" "ce_acts env i"] obtain h1 where
    m: "meanwhile (ce_unmarshal env) (ce_acts env i) h = Some h1" "sound h1" "hdb h1 = hdb h" "hredis h1 = hredis h" by blast
  from m(2) obtain app where app: "ch_App h1 = Some app" "sound_app app" "hdb h1 = ap_RuleDB app"
    "hredis h1 = be_redis (ap_LimiterFactory app)" by (rule soundE)
  from assms(2) [of app] app m(3,4) obtain r app1 where f: "f (ce_weather env i) app = Some (r, app1)" "sound_app app1" "P r (ap_RuleDB app1)"
    by auto
  have "sound (h1\<lparr>ch_App := Some app1\<rparr>)" "hdb (h1\<lparr>ch_App := Some app1\<rparr>) = ap_RuleDB app1"
    using m(2) f(2) by (auto simp: sound_def hdb_def)
  with m(1) app(1) f show ?thesis by (simp add: act_def)
qed

definition encodes :: "marshaller \<Rightarrow> bool" where
  "encodes marshal \<longleftrightarrow> (\<forall>e. \<exists>d. marshal e = Inr d)"

lemma write_sound:
  assumes "sound_app app" "encodes marshal" "db_inv db"
  shows "\<exists>ah app1. after_write marshal now (admin_handler app) (res, db) = (res, ah) \<and> put_admin (Some ah) app = app1
     \<and> sound_app app1 \<and> ap_RuleDB app1 = db"
proof (cases res)
  case (Inl err)
  have "put_admin (Some ((admin_handler app)\<lparr>ah_db := Some db\<rparr>)) app = app\<lparr>ap_RuleDB := db\<rparr>"
    by (cases app) (simp add: put_admin_def admin_handler_def NewAdminHandler_def)
  with Inl sound_db [OF assms(1,3)] show ?thesis by (simp add: after_write_def)
next
  case (Inr rule)
  let ?rc = "RuleCache_UpsertIfNewer (ap_RuleCache app) (Some rule)"
  let ?e = "\<lparr>ie_TenantID = ru_TenantID rule, ie_Resource = ru_Resource rule, ie_Action = ''upsert'', ie_Version = ru_Version rule,
    ie_Timestamp = now\<rparr>"
  from assms(2) obtain d where d: "marshal ?e = Inr d" by (auto simp: encodes_def)
  obtain n ob where i: "Outbox_Insert (Some (ap_Outbox app)) d = (Inr n, Some ob)" by (auto simp: case_prod_beta Let_def)
  let ?h = "\<lparr>ah_db = Some db, ah_rules = Some ?rc, ah_outboxWriter = Some ob\<rparr>"
  have "after_write marshal now (admin_handler app) (res, db) = (res, ?h)"
    using Inr d i by (simp add: after_write_def emitInvalidation_def admin_handler_def NewAdminHandler_def del: Outbox_Insert.simps)
  moreover have "put_admin (Some ?h) app = (app\<lparr>ap_RuleDB := db\<rparr>)\<lparr>ap_RuleCache := ?rc, ap_Outbox := ob\<rparr>"
    by (cases app) (simp add: put_admin_def)
  moreover have "sound_app ((app\<lparr>ap_RuleDB := db\<rparr>)\<lparr>ap_RuleCache := ?rc, ap_Outbox := ob\<rparr>)"
    using sound_db [OF assms(1,3)] by (simp only: sound_frame)
  ultimately show ?thesis by simp
qed

lemma create_op_sound:
  assumes "sound_app app" "encodes (we_marshal w)"
    and "DB_Create (we_sha256 w) (we_now w) (ap_RuleDB app) (Some req) = (res, db)"
  shows "\<exists>app1. create_op req w app = Some (res, app1) \<and> sound_app app1 \<and> ap_RuleDB app1 = db"
proof -
  have "db_inv db" using DB_Create_inv [of "ap_RuleDB app" "we_sha256 w" "we_now w" "Some req"] assms(1,3) by (simp add: sound_app_def)
  from write_sound [OF assms(1,2) this, of "we_now w" res] assms(3) show ?thesis
    by (auto simp: create_op_def app_services_def admin_handler_def NewAdminHandler_def simp del: DB_Create.simps)
qed

lemma update_rule_sound:
  assumes "sound_app app" "encodes (we_marshal w)" "DB_Update (we_now w) (ap_RuleDB app) (Some req) = (res, db)"
  shows "\<exists>app1. sv_UpdateRule (app_services w) (Some req) app = (res, app1) \<and> sound_app app1 \<and> ap_RuleDB app1 = db"
proof -
  have "db_inv db" using DB_Update_inv [of "ap_RuleDB app" "we_now w" "Some req"] assms(1,3) by (simp add: sound_app_def)
  from write_sound [OF assms(1,2) this, of "we_now w" res] assms(3) show ?thesis
    by (auto simp: app_services_def admin_handler_def NewAdminHandler_def simp del: DB_Update.simps)
qed

lemma update_op_sound:
  assumes "sound_app app" "DB_Update (we_now w) (ap_RuleDB app) (Some req) = (res, db)"
  shows "update_op req w app = Some (res, app\<lparr>ap_RuleDB := db\<rparr>) \<and> sound_app (app\<lparr>ap_RuleDB := db\<rparr>)"
proof -
  have "db_inv db" using DB_Update_inv [of "ap_RuleDB app" "we_now w" "Some req"] assms by (simp add: sound_app_def)
  then show ?thesis using assms sound_db by (simp add: update_op_def del: DB_Update.simps)
qed

text \<open>A rule of the database under its own key.\<close>

definition keeps :: "InMemoryRuleDB \<Rightarrow> Rule \<Rightarrow> bool" where
  "keeps db rule \<longleftrightarrow> gm_get (db_rules db) (ruleKey (ru_TenantID rule) (ru_Resource rule)) = Some rule"

definition free :: "InMemoryRuleDB \<Rightarrow> string \<Rightarrow> string \<Rightarrow> bool" where
  "free db t r \<longleftrightarrow> gm_get (db_rules db) (ruleKey t r) = None"

lemma chaos_create:
  assumes "free db t r" "t \<noteq> []" "r \<noteq> []" "0 < n"
  shows "DB_Create sha now db (Some (chaos_rule t r n)) =
     (Inr (rule_of_create (chaos_rule t r n) now),
      db\<lparr>db_rules := gm_put (ruleKey t r) (rule_of_create (chaos_rule t r n) now) (db_rules db)\<rparr>)"
  using assms by (simp add: free_def chaos_rule_def Let_def)

lemma raised_update:
  assumes "keeps db rule" "ru_TenantID rule \<noteq> []" "ru_Resource rule \<noteq> []" "0 < wrap64 (ru_Limit rule + n)"
  shows "DB_Update now db (Some (raised n rule)) =
     (Inr (rule_of_update (raised n rule) rule now),
      db\<lparr>db_rules := gm_put (ruleKey (ru_TenantID rule) (ru_Resource rule)) (rule_of_update (raised n rule) rule now) (db_rules db)\<rparr>)"
  using assms by (simp add: keeps_def raised_def Let_def)

lemma answers_backend:
  assumes "answers env be h req resp be'" "be_fallback be \<noteq> None"
  shows "be_mode be' = be_mode be" "be_redis be \<noteq> None \<Longrightarrow> be_redis be' \<noteq> None"
proof -
  have "be_mode be' = be_mode be \<and> (be_redis be \<noteq> None \<longrightarrow> be_redis be' \<noteq> None)"
  proof (cases "RuleCache_Get (the (h_rules h)) (cr_TenantID req) (cr_Resource req)")
    case None
    with assms(1) show ?thesis by (simp add: answers_def)
  next
    case (Some rule)
    with assms(1) obtain res p be1 where a: "Acquire (h_pool_rules h) (Some be) (h_pool h) (cr_TenantID req) (cr_Resource req) = Some (res, p, Some be1)"
      "be' = be1 \<or> (\<exists>rl key d e. redisLimiter_Allow (rv_su env) (rv_clocks env) be1 (Some rl) key (cr_Cost req) = ((Some d, e), be'))"
      by (auto simp: answers_def split: option.splits prod.splits sum.splits)
    from Acquire_backend [OF a(1)] assms(2) obtain fl where
      b: "be_fallback be1 = Some fl" "be_redis be1 = be_redis be" "be_mode be1 = be_mode be" by auto
    from a(2) show ?thesis
    proof
      assume "\<exists>rl key d e. redisLimiter_Allow (rv_su env) (rv_clocks env) be1 (Some rl) key (cr_Cost req) = ((Some d, e), be')"
      then obtain rl key d e where r: "redisLimiter_Allow (rv_su env) (rv_clocks env) be1 (Some rl) key (cr_Cost req) = ((Some d, e), be')" by blast
      from Allow_outcome [OF b(1) r] b show ?thesis by (auto simp: from_store_def from_fallback_def)
    qed (use b in simp)
  qed
  then show "be_mode be' = be_mode be" "be_redis be \<noteq> None \<Longrightarrow> be_redis be' \<noteq> None" by blast+
qed

lemma chaos_request_valid: "valid_request (Some chaos_request) = None"
  by (simp add: valid_request_def chaos_request_def)

lemma check_sound:
  assumes "sound_app app"
  shows "\<exists>resp app1. sv_CheckLimit (app_services w) (Some chaos_request) app = Some (Inr resp, app1)
     \<and> sound_app app1 \<and> ap_RuleDB app1 = ap_RuleDB app"
proof -
  let ?env = "(we_check w)\<lparr>rv_su := app_surroundings app\<rparr>"
  let ?h = "rate_handler app" and ?be = "ap_LimiterFactory app"
  have sv: "serving ?h ?be" using assms by (simp add: sound_app_def app_serving_def)
  from CheckLimit_serves [OF sv chaos_request_valid, of ?env] obtain resp h' be' where
    c: "CheckLimit ?env ?be (Some ?h) (Some chaos_request) = Some (Inr resp, Some h', be')" "serving h' be'" "kept ?h h'"
      "h_inflight h' = h_inflight ?h"
      "answers ?env ?be (?h\<lparr>h_inflight := snd (InFlight_Begin (h_inflight ?h))\<rparr>) chaos_request resp be'" by blast
  have "be_fallback ?be \<noteq> None" using sv by (simp add: serving_def equipped_def)
  note b = answers_backend [OF c(5) this]
  let ?app1 = "put_rate h' be' app"
  have "ap_inflight ?app1 = ap_inflight app" using c(4) by (simp add: put_rate_def rate_handler_def)
  moreover have "ap_LimiterFactory ?app1 = be'" "ap_RuleDB ?app1 = ap_RuleDB app" by (simp_all add: put_rate_def)
  ultimately have "sound_app ?app1" "ap_RuleDB ?app1 = ap_RuleDB app"
    using put_rate_serving [OF c(3,2)] assms b by (simp_all add: sound_app_def)
  then show ?thesis using c(1) by (simp add: app_services_def)
qed

lemma release_sound:
  assumes "sound_app app"
  shows "sound_app (release_resp resp app)"
proof -
  have "h_respPool (ap_RateLimitHandler app) \<noteq> None"
    using assms by (simp add: sound_app_def app_serving_def serving_def equipped_def ready_def rate_handler_def)
  moreover have "ResponsePool_Put (Some rp) r \<noteq> None" for rp r by (cases r) simp_all
  ultimately show ?thesis
    using assms by (auto simp: sound_app_def app_serving_def serving_def equipped_def ready_def small_counts_def rate_handler_def
      release_resp_def ReleaseResponse_def)
qed

lemma redis_checks_sound:
  assumes "sound h"
  shows "\<exists>h1. redis_checks env i n h = Some (None, h1) \<and> sound h1 \<and> hdb h1 = hdb h"
  using assms
proof (induction n arbitrary: i h)
  case (Suc n)
  have "\<exists>r h1. act env i (\<lambda>w. sv_CheckLimit (app_services w) (Some chaos_request)) h = Some (r, h1) \<and> sound h1
      \<and> (isl r = False \<and> hdb h1 = hdb h)"
    by (rule act_sound [OF Suc.prems]) (use check_sound in fastforce)
  then obtain resp h1 where a: "act env i (\<lambda>w. sv_CheckLimit (app_services w) (Some chaos_request)) h = Some (Inr resp, h1)"
    "sound h1" "hdb h1 = hdb h" by (metis sum.collapse(2))
  have "ap_RuleDB (release_resp resp app) = ap_RuleDB app" for app by (simp add: release_resp_def)
  with on_app_sound [OF a(2), of "release_resp resp", OF release_sound] have
    "sound (on_app (release_resp resp) h1)" "hdb (on_app (release_resp resp) h1) = hdb h1" by (simp_all add: hdb_def)
  with Suc.IH [of "on_app (release_resp resp) h1" "Suc i"] a show ?case by simp
qed simp

section \<open>Waits end\<close>

text \<open>A wait whose ticks come until one of the rounds before it does what is needed.\<close>

fun served :: "(activity list \<Rightarrow> bool) \<Rightarrow> waits \<Rightarrow> bool" where
  "served good [] = False"
| "served good ((as, ev) # ws) = (ev = Tick \<and> (good as \<or> served good ws))"

lemma poll_ends:
  assumes "sound h" "hredis h = r" "served good ws"
    and "\<And>h as h1. sound h \<Longrightarrow> hredis h = r \<Longrightarrow> good as \<Longrightarrow> meanwhile unmarshal as h = Some h1 \<Longrightarrow> cond (the (ch_App h1))"
  shows "\<exists>h1. poll unmarshal cond expired ws h = Some (None, h1) \<and> sound h1 \<and> hdb h1 = hdb h \<and> cond (the (ch_App h1))"
  using assms(1-3)
proof (induction ws arbitrary: h)
  case (Cons w ws)
  obtain as ev where w: "w = (as, ev)" by (cases w)
  from Cons.prems(1) obtain app where app: "ch_App h = Some app" by (rule soundE)
  from meanwhile_sound [OF Cons.prems(1), of unmarshal as] obtain h1 where
    m: "meanwhile unmarshal as h = Some h1" "sound h1" "hdb h1 = hdb h" "hredis h1 = hredis h" by blast
  show ?case
  proof (cases "cond app")
    case True
    with app w Cons.prems(1) show ?thesis by simp
  next
    case False
    have "\<exists>h2. poll unmarshal cond expired ws h1 = Some (None, h2) \<and> sound h2 \<and> hdb h2 = hdb h1 \<and> cond (the (ch_App h2))"
    proof (cases "good as")
      case True
      from m(2) obtain app1 where a1: "ch_App h1 = Some app1" by (rule soundE)
      have "cond app1" using assms(4) [OF Cons.prems(1,2) True m(1)] a1 by simp
      then have "poll unmarshal cond expired ws h1 = Some (None, h1)" using a1 by (cases ws) auto
      with m(2) a1 \<open>cond app1\<close> show ?thesis by simp
    next
      case False
      with Cons.prems(3) w have "served good ws" by simp
      with Cons.IH [OF m(2)] m(4) Cons.prems(2) show ?thesis by simp
    qed
    moreover have "ev = Tick" using Cons.prems(3) w by simp
    ultimately show ?thesis using False app w m by simp
  qed
qed simp

definition clocked :: "activity \<Rightarrow> bool" where
  "clocked a = (case a of HealthTick t \<Rightarrow> int64_nanos t | _ \<Rightarrow> True)"

definition is_health :: "activity \<Rightarrow> bool" where
  "is_health a = (case a of HealthTick t \<Rightarrow> True | _ \<Rightarrow> False)"

definition is_deliver :: "activity \<Rightarrow> bool" where
  "is_deliver a = (case a of DeliverStep n \<Rightarrow> True | _ \<Rightarrow> False)"

definition checked_health :: "activity list \<Rightarrow> bool" where
  "checked_health as \<longleftrightarrow> list_ex is_health as \<and> list_all clocked as"

fun synced :: "activity list \<Rightarrow> bool" where
  "synced [] = False"
| "synced (a # as) = (a = SyncTick \<and> \<not> list_ex is_deliver as \<or> synced as)"

definition normal :: "ChaosHarness \<Rightarrow> bool" where
  "normal h \<longleftrightarrow> App_Mode (ch_App h) = ModeNormal"

lemma background_mode:
  assumes "sound h" "hredis h = Some r" "rd_healthy r" "clocked a" "background unmarshal a h = Some h1" "is_health a \<or> normal h"
  shows "normal h1"
proof -
  from assms(1) obtain app where app: "ch_App h = Some app" "sound_app app" "hredis h = be_redis (ap_LimiterFactory app)" by (rule soundE)
  show ?thesis
  proof (cases a)
    case (HealthTick now)
    from app(2) obtain dc where dc: "be_mode (ap_LimiterFactory app) = Some dc" "0 < dt_RedisUnhealthyFor (dc_thresholds dc)"
      by (auto simp: sound_app_def)
    have n: "int64_nanos now" using assms(4) HealthTick by (simp add: clocked_def)
    let ?m = "Some (static_view (Some (ap_membership app)))"
    obtain dc' logs where u: "Degrade_Update now (Some True) ?m (Some dc) = (dc', logs)" by fastforce
    from degrade_recovers [OF n dc(2) u] have "Mode dc' = ModeNormal" by simp
    moreover from Degrade_Update_some [of now "Some True" ?m dc] u obtain d where "dc' = Some d" by auto
    moreover have "be_redis (ap_LimiterFactory app) = Some r" using app(3) assms(2) by simp
    ultimately have "App_Mode (Some (health_step now app)) = ModeNormal"
      using u dc(1) assms(3) by (simp add: health_step_def HealthLoop_tick_def del: Degrade_Update.simps)
    then show ?thesis using HealthTick assms(5) app(1) by (auto simp: normal_def on_app_def)
  next
    case (DeliverStep n)
    with assms(5,6) app handled_sound [OF app(2), of unmarshal "dl_data (ch_flight h ! n)"] show ?thesis
      by (auto simp: normal_def is_health_def split: if_splits)
  qed (use assms(5,6) app in \<open>auto simp: normal_def is_health_def on_app_def split: prod.splits if_splits\<close>)
qed

lemma meanwhile_mode:
  assumes "sound h" "hredis h = Some r" "rd_healthy r" "list_all clocked as" "meanwhile unmarshal as h = Some h1"
    "list_ex is_health as \<or> normal h"
  shows "normal h1"
  using assms
proof (induction as arbitrary: h)
  case (Cons a as)
  from background_sound [OF Cons.prems(1), of unmarshal a] obtain h2 where
    b: "background unmarshal a h = Some h2" "sound h2" "hredis h2 = hredis h" by blast
  have "normal h2" if "is_health a \<or> normal h"
    using background_mode [OF Cons.prems(1-3) _ b(1) that] Cons.prems(4) by simp
  with Cons.IH [OF b(2)] b Cons.prems show ?case by auto
qed simp

definition agrees :: "ChaosHarness \<Rightarrow> bool" where
  "agrees h \<longleftrightarrow> rc_abs (ap_RuleCache (the (ch_App h))) = db_abs (hdb h)"

lemma background_agrees:
  assumes "sound h" "background unmarshal a h = Some h1" "a = SyncTick \<or> \<not> is_deliver a \<and> agrees h"
  shows "agrees h1"
proof -
  from assms(1) obtain app where app: "ch_App h = Some app" "sound_app app" "hdb h = ap_RuleDB app" by (rule soundE)
  have "db_inv (ap_RuleDB app)" using app(2) by (simp add: sound_app_def)
  note s = sync_refines(2) [OF this]
  show ?thesis
    using assms(2,3) app(1) s
    by (cases a) (auto simp: agrees_def hdb_def is_deliver_def on_app_def health_step_def split: prod.splits if_splits)
qed

lemma meanwhile_agrees:
  assumes "sound h" "meanwhile unmarshal as h = Some h1" "synced as \<or> \<not> list_ex is_deliver as \<and> agrees h"
  shows "agrees h1"
  using assms
proof (induction as arbitrary: h)
  case (Cons a as)
  from background_sound [OF Cons.prems(1), of unmarshal a] obtain h2 where
    b: "background unmarshal a h = Some h2" "sound h2" by blast
  have "agrees h2" if "a = SyncTick \<or> \<not> is_deliver a \<and> agrees h" using background_agrees [OF Cons.prems(1) b(1) that] .
  with Cons.IH [OF b(2)] b Cons.prems show ?case by auto
qed simp

lemma agrees_matches:
  assumes "sound h" "agrees h"
  shows "ruleCacheMatches (Some (ap_RuleCache (the (ch_App h)))) (Some (ap_RuleDB (the (ch_App h))))"
proof -
  from assms(1) obtain app where app: "ch_App h = Some app" "sound_app app" "hdb h = ap_RuleDB app" by (rule soundE)
  let ?db = "ap_RuleDB app"
  have i: "db_inv ?db" using app(2) by (simp add: sound_app_def)
  then have wf: "gm_wf (db_rules ?db)" by (simp add: db_inv_def)
  have "RuleCache_Get (ap_RuleCache app) (ru_TenantID x) (ru_Resource x) = Some x" if "x \<in> set (gm_vals (db_rules ?db))" for x
  proof -
    from that obtain key where "gm_get (db_rules ?db) key = Some x" using gm_in_set [OF wf] by fastforce
    from stored_own(2) [OF i this] assms(2) app show ?thesis by (simp add: agrees_def rc_abs_def rule_key_def fun_eq_iff)
  qed
  then show ?thesis using app(1) by (auto simp: ruleCacheMatches_def DB_LoadAll_def list_all_iff)
qed

lemma waitForMode_ends:
  assumes "sound h" "hredis h = Some r" "rd_healthy r" "served checked_health ws"
  shows "\<exists>h1. waitForMode unmarshal ws ModeNormal h = Some (None, h1) \<and> sound h1 \<and> hdb h1 = hdb h"
proof -
  from assms(1) obtain app where app: "ch_App h = Some app" by (rule soundE)
  have step: "App_Mode (Some (the (ch_App h1))) = ModeNormal"
    if s: "sound h" "hredis h = Some r" "checked_health as" "meanwhile unmarshal as h = Some h1" for h as h1
  proof -
    from meanwhile_sound [OF s(1), of unmarshal as] s(4) have "sound h1" by simp
    then obtain app1 where "ch_App h1 = Some app1" by (rule soundE)
    moreover have "normal h1" by (rule meanwhile_mode [OF s(1,2) assms(3) _ s(4)]) (use s(3) in \<open>auto simp: checked_health_def\<close>)
    ultimately show ?thesis by (simp add: normal_def)
  qed
  have "\<exists>h1. poll unmarshal (\<lambda>app. App_Mode (Some app) = ModeNormal) (ErrorString ''mode did not recover'') ws h = Some (None, h1)
      \<and> sound h1 \<and> hdb h1 = hdb h \<and> App_Mode (Some (the (ch_App h1))) = ModeNormal"
    by (rule poll_ends [OF assms(1,2,4)]) (rule step)
  then show ?thesis using app by (simp add: waitForMode_def del: App_Mode.simps) blast
qed

lemma waitForRuleCache_ends:
  assumes "sound h" "served synced ws"
  shows "\<exists>h1. waitForRuleCache unmarshal ws h = Some (None, h1) \<and> sound h1 \<and> hdb h1 = hdb h
     \<and> ruleCacheMatches (Some (ap_RuleCache (the (ch_App h1)))) (Some (hdb h1))"
proof -
  from assms(1) obtain app where app: "ch_App h = Some app" "ch_RuleDB h \<noteq> None" by (rule soundE)
  let ?cond = "\<lambda>app. ruleCacheMatches (Some (ap_RuleCache app)) (Some (ap_RuleDB app))"
  have step: "?cond (the (ch_App h1))"
    if s: "sound h" "synced as" "meanwhile unmarshal as h = Some h1" for h as h1
    using meanwhile_sound [OF s(1), of unmarshal as] s(3) meanwhile_agrees [OF s(1,3)] s(2) agrees_matches [of h1] by simp
  have "\<exists>h1. poll unmarshal ?cond (ErrorString ''rule cache did not converge'') ws h = Some (None, h1)
      \<and> sound h1 \<and> hdb h1 = hdb h \<and> ?cond (the (ch_App h1))"
    by (rule poll_ends [OF assms(1) refl assms(2)]) (rule step)
  then show ?thesis using app by (auto simp: waitForRuleCache_def hdb_def)
qed

section \<open>The scenarios\<close>

definition env_ok :: "(activity list \<Rightarrow> bool) \<Rightarrow> chaos_env \<Rightarrow> bool" where
  "env_ok good env \<longleftrightarrow> served good (ce_wait env) \<and> (\<forall>i. encodes (we_marshal (ce_weather env i)))"

abbreviation stored_at :: "ChaosHarness \<Rightarrow> string \<Rightarrow> Rule option" where
  "stored_at h key \<equiv> gm_get (db_rules (hdb h)) key"

definition fresh_rule :: "string \<Rightarrow> string \<Rightarrow> int64 \<Rightarrow> Rule \<Rightarrow> bool" where
  "fresh_rule t r n rule \<longleftrightarrow> ru_TenantID rule = t \<and> ru_Resource rule = r \<and> ru_Limit rule = n \<and> ru_Version rule = 1"

lemma create_fresh:
  assumes "sound h" "env_ok good env" "stored_at h (ruleKey t r) = None" "t \<noteq> []" "r \<noteq> []" "0 < n"
  shows "\<exists>rule h1. act env i (create_op (chaos_rule t r n)) h = Some (Inr rule, h1) \<and> sound h1 \<and> fresh_rule t r n rule
     \<and> (\<forall>key. stored_at h1 key = (if key = ruleKey t r then Some rule else stored_at h key))"
proof -
  let ?w = "ce_weather env i"
  let ?rule = "rule_of_create (chaos_rule t r n) (we_now ?w)"
  let ?db = "(hdb h)\<lparr>db_rules := gm_put (ruleKey t r) ?rule (db_rules (hdb h))\<rparr>"
  have e: "encodes (we_marshal ?w)" using assms(2) by (simp add: env_ok_def)
  have c: "DB_Create (we_sha256 ?w) (we_now ?w) (hdb h) (Some (chaos_rule t r n)) = (Inr ?rule, ?db)"
    by (rule chaos_create) (use assms(3-6) in \<open>simp_all add: free_def\<close>)
  have "\<exists>res h1. act env i (create_op (chaos_rule t r n)) h = Some (res, h1) \<and> sound h1 \<and> (res = Inr ?rule \<and> hdb h1 = ?db)"
  proof (rule act_sound [OF assms(1)])
    fix app assume a: "sound_app app" "ap_RuleDB app = hdb h"
    with c have "DB_Create (we_sha256 ?w) (we_now ?w) (ap_RuleDB app) (Some (chaos_rule t r n)) = (Inr ?rule, ?db)" by simp
    from create_op_sound [OF a(1) e this]
    show "\<exists>res app1. create_op (chaos_rule t r n) ?w app = Some (res, app1) \<and> sound_app app1 \<and> (res = Inr ?rule \<and> ap_RuleDB app1 = ?db)"
      by blast
  qed
  moreover have "fresh_rule t r n ?rule" by (simp add: fresh_rule_def rule_of_create_def chaos_rule_def)
  ultimately show ?thesis by auto
qed

lemma ensureRule_sound:
  assumes "sound h" "env_ok good env" "t \<noteq> []" "r \<noteq> []"
  shows "\<exists>h1. ensureRule env i t r h = Some (None, h1) \<and> sound h1 \<and> (\<forall>key. key \<noteq> ruleKey t r \<longrightarrow> stored_at h1 key = stored_at h key)
     \<and> (stored_at h (ruleKey t r) = None \<longrightarrow> (\<exists>rule. stored_at h1 (ruleKey t r) = Some rule \<and> fresh_rule t r 100 rule))"
proof -
  from assms(1) obtain app where app: "ch_App h = Some app" by (rule soundE)
  show ?thesis
  proof (cases "stored_at h (ruleKey t r)")
    case None
    from create_fresh [OF assms(1,2) None assms(3,4), of 100 i] app show ?thesis by (auto simp: ensureRule_def)
  next
    case (Some rule)
    let ?w = "ce_weather env i"
    have e: "encodes (we_marshal ?w)" using assms(2) by (simp add: env_ok_def)
    have "DB_Create (we_sha256 ?w) (we_now ?w) (hdb h) (Some (chaos_rule t r 100)) = (Inl ErrConflict, hdb h)"
      using Some assms(3,4) by (simp add: chaos_rule_def Let_def)
    then have "\<exists>res h1. act env i (create_op (chaos_rule t r 100)) h = Some (res, h1) \<and> sound h1 \<and> (res = Inl ErrConflict \<and> hdb h1 = hdb h)"
      by (intro act_sound [OF assms(1)]) (metis create_op_sound e)
    then show ?thesis using app Some by (auto simp: ensureRule_def ErrConflict_def)
  qed
qed

lemma set_redis_sound: "sound_app app \<Longrightarrow> sound_app (set_redis v app)"
  unfolding set_redis_def by (auto simp: sound_app_def [of app] intro!: sound_backend)

lemma set_membership_sound: "sound_app app \<Longrightarrow> sound_app (set_membership v app)"
  by (simp add: set_membership_def)

lemma redis_recovers:
  assumes "sound h" "env_ok checked_health env"
  shows "\<exists>h1. scenarioRedisRecover env (Some h) = Some (None, Some h1) \<and> sound h1
     \<and> (\<forall>key. key \<noteq> ruleKey ''tenant'' ''resource'' \<longrightarrow> stored_at h1 key = stored_at h key)"
proof -
  define h0 where "h0 = (if ch_Membership h \<noteq> None then on_app (set_membership True) h else h)"
  have "hdb (on_app (set_membership True) h) = hdb h"
    using on_app_sound(2) [OF assms(1), of "set_membership True", OF set_membership_sound] by (simp add: set_membership_def hdb_def)
  then have h0: "sound h0" "hdb h0 = hdb h"
    using on_app_sound(1) [OF assms(1), of "set_membership True", OF set_membership_sound] assms(1) by (simp_all add: h0_def)
  from ensureRule_sound [OF h0(1) assms(2), of "''tenant''" "''resource''" 0] obtain h1 where
    e: "ensureRule env 0 ''tenant'' ''resource'' h0 = Some (None, h1)" "sound h1"
      "\<forall>key. key \<noteq> ruleKey ''tenant'' ''resource'' \<longrightarrow> stored_at h1 key = stored_at h0 key" by auto
  have db: "hdb (on_app (set_redis v) g) = hdb g" "sound (on_app (set_redis v) g)" if "sound g" for v g
    using on_app_sound [OF that, of "set_redis v", OF set_redis_sound] by (simp_all add: set_redis_def hdb_def)
  from redis_checks_sound [OF db(2) [OF e(2)], of env 1 50 False] obtain h2 where
    c: "redis_checks env 1 50 (on_app (set_redis False) h1) = Some (None, h2)" "sound h2" "hdb h2 = hdb h1" using db(1) [OF e(2)] by auto
  let ?h3 = "on_app (set_redis True) h2"
  from c(2) obtain app where app: "ch_App h2 = Some app" "sound_app app" by (rule soundE)
  then obtain r where "be_redis (ap_LimiterFactory app) = Some r" by (auto simp: sound_app_def)
  with app have r: "hredis ?h3 = Some (r\<lparr>rd_healthy := True\<rparr>)" by (simp add: hredis_def on_app_def set_redis_def)
  have "served checked_health (ce_wait env)" using assms(2) by (simp add: env_ok_def)
  from waitForMode_ends [OF db(2) [OF c(2)] r _ this, of "ce_unmarshal env"] obtain h4 where
    w: "waitForMode (ce_unmarshal env) (ce_wait env) ModeNormal ?h3 = Some (None, h4)" "sound h4" "hdb h4 = hdb h2"
    using db(1) [OF c(2)] by auto
  from assms(1) have "ch_App h \<noteq> None" "ch_Redis h \<noteq> None" by (auto simp: sound_def)
  then have "scenarioRedisRecover env (Some h) = Some (None, Some h4)"
    unfolding scenarioRedisRecover_def option.case Let_def h0_def [symmetric] using e(1) c(1) w(1) by simp
  with e(3) c(3) w h0(2) show ?thesis by simp
qed

text \<open>The storm: rule \<open>i\<close> of the twenty is under its key with a version and a limit.\<close>

definition storm_tenant :: "nat \<Rightarrow> string" where
  "storm_tenant i = cq_TenantID (storm_request i)"

definition storm_resource :: "nat \<Rightarrow> string" where
  "storm_resource i = cq_Resource (storm_request i)"

definition storm_key :: "nat \<Rightarrow> string" where
  "storm_key i = ruleKey (storm_tenant i) (storm_resource i)"

definition storm_rule :: "int64 \<Rightarrow> nat \<Rightarrow> Rule \<Rightarrow> bool" where
  "storm_rule n i rule \<longleftrightarrow> ru_TenantID rule = storm_tenant i \<and> ru_Resource rule = storm_resource i
     \<and> ru_Version rule = 1 + n \<and> ru_Limit rule = 100 + int i + n"

definition tracked :: "ChaosHarness \<Rightarrow> int64 \<Rightarrow> nat \<Rightarrow> Rule \<Rightarrow> bool" where
  "tracked h n i rule \<longleftrightarrow> stored_at h (storm_key i) = Some rule \<and> storm_rule n i rule"

lemma storm_request_rule: "storm_request i = chaos_rule (storm_tenant i) (storm_resource i) (100 + int i)"
  by (simp add: storm_tenant_def storm_resource_def storm_request_def chaos_rule_def)

lemma storm_names: "storm_tenant i = ''tenant_'' @ FormatInt (int (i mod 5))" "storm_resource i = ''resource_'' @ FormatInt (int i)"
  by (simp_all add: storm_tenant_def storm_resource_def storm_request_def chaos_rule_def)

lemma storm_key_inj: "storm_key i = storm_key j \<longleftrightarrow> i = j"
proof -
  have "sep \<notin> set (storm_tenant k)" for k using FormatInt_no_sep by (simp add: storm_names sep_def)
  then show ?thesis by (auto simp: storm_key_def ruleKey_inj storm_names FormatInt_inj)
qed

lemma storm_creates_sound:
  assumes "sound h" "env_ok good env" "distinct (js @ is)" "list_all2 (tracked h 0) js rules"
    "\<forall>i \<in> set is. stored_at h (storm_key i) = None"
  shows "\<exists>rules1 h1. storm_creates env is rules h = Some (Inr rules1, h1) \<and> sound h1 \<and> list_all2 (tracked h1 0) (js @ is) rules1
     \<and> (\<forall>key. key \<notin> storm_key ` set is \<longrightarrow> stored_at h1 key = stored_at h key)"
  using assms
proof (induction "is" arbitrary: js rules h)
  case (Cons i "is")
  from create_fresh [OF Cons.prems(1,2), of "storm_tenant i" "storm_resource i" "100 + int i" i] Cons.prems(5) obtain rule h1 where
    a: "act env i (create_op (storm_request i)) h = Some (Inr rule, h1)" "sound h1" "storm_rule 0 i rule"
      "\<forall>key. stored_at h1 key = (if key = storm_key i then Some rule else stored_at h key)"
    by (auto simp: storm_key_def storm_names storm_request_rule [unfolded storm_names] fresh_rule_def storm_rule_def)
  have "list_all2 (tracked h1 0) js rules"
    by (rule list.rel_mono_strong [OF Cons.prems(4)]) (use a(4) Cons.prems(3) in \<open>auto simp: tracked_def storm_key_inj\<close>)
  moreover have "tracked h1 0 i rule" using a(3,4) by (simp add: tracked_def)
  ultimately have "list_all2 (tracked h1 0) (js @ [i]) (rules @ [rule])" by (simp add: list_all2_appendI)
  moreover have "\<forall>j \<in> set is. stored_at h1 (storm_key j) = None" using Cons.prems(3,5) a(4) by (auto simp: storm_key_inj)
  ultimately obtain rules1 h2 where "storm_creates env is (rules @ [rule]) h1 = Some (Inr rules1, h2)" "sound h2"
    "list_all2 (tracked h2 0) ((js @ [i]) @ is) rules1" "\<forall>key. key \<notin> storm_key ` set is \<longrightarrow> stored_at h2 key = stored_at h1 key"
    using Cons.IH [OF a(2) Cons.prems(2), of "js @ [i]" "rules @ [rule]"] Cons.prems(3) by auto
  then show ?case using a(1,4) by auto
qed simp

lemma raise_tracked:
  assumes "sound h" "env_ok good env" "tracked h n i rule" "0 \<le> n" "n < 100" "i < 20"
  shows "\<exists>rule1 h1. act env k (\<lambda>w app. Some (sv_UpdateRule (app_services w) (Some (raised 1 rule)) app)) h = Some (Inr rule1, h1)
     \<and> sound h1 \<and> storm_rule (n + 1) i rule1
     \<and> (\<forall>key. stored_at h1 key = (if key = storm_key i then Some rule1 else stored_at h key))"
proof -
  let ?w = "ce_weather env k"
  let ?rule = "rule_of_update (raised 1 rule) rule (we_now ?w)"
  let ?db = "(hdb h)\<lparr>db_rules := gm_put (storm_key i) ?rule (db_rules (hdb h))\<rparr>"
  have e: "encodes (we_marshal ?w)" using assms(2) by (simp add: env_ok_def)
  have t: "ru_TenantID rule = storm_tenant i" "ru_Resource rule = storm_resource i" "ru_Version rule = 1 + n"
    "ru_Limit rule = 100 + int i + n" "stored_at h (storm_key i) = Some rule"
    using assms(3) by (simp_all add: tracked_def storm_rule_def)
  have wr: "wrap64 (101 + int i + n) = 101 + int i + n" "wrap64 (2 + n) = 2 + n" using assms(4-6) by (auto simp: wrap64_def)
  have u: "DB_Update (we_now ?w) (hdb h) (Some (raised 1 rule)) = (Inr ?rule, ?db)"
    using raised_update [of "hdb h" rule 1 "we_now ?w"] t wr assms(4) by (simp add: keeps_def storm_key_def storm_names algebra_simps)
  have "\<exists>res h1. act env k (\<lambda>w app. Some (sv_UpdateRule (app_services w) (Some (raised 1 rule)) app)) h = Some (res, h1)
      \<and> sound h1 \<and> (res = Inr ?rule \<and> hdb h1 = ?db)"
  proof (rule act_sound [OF assms(1)])
    fix app assume a: "sound_app app" "ap_RuleDB app = hdb h"
    with u have "DB_Update (we_now ?w) (ap_RuleDB app) (Some (raised 1 rule)) = (Inr ?rule, ?db)" by simp
    from update_rule_sound [OF a(1) e this]
    show "\<exists>res app1. Some (sv_UpdateRule (app_services ?w) (Some (raised 1 rule)) app) = Some (res, app1) \<and> sound_app app1
      \<and> (res = Inr ?rule \<and> ap_RuleDB app1 = ?db)" by auto
  qed
  moreover have "storm_rule (n + 1) i ?rule" using t wr by (simp add: storm_rule_def rule_of_update_def raised_def algebra_simps)
  ultimately show ?thesis by auto
qed

lemma storm_round_sound:
  assumes "sound h" "env_ok good env" "list_all2 (tracked h n) is rules" "distinct is" "0 \<le> n" "n < 100" "list_all (\<lambda>i. i < 20) is"
  shows "\<exists>rules1 h1. storm_round env k rules h = Some (Inr rules1, h1) \<and> sound h1 \<and> list_all2 (tracked h1 (n + 1)) is rules1
     \<and> (\<forall>key. key \<notin> storm_key ` set is \<longrightarrow> stored_at h1 key = stored_at h key)"
  using assms
proof (induction "is" arbitrary: rules h k)
  case (Cons i "is")
  from Cons.prems(3) obtain rule rest where r: "rules = rule # rest" "tracked h n i rule" "list_all2 (tracked h n) is rest"
    by (cases rules) auto
  from raise_tracked [OF Cons.prems(1,2) r(2) Cons.prems(5,6), of k] Cons.prems(7) obtain rule1 h1 where
    a: "act env k (\<lambda>w app. Some (sv_UpdateRule (app_services w) (Some (raised 1 rule)) app)) h = Some (Inr rule1, h1)"
      "sound h1" "storm_rule (n + 1) i rule1"
      "\<forall>key. stored_at h1 key = (if key = storm_key i then Some rule1 else stored_at h key)" by auto
  have "list_all2 (tracked h1 n) is rest"
    by (rule list.rel_mono_strong [OF r(3)]) (use a(4) Cons.prems(4) in \<open>auto simp: tracked_def storm_key_inj\<close>)
  with Cons.IH [OF a(2) Cons.prems(2), of rest "Suc k"] Cons.prems(4-7) obtain rest1 h2 where
    b: "storm_round env (Suc k) rest h1 = Some (Inr rest1, h2)" "sound h2" "list_all2 (tracked h2 (n + 1)) is rest1"
      "\<forall>key. key \<notin> storm_key ` set is \<longrightarrow> stored_at h2 key = stored_at h1 key" by auto
  have "storm_key i \<notin> storm_key ` set is" using Cons.prems(4) by (auto simp: storm_key_inj)
  with a(3,4) b(4) have "tracked h2 (n + 1) i rule1" by (simp add: tracked_def)
  with a b r(1) show ?case by auto
qed simp

lemma storm_rounds_sound:
  assumes "sound h" "env_ok good env" "list_all2 (tracked h n) is rules" "distinct is" "0 \<le> n" "n + int m \<le> 100"
    "list_all (\<lambda>i. i < 20) is"
  shows "\<exists>rules1 h1. storm_rounds env k m rules h = Some (Inr rules1, h1) \<and> sound h1 \<and> list_all2 (tracked h1 (n + int m)) is rules1
     \<and> (\<forall>key. key \<notin> storm_key ` set is \<longrightarrow> stored_at h1 key = stored_at h key)"
  using assms
proof (induction m arbitrary: rules h k n)
  case (Suc m)
  from storm_round_sound [OF Suc.prems(1-5) _ Suc.prems(7), of k] Suc.prems(6) obtain rules1 h1 where
    a: "storm_round env k rules h = Some (Inr rules1, h1)" "sound h1" "list_all2 (tracked h1 (n + 1)) is rules1"
      "\<forall>key. key \<notin> storm_key ` set is \<longrightarrow> stored_at h1 key = stored_at h key" by auto
  from Suc.IH [OF a(2) Suc.prems(2) a(3) Suc.prems(4) _ _ Suc.prems(7), of "k + length rules"] Suc.prems(5,6) obtain rules2 h2 where
    "storm_rounds env (k + length rules) m rules1 h1 = Some (Inr rules2, h2)" "sound h2" "list_all2 (tracked h2 (n + 1 + int m)) is rules2"
      "\<forall>key. key \<notin> storm_key ` set is \<longrightarrow> stored_at h2 key = stored_at h1 key" by auto
  with a show ?case by (auto simp: algebra_simps)
qed auto

lemma storm_converges:
  assumes "sound h" "env_ok synced env" "\<forall>i<20. stored_at h (storm_key i) = None"
  shows "\<exists>h1 rules. scenarioRuleUpdateStorm env (Some h) = Some (None, Some h1) \<and> sound h1 \<and> list_all2 (tracked h1 5) [0..<20] rules
     \<and> (\<forall>key. key \<notin> storm_key ` {..<20} \<longrightarrow> stored_at h1 key = stored_at h key)"
proof -
  from storm_creates_sound [OF assms(1,2), of "[]" "[0..<20]" "[]"] assms(3) obtain rules h1 where
    a: "storm_creates env [0..<20] [] h = Some (Inr rules, h1)" "sound h1" "list_all2 (tracked h1 0) [0..<20] rules"
      "\<forall>key. key \<notin> storm_key ` set [0..<20] \<longrightarrow> stored_at h1 key = stored_at h key" by auto
  from storm_rounds_sound [OF a(2) assms(2) a(3), of 5 20] obtain rules1 h2 where
    b: "storm_rounds env 20 5 rules h1 = Some (Inr rules1, h2)" "sound h2" "list_all2 (tracked h2 5) [0..<20] rules1"
      "\<forall>key. key \<notin> storm_key ` set [0..<20] \<longrightarrow> stored_at h2 key = stored_at h1 key" by (auto simp: list_all_iff)
  have "served synced (ce_wait env)" using assms(2) by (simp add: env_ok_def)
  from waitForRuleCache_ends [OF b(2) this, of "ce_unmarshal env"] obtain h3 where
    c: "waitForRuleCache (ce_unmarshal env) (ce_wait env) h2 = Some (None, h3)" "sound h3" "hdb h3 = hdb h2" by blast
  have "ch_App h \<noteq> None" "ch_RuleDB h \<noteq> None" using assms(1) by (auto simp: sound_def)
  then have "scenarioRuleUpdateStorm env (Some h) = Some (None, Some h3)"
    unfolding scenarioRuleUpdateStorm_def option.case using a(1) b(1) c(1) by simp
  moreover have "list_all2 (tracked h3 5) [0..<20] rules1" using b(3) c(3) by (simp add: tracked_def [abs_def])
  ultimately show ?thesis using a(4) b(4) c(2,3) by (auto simp: lessThan_atLeast0)
qed

lemma set_drop_sound:
  assumes "sound h"
  shows "sound (set_drop v h)" "hdb (set_drop v h) = hdb h" "ch_App (set_drop v h) = ch_App h"
  using assms by (auto simp: sound_def set_drop_def SetDrop_def hdb_def)

lemma publish_dropped_sound:
  assumes "sound h"
  shows "sound (publish_dropped data h)" "hdb (publish_dropped data h) = hdb h"
  using assms by (auto simp: publish_dropped_def sound_def hdb_def split: sum.split)

text \<open>What the harness shows when the cache has caught up: every rule of the database is in the cache.\<close>

definition caught_up :: "ChaosHarness \<Rightarrow> bool" where
  "caught_up h \<longleftrightarrow> ruleCacheMatches (Some (ap_RuleCache (the (ch_App h)))) (Some (hdb h))"

lemma repair_rest_ends:
  assumes "sound h" "env_ok synced env"
  shows "\<exists>h1. repair_rest env updated h = Some (None, Some h1) \<and> sound h1 \<and> hdb h1 = hdb h \<and> caught_up h1"
proof -
  have "encodes (we_marshal (ce_weather env 3))" "served synced (ce_wait env)" using assms(2) by (simp_all add: env_ok_def)
  then obtain data where d: "we_marshal (ce_weather env 3) (upsert_event (we_now (ce_weather env 3)) updated) = Inr data"
    by (auto simp: encodes_def)
  note p = publish_dropped_sound [OF assms(1), of data]
  from waitForRuleCache_ends [OF p(1) \<open>served synced (ce_wait env)\<close>, of "ce_unmarshal env"] obtain h1 where
    w: "waitForRuleCache (ce_unmarshal env) (ce_wait env) (publish_dropped data h) = Some (None, h1)" "sound h1" "hdb h1 = hdb h"
      "ruleCacheMatches (Some (ap_RuleCache (the (ch_App h1)))) (Some (hdb h1))" using p(2) by auto
  with d set_drop_sound [OF w(2), of False] show ?thesis by (simp add: repair_rest_def caught_up_def)
qed

lemma repair_converges:
  assumes "sound h" "env_ok synced env" "stored_at h (ruleKey ''tenant_drop'' ''resource_drop'') = None"
  shows "\<exists>h1. scenarioPubSubRepair env (Some h) = Some (None, Some h1) \<and> sound h1 \<and> caught_up h1
     \<and> (\<forall>key. key \<noteq> ruleKey ''tenant_drop'' ''resource_drop'' \<longrightarrow> stored_at h1 key = stored_at h key)
     \<and> map_option ru_Limit (stored_at h1 (ruleKey ''tenant_drop'' ''resource_drop'')) = Some 105"
proof -
  let ?t = "''tenant_drop''" and ?r = "''resource_drop''" and ?w = "ce_weather env 2"
  from ensureRule_sound [OF assms(1,2), of ?t ?r 0] assms(3) obtain h1 current where
    e: "ensureRule env 0 ?t ?r h = Some (None, h1)" "sound h1" "\<forall>key. key \<noteq> ruleKey ?t ?r \<longrightarrow> stored_at h1 key = stored_at h key"
      "stored_at h1 (ruleKey ?t ?r) = Some current" "fresh_rule ?t ?r 100 current" by auto
  have "\<exists>res h2. act env 1 (get_op ?t ?r) h1 = Some (res, h2) \<and> sound h2 \<and> (res = Inr current \<and> hdb h2 = hdb h1)"
    by (rule act_sound [OF e(2)]) (simp add: get_op_def DB_Get_def e(4))
  then obtain h2 where g: "act env 1 (get_op ?t ?r) h1 = Some (Inr current, h2)" "sound h2" "hdb h2 = hdb h1" by auto
  let ?h2 = "set_drop True h2"
  note d2 = set_drop_sound [OF g(2), of True]
  let ?rule = "rule_of_update (raised 5 current) current (we_now ?w)"
  let ?db = "(hdb ?h2)\<lparr>db_rules := gm_put (ruleKey ?t ?r) ?rule (db_rules (hdb ?h2))\<rparr>"
  have c: "ru_TenantID current = ?t" "ru_Resource current = ?r" "ru_Limit current = 100" using e(5) by (simp_all add: fresh_rule_def)
  have u: "DB_Update (we_now ?w) (hdb ?h2) (Some (raised 5 current)) = (Inr ?rule, ?db)"
    using raised_update [of "hdb ?h2" current 5 "we_now ?w"] c e(4) g(3) d2(2) by (simp add: keeps_def wrap64_def)
  have "\<exists>res h3. act env 2 (update_op (raised 5 current)) ?h2 = Some (res, h3) \<and> sound h3 \<and> (res = Inr ?rule \<and> hdb h3 = ?db)"
  proof (rule act_sound [OF d2(1)])
    fix app assume a: "sound_app app" "ap_RuleDB app = hdb ?h2"
    with u have "DB_Update (we_now ?w) (ap_RuleDB app) (Some (raised 5 current)) = (Inr ?rule, ?db)" by simp
    from update_op_sound [OF a(1) this]
    show "\<exists>res app1. update_op (raised 5 current) ?w app = Some (res, app1) \<and> sound_app app1 \<and> (res = Inr ?rule \<and> ap_RuleDB app1 = ?db)"
      by auto
  qed
  then obtain h3 where h3: "act env 2 (update_op (raised 5 current)) ?h2 = Some (Inr ?rule, h3)" "sound h3" "hdb h3 = ?db" by auto
  from meanwhile_sound [OF h3(2), of "ce_unmarshal env" "ce_acts env 3"] obtain h4 where
    m: "meanwhile (ce_unmarshal env) (ce_acts env 3) h3 = Some h4" "sound h4" "hdb h4 = hdb h3" by blast
  from repair_rest_ends [OF m(2) assms(2), of ?rule] obtain h5 where
    r: "repair_rest env ?rule h4 = Some (None, Some h5)" "sound h5" "hdb h5 = hdb h4" "caught_up h5" by blast
  have "ch_App h \<noteq> None" "ch_RuleDB h \<noteq> None" "ch_PubSub h \<noteq> None" using assms(1) by (auto simp: sound_def)
  then have "scenarioPubSubRepair env (Some h) = Some (None, Some h5)"
    unfolding scenarioPubSubRepair_def option.case using e(1) g(1) h3(1) m(1) r(1) by simp
  moreover have "ru_Limit ?rule = 105" using c by (simp add: rule_of_update_def raised_def wrap64_def)
  ultimately show ?thesis using r m(3) h3(3) d2(2) g(3) e(3) by simp
qed

section \<open>The suite\<close>

lemma chaos_config_ok: "check_config chaos_config = None" "small_config chaos_config"
  unfolding checked by (simp_all add: chaos_config_def zero_config_def defaultConfig_def small_config_def Second_def Millisecond_def)

lemma harness_sound:
  assumes "NewChaosHarness now = Inr h"
  shows "\<exists>app app1. ch_App h = Some app \<and> Start (Some app) = (None, Some app1) \<and> sound (h\<lparr>ch_App := Some app1\<rparr>)
     \<and> hdb (h\<lparr>ch_App := Some app1\<rparr>) = NewInMemoryRuleDB"
proof -
  let ?cfg = "with_defaults chaos_config"
  have samp: "cf_Sampler chaos_config = None" using chaos_config_ok(2) by (simp add: small_config_def)
  from NewApplication_accepts [OF chaos_config_ok(1), of now chaos_deps] samp obtain http grpc where
    n: "NewApplication now chaos_deps (Some chaos_config) = Inr (wire now (created_stores chaos_config chaos_deps) ?cfg http grpc
          (NewHashSampler (cf_TraceSampleRate ?cfg)))" (is "_ = Inr ?app") by auto
  have h: "h = \<lparr>ch_App = Some ?app, ch_Redis = Some 1, ch_Membership = Some 1, ch_RuleDB = Some 1, ch_Outbox = Some 1,
      ch_PubSub = Some (newChaosPubSub (Some NewInMemoryPubSub)), ch_flight = []\<rparr>"
    using assms n by (simp add: NewChaosHarness_def Let_def)
  have "cf_RuleDB (ap_Config ?app) \<noteq> None" by (simp add: with_defaults_def if_nil_def)
  from Start_loads [OF this] have s: "Start (Some ?app) = (None, Some (?app\<lparr>ap_RuleCache := CacheSyncWorker_tick (ap_RuleDB ?app) (ap_RuleCache ?app),
      ap_cancel := Some False, ap_wg := ap_wg ?app @ started_workers ?app, ap_ready := True\<rparr>))" (is "_ = (None, Some ?app1)") .
  have "app_serving ?app1" by (rule wire_serving [OF chaos_config_ok(2)])
  moreover have db: "ap_RuleDB ?app1 = NewInMemoryRuleDB"
    by (simp add: wire_RuleDB created_stores_def chaos_deps_def)
  moreover have "ap_inflight ?app1 = NewInFlight" by (simp add: wire_inflight)
  moreover have "be_redis (ap_LimiterFactory ?app1) \<noteq> None" by (simp add: wire_def Let_def)
  moreover have "\<exists>dc. be_mode (ap_LimiterFactory ?app1) = Some dc \<and> 0 < dt_RedisUnhealthyFor (dc_thresholds dc)"
    by (simp add: wire_def Let_def NewDegradeController_def with_defaults_def default_thresholds_def if_zero_def chaos_config_def
      zero_config_def Millisecond_def)
  ultimately have "sound_app ?app1" by (simp add: sound_app_def db_inv_New)
  with h s db show ?thesis by (auto simp: sound_def hdb_def)
qed

lemma shutdown_ends:
  assumes "sound h"
  shows "\<exists>err app. Shutdown drain_end pick finished ctx_err (ch_App h) = Some (err, Some app) \<and> ap_RuleDB app = hdb h
     \<and> ap_RuleCache app = ap_RuleCache (the (ch_App h)) \<and> \<not> ap_ready app"
proof -
  from assms obtain app where app: "ch_App h = Some app" "sound_app app" "hdb h = ap_RuleDB app" by (rule soundE)
  then have "ap_inflight app = NewInFlight" by (simp add: sound_app_def)
  with app show ?thesis by (auto simp: Shutdown_def NewInFlight_def close_ch_def Let_def split: option.split)
qed

lemma suite_keys:
  "ruleKey ''tenant'' ''resource'' \<noteq> ruleKey ''tenant_drop'' ''resource_drop''" "storm_key i \<noteq> ruleKey ''tenant'' ''resource''"
  "storm_key i \<noteq> ruleKey ''tenant_drop'' ''resource_drop''"
proof -
  have "ruleKey ''tenant_drop'' ''resource_drop'' ! 7 = CHR ''d''" by (simp add: ruleKey_def)
  moreover have "storm_key i ! 7 = hd (FormatInt (int (i mod 5)))"
    using digits_nonempty [of "i mod 5"] by (simp add: storm_key_def storm_names ruleKey_def nth_append FormatInt_def hd_conv_nth)
  moreover have "hd (FormatInt (int n)) \<noteq> CHR ''d''" for n
  proof -
    have "CHR ''d'' \<notin> set (digits n)" using digits_set [of "CHR ''d''" n] by auto
    then have "hd (digits n) \<noteq> CHR ''d''" by (metis hd_in_set digits_nonempty)
    then show ?thesis by (simp add: FormatInt_def)
  qed
  ultimately show "storm_key i \<noteq> ruleKey ''tenant_drop'' ''resource_drop''" by metis
qed (simp_all add: storm_key_def storm_names ruleKey_def sep_def)

text \<open>C7. The chaos suite passes: on a new harness, with any interleaving of the application's goroutines, it returns no
  error if, in each of its waits, the ticks of the poll go on until a health tick (in the first) or a full synchronisation
  that no delivery follows (in the others) has run. Then every rule of the storm is at its sixth version with its limit
  raised five times, the update whose event was dropped has been stored, and the cache holds every rule of the database.\<close>

theorem chaos_suite_passes:
  assumes "NewChaosHarness now = Inr h" "env_ok checked_health env1" "env_ok synced env2" "env_ok synced env3"
  shows "\<exists>h1. RunChaos se env1 env2 env3 (Some h) = Some (None, Some h1)
     \<and> (\<forall>i<20. \<exists>rule. DB_Get (hdb h1) (storm_tenant i) (storm_resource i) = Inr rule \<and> ru_Version rule = 6 \<and> ru_Limit rule = 105 + int i)
     \<and> map_sum id ru_Limit (DB_Get (hdb h1) ''tenant_drop'' ''resource_drop'') = Inr 105
     \<and> caught_up h1 \<and> Ready (ch_App h1) = False"
proof -
  from harness_sound [OF assms(1)] obtain app app1 where
    s: "ch_App h = Some app" "Start (Some app) = (None, Some app1)" "sound (h\<lparr>ch_App := Some app1\<rparr>)"
      "hdb (h\<lparr>ch_App := Some app1\<rparr>) = NewInMemoryRuleDB" by blast
  let ?h = "h\<lparr>ch_App := Some app1\<rparr>"
  let ?k1 = "ruleKey ''tenant'' ''resource''" and ?k3 = "ruleKey ''tenant_drop'' ''resource_drop''"
  note k = suite_keys
  from redis_recovers [OF s(3) assms(2)] obtain h1 where
    a: "scenarioRedisRecover env1 (Some ?h) = Some (None, Some h1)" "sound h1"
      "\<forall>key. key \<noteq> ?k1 \<longrightarrow> stored_at h1 key = stored_at ?h key" by blast
  have n: "stored_at ?h key = None" for key by (simp add: s(4) NewInMemoryRuleDB_def)
  have "\<forall>i<20. stored_at h1 (storm_key i) = None" using a(3) k(2) n by metis
  from storm_converges [OF a(2) assms(3) this] obtain h2 rules where
    b: "scenarioRuleUpdateStorm env2 (Some h1) = Some (None, Some h2)" "sound h2" "list_all2 (tracked h2 5) [0..<20] rules"
      "\<forall>key. key \<notin> storm_key ` {..<20} \<longrightarrow> stored_at h2 key = stored_at h1 key" by blast
  have "?k3 \<notin> storm_key ` {..<20}"
  proof
    assume "?k3 \<in> storm_key ` {..<20}"
    then obtain i where "storm_key i = ?k3" by (rule imageE) (rule that, rule sym)
    then show False by (rule notE [OF k(3)])
  qed
  then have "stored_at h2 ?k3 = stored_at h1 ?k3" by (rule b(4) [rule_format])
  also have "\<dots> = stored_at ?h ?k3" by (rule a(3) [rule_format]) (rule k(1) [symmetric])
  also have "\<dots> = None" by (rule n)
  finally have b3: "stored_at h2 ?k3 = None" .
  from repair_converges [OF b(2) assms(4) b3] obtain h3 where
    c: "scenarioPubSubRepair env3 (Some h2) = Some (None, Some h3)" "sound h3" "caught_up h3"
      "\<forall>key. key \<noteq> ?k3 \<longrightarrow> stored_at h3 key = stored_at h2 key" "map_option ru_Limit (stored_at h3 ?k3) = Some 105" by blast
  from shutdown_ends [OF c(2), of "se_drain_end se" "se_pick se" "se_finished se" "se_err se"] obtain err app4 where
    d: "Shutdown (se_drain_end se) (se_pick se) (se_finished se) (se_err se) (ch_App h3) = Some (err, Some app4)" "ap_RuleDB app4 = hdb h3"
      "ap_RuleCache app4 = ap_RuleCache (the (ch_App h3))" "\<not> ap_ready app4" by blast
  let ?h4 = "h3\<lparr>ch_App := Some app4\<rparr>"
  have "RunChaos se env1 env2 env3 (Some h) = Some (None, Some ?h4)"
    unfolding RunChaos_def runChaosScenarios_def defaultChaosScenarios_def option.case s(1,2) prod.case
    by (simp only: run_scenarios.simps a(1) b(1) c(1) d(1) ChaosScenario.select_convs option.case prod.case option.sel option.distinct if_False)
  moreover have "hdb ?h4 = hdb h3" "caught_up ?h4" using d(2,3) c(3) by (simp_all add: hdb_def caught_up_def)
  moreover have "\<exists>rule. DB_Get (hdb h3) (storm_tenant i) (storm_resource i) = Inr rule \<and> ru_Version rule = 6 \<and> ru_Limit rule = 105 + int i"
    if "i < 20" for i
  proof -
    have "tracked h2 5 i (rules ! i)" using b(3) that by (auto simp: list_all2_conv_all_nth)
    then have t: "stored_at h3 (storm_key i) = Some (rules ! i)" "storm_rule 5 i (rules ! i)"
      using c(4) [rule_format, OF k(3)] by (simp_all only: tracked_def)
    have "storm_tenant i \<noteq> []" "storm_resource i \<noteq> []" by (simp_all add: storm_names)
    with t show ?thesis by (simp add: storm_rule_def DB_Get_def storm_key_def)
  qed
  moreover have "map_sum id ru_Limit (DB_Get (hdb h3) ''tenant_drop'' ''resource_drop'') = Inr 105"
    using c(5) by (auto simp: DB_Get_def)
  moreover have "Ready (ch_App ?h4) = False" using d(4) by simp
  ultimately show ?thesis by (intro exI [of _ ?h4]) simp
qed

text \<open>The suite on a harness, with goroutines that run between the operations.\<close>

definition sample_chaos_env :: "activity \<Rightarrow> chaos_env" where
  "sample_chaos_env a = \<lparr>ce_weather = (\<lambda>i. sample_weather), ce_acts = (\<lambda>i. [SubscribeStep, OutboxTick, DeliverStep 0, HealthTick unix_epoch]),
     ce_wait = [([OutboxTick], Tick), ([DeliverStep 0, a], Tick)], ce_unmarshal = sample_unmarshal\<rparr>"

lemma harness_built: "\<exists>h. NewChaosHarness now = Inr h"
  using NewApplication_accepts [OF chaos_config_ok(1), of now chaos_deps] by (auto simp: NewChaosHarness_def Let_def)

theorem chaos_suite_passes_witness:
  "\<exists>h1. RunChaos \<lparr>se_drain_end = None, se_pick = True, se_finished = True, se_err = CtxErr ''deadline''\<rparr>
       (sample_chaos_env (HealthTick unix_epoch)) (sample_chaos_env SyncTick) (sample_chaos_env SyncTick)
       (Some (projr (NewChaosHarness 5))) = Some (None, Some h1) \<and> caught_up h1"
proof -
  from harness_built [of 5] obtain h where h: "NewChaosHarness 5 = Inr h" by blast
  have "env_ok checked_health (sample_chaos_env (HealthTick unix_epoch))" "env_ok synced (sample_chaos_env SyncTick)"
    by (simp_all add: env_ok_def sample_chaos_env_def checked_health_def is_health_def clocked_def is_deliver_def encodes_def
      sample_weather_def int64_nanos_def int64_bounds)
  from chaos_suite_passes [OF h this(1) this(2) this(2)] h show ?thesis by auto
qed

end
