(* ===== verification/Command.thy ===== *)
theory Command
  imports Config_Print Chaos
begin

text \<open>
  The command: \<^verbatim>\<open>cmd/ratelimit\<close>. \<^verbatim>\<open>main\<close> prints its usage or the configuration, or runs the application until a signal
  and shuts it down; its result is how the process ends. What the application does between its start and the signal is an
  argument, as are the host (arguments, environment and files), the printing of a double and how the shutdown meets its
  context. \<^term>\<open>None\<close> is a panic or a wait that never ends.
\<close>

datatype exit = Usage "string list" | Printed json | Fatal string | Stopped duration "Application option"

text \<open>The lines of the usage; a nil writer gets none.\<close>

definition printUsage :: "bool \<Rightarrow> string list" where
  "printUsage writer =
     (if \<not> writer then []
      else [''Usage'', ''  ratelimit [print_config] [flags]'', [], ''Flags'',
        ''  config string config file path'',
        ''  region string region value'',
        ''  enable_http bool enable http'',
        ''  http_addr string http address'',
        ''  enable_grpc bool enable grpc'',
        ''  grpc_addr string grpc address'',
        ''  enable_auth bool enable auth'',
        ''  admin_token string admin token'',
        ''  trace_sample_rate int trace sample rate'',
        ''  coalesce_enabled bool coalesce enabled'',
        ''  coalesce_ttl_ms int coalesce ttl ms'',
        ''  breaker_failure_threshold int breaker failure threshold'',
        ''  breaker_open_ms int breaker open ms''])"

definition fatal :: "string \<Rightarrow> go_error \<Rightarrow> exit" where
  "fatal what err = Fatal (''failed to '' @ what @ '': '' @ Error_message err)"

text \<open>The configuration that \<^verbatim>\<open>main\<close> holds is the one that \<^verbatim>\<open>NewApplication\<close> completed.\<close>

definition run_app ::
    "time \<Rightarrow> dependencies \<Rightarrow> (Application option \<Rightarrow> Application option) \<Rightarrow> shutdown_env \<Rightarrow> Config \<Rightarrow> exit option" where
  "run_app now deps serve se cfg =
     (case NewApplication now deps (Some cfg) of
        Inl err \<Rightarrow> Some (fatal ''create application'' err)
      | Inr app \<Rightarrow>
          (case Start (Some app) of
             (Some err, app1) \<Rightarrow> Some (fatal ''start application'' err)
           | (None, app1) \<Rightarrow>
               let drain = cf_DrainTimeout (ap_Config app);
                   shutdownTimeout = (if drain > 0 then drain else 5 * Second)
               in (case Shutdown (se_drain_end se) (se_pick se) (se_finished se) (se_err se) (serve app1) of
                     None \<Rightarrow> None
                   | Some (Some err, app2) \<Rightarrow> Some (fatal ''shutdown application'' err)
                   | Some (None, app2) \<Rightarrow> Some (Stopped shutdownTimeout app2))))"

definition command_main ::
    "host \<Rightarrow> (float64 \<Rightarrow> string) \<Rightarrow> time \<Rightarrow> dependencies \<Rightarrow> (Application option \<Rightarrow> Application option) \<Rightarrow> shutdown_env \<Rightarrow> exit option" where
  "command_main host format_float now deps serve se =
     (if ho_Args host = [] then None
      else
        let args0 = tl (ho_Args host);
            print = (args0 \<noteq> [] \<and> hd args0 = ''print_config'');
            args = (if print then tl args0 else args0)
        in if args \<noteq> [] \<and> (hd args = ''help'' \<or> hd args = ''usage'') then Some (Usage (printUsage True))
           else if args \<noteq> [] \<and> (hd args = ''-h'' \<or> hd args = ''--help'') then Some (Usage (printUsage True))
           else (case LoadConfig host \<lparr>lo_ConfigPath = [], lo_Args = Some args, lo_Environ = None\<rparr> of
                   Inl err \<Rightarrow> Some (fatal ''load config'' err)
                 | Inr cfg \<Rightarrow>
                     if print then
                       (case PrintConfig format_float True (Some cfg) of
                          Inl err \<Rightarrow> Some (fatal ''print config'' err)
                        | Inr v \<Rightarrow> Some (Printed v))
                     else run_app now deps serve se cfg))"

section \<open>How the process ends\<close>

lemma run_app_outcome:
  "run_app now deps serve se cfg =
     (case check_config cfg of
        Some err \<Rightarrow> Some (fatal ''create application'' err)
      | None \<Rightarrow>
          (case Shutdown (se_drain_end se) (se_pick se) (se_finished se) (se_err se)
                  (serve (snd (Start (Some (projr (NewApplication now deps (Some cfg))))))) of
             None \<Rightarrow> None
           | Some (Some err, app2) \<Rightarrow> Some (fatal ''shutdown application'' err)
           | Some (None, app2) \<Rightarrow> Some (Stopped (if_zero (cf_DrainTimeout cfg) (5 * Second)) app2)))"
proof (cases "check_config cfg")
  case (Some err)
  then show ?thesis by (simp add: run_app_def NewApplication_rejects)
next
  case None
  from NewApplication_accepts [OF None, of now deps] obtain http grpc sampler where
    n: "NewApplication now deps (Some cfg) = Inr (wire now (created_stores cfg deps) (with_defaults cfg) http grpc sampler)"
    (is "_ = Inr ?app") by blast
  have "cf_RuleDB (ap_Config ?app) \<noteq> None" by (simp add: with_defaults_def if_nil_def)
  from Start_loads [OF this] obtain app1 where s: "Start (Some ?app) = (None, Some app1)" by blast
  have "0 \<le> cf_DrainTimeout cfg" using None unfolding checked by simp
  then have d: "0 < if_zero (cf_DrainTimeout cfg) (5 * Second)" by (intro if_zero_sign) (simp_all add: Second_def)
  have "cf_DrainTimeout (ap_Config ?app) = if_zero (cf_DrainTimeout cfg) (5 * Second)" by (simp add: with_defaults_def)
  with n s d None show ?thesis by (simp add: run_app_def Let_def)
qed

text \<open>Without a command word the process fails to load its configuration, refuses it, or runs and shuts down with a positive
  timeout; it never fails to start. With \<^verbatim>\<open>print_config\<close> it prints the configuration it would run with.\<close>

theorem main_outcome:
  assumes "ho_Args host = prog # args" "args = [] \<or> hd args \<notin> {''print_config'', ''help'', ''usage'', ''-h'', ''--help''}"
    and "load = LoadConfig host \<lparr>lo_ConfigPath = [], lo_Args = Some args, lo_Environ = None\<rparr>"
    and "printing = host\<lparr>ho_Args := prog # ''print_config'' # args\<rparr>"
  shows "command_main host format_float now deps serve se =
       (case load of Inl err \<Rightarrow> Some (fatal ''load config'' err) | Inr cfg \<Rightarrow> run_app now deps serve se cfg)
     \<and> command_main printing format_float now deps serve se =
       (case load of Inl err \<Rightarrow> Some (fatal ''load config'' err)
        | Inr cfg \<Rightarrow> Some (Printed (JObject (snapshot_values format_float (newConfigSnapshot (Some cfg))))))"
proof -
  have b: "base_config printing path = base_config host path" for path
    by (simp add: assms(4) base_config_def loadConfigFile_def split: sum.split option.split)
  have e: "ho_Environ printing = ho_Environ host" by (simp add: assms(4))
  have l: "LoadConfig printing opts = LoadConfig host opts" if "lo_Args opts = Some args" for opts
    unfolding LoadConfig_def b e that or_else_def option.case by (rule refl)
  have a: "(args \<noteq> [] \<and> hd args = ''print_config'') = False" "(args \<noteq> [] \<and> (hd args = ''help'' \<or> hd args = ''usage'')) = False"
    "(args \<noteq> [] \<and> (hd args = ''-h'' \<or> hd args = ''--help'')) = False" using assms(2) by auto
  have p: "(''print_config'' # args \<noteq> [] \<and> ''print_config'' = ''print_config'') = True" by simp
  have h: "ho_Args printing = prog # ''print_config'' # args" by (simp add: assms(4))
  have "command_main host format_float now deps serve se =
       (case load of Inl err \<Rightarrow> Some (fatal ''load config'' err) | Inr cfg \<Rightarrow> run_app now deps serve se cfg)"
    unfolding command_main_def assms(1,3) Let_def list.sel a if_False by simp
  moreover have "command_main printing format_float now deps serve se =
       (case load of Inl err \<Rightarrow> Some (fatal ''load config'' err)
        | Inr cfg \<Rightarrow> Some (Printed (JObject (snapshot_values format_float (newConfigSnapshot (Some cfg))))))"
    unfolding command_main_def h Let_def list.sel p if_True a if_False assms(3)
    by (simp add: l PrintConfig_def split: sum.split)
  ultimately show ?thesis by blast
qed

end
