(* ===== verification/Logging.thy ===== *)
theory Logging
  imports Prelude
begin

text \<open>
  \<^verbatim>\<open>observability/logging.go\<close>: the logger that writes one JSON object per line. The values of the fields are of any type
  \<^typ>\<open>'v\<close>, with the strings among them given by \<open>str\<close>; the text of an object, when it can be encoded, is an argument. The
  result is the lines that are handed to the underlying logger.
\<close>

record StdLogger =
  sl_l :: bool

definition NewStdLogger :: StdLogger where
  "NewStdLogger = \<lparr>sl_l = True\<rparr>"

definition log_payload :: "(string \<Rightarrow> 'v) \<Rightarrow> string \<Rightarrow> string \<Rightarrow> (string, 'v) gomap \<Rightarrow> (string, 'v) gomap" where
  "log_payload str level msg extra =
     fold (\<lambda>(key, value). gm_put key value) extra [(''level'', str level), (''msg'', str msg)]"

definition StdLogger_log ::
    "(string \<Rightarrow> 'v) \<Rightarrow> ((string, 'v) gomap \<Rightarrow> string option) \<Rightarrow> StdLogger option \<Rightarrow> string \<Rightarrow> string \<Rightarrow> (string, 'v) gomap \<Rightarrow> string list" where
  "StdLogger_log str marshal s_ptr level msg extra =
     (case s_ptr of
        None \<Rightarrow> []
      | Some s \<Rightarrow>
          if \<not> sl_l s then []
          else (case marshal (log_payload str level msg extra) of None \<Rightarrow> [msg] | Some data \<Rightarrow> [data]))"

definition StdLogger_Info ::
    "(string \<Rightarrow> 'v) \<Rightarrow> ((string, 'v) gomap \<Rightarrow> string option) \<Rightarrow> StdLogger option \<Rightarrow> string \<Rightarrow> (string, 'v) gomap \<Rightarrow> string list" where
  "StdLogger_Info str marshal s msg extra = StdLogger_log str marshal s ''info'' msg extra"

definition StdLogger_Error ::
    "(string \<Rightarrow> 'v) \<Rightarrow> ((string, 'v) gomap \<Rightarrow> string option) \<Rightarrow> StdLogger option \<Rightarrow> string \<Rightarrow> (string, 'v) gomap \<Rightarrow> string list" where
  "StdLogger_Error str marshal s msg extra = StdLogger_log str marshal s ''error'' msg extra"

text \<open>The object has every field, and the level and the message unless a field of that name replaces them.\<close>

lemma fold_put_get:
  assumes "gm_wf extra"
  shows "gm_get (fold (\<lambda>(key, value). gm_put key value) extra m) k = (case gm_get extra k of None \<Rightarrow> gm_get m k | Some v \<Rightarrow> Some v)"
  using assms
proof (induction extra arbitrary: m)
  case (Cons kv extra)
  then have "gm_get extra (fst kv) = None" by (auto simp: gm_wf_def map_of_eq_None_iff)
  with Cons show ?case by (cases kv) (auto simp: gm_wf_def split: option.split)
qed simp

theorem log_payload_get:
  assumes "gm_wf extra"
  shows "gm_get (log_payload str level msg extra) k =
     (case gm_get extra k of
        Some v \<Rightarrow> Some v
      | None \<Rightarrow> if k = ''level'' then Some (str level) else if k = ''msg'' then Some (str msg) else None)"
  using fold_put_get [OF assms] by (simp add: log_payload_def split: option.split)

end
